(* ===== verification/Prelude.thy ===== *)
theory Prelude
  imports Main "HOL-Library.Word"
begin

text \<open>
  Shared ground of the development: the machine types of the Rust sources, the results of
  fallible functions, the checked \<open>usize\<close> arithmetic of the standard library, big-endian
  integers, slices read through a cursor, the decimal and hexadecimal rendering used in
  names, and UTF-8 validation.

  A \<open>usize\<close> is a \<^typ>\<open>nat\<close> below \<open>usize_limit\<close> (the gateway's targets are 64-bit), a
  \<open>u64\<close> is a \<open>64 word\<close>, and a byte array of fixed size, \<open>[u8; n]\<close>, is the word of its \<open>8 * n\<close>
  bits, whose bytes in order are the big-endian ones. A \<open>Result<T, E>\<close> is \<open>'e + 't\<close> with \<open>Inl\<close> the error. The
  \<open>?\<close> operator of the source is \<open>r_bind\<close>.
\<close>

unbundle bit_operations_syntax

named_theorems codec_simps \<open>equations that run a reader or a writer on known input\<close>
named_theorems run_simps \<open>equations that unfold the sequencing operators\<close>

type_synonym u8 = "8 word"
type_synonym u16 = "16 word"
type_synonym u32 = "32 word"
type_synonym u64 = "64 word"
type_synonym digest = "256 word"
type_synonym bytes = "u8 list"

section \<open>Results\<close>

definition r_bind :: "'e + 'a \<Rightarrow> ('a \<Rightarrow> 'e + 'b) \<Rightarrow> 'e + 'b" where
  "r_bind m f = (case m of Inl e \<Rightarrow> Inl e | Inr x \<Rightarrow> f x)"

lemma r_bind_simps [simp, run_simps]:
  "r_bind (Inl e) f = Inl e"
  "r_bind (Inr x) f = f x"
  by (simp_all add: r_bind_def)

lemma r_bind_cong [fundef_cong]:
  assumes "m = m'" and "\<And>x. m' = Inr x \<Longrightarrow> f x = f' x"
  shows "r_bind m f = r_bind m' f'"
  using assms by (cases m') auto

lemma r_bind_InrE:
  assumes "r_bind m f = Inr y"
  obtains x where "m = Inr x" and "f x = Inr y"
  using assms by (cases m) auto

lemma r_bind_Inr_iff: "r_bind m f = Inr y \<longleftrightarrow> (\<exists>x. m = Inr x \<and> f x = Inr y)"
  by (cases m) auto

lemma r_bind_Inl_iff: "r_bind m f = Inl e \<longleftrightarrow> m = Inl e \<or> (\<exists>x. m = Inr x \<and> f x = Inl e)"
  by (cases m) auto

lemma r_bind_assoc: "r_bind (r_bind m f) g = r_bind m (\<lambda>x. r_bind (f x) g)"
  by (cases m) auto

text \<open>\<open>Result::map_err\<close>, \<open>Option::ok_or\<close>.\<close>

definition map_err :: "('e \<Rightarrow> 'f) \<Rightarrow> 'e + 'a \<Rightarrow> 'f + 'a" where
  "map_err g m = (case m of Inl e \<Rightarrow> Inl (g e) | Inr x \<Rightarrow> Inr x)"

lemma map_err_simps [simp, run_simps]:
  "map_err g (Inl e) = Inl (g e)"
  "map_err g (Inr x) = Inr x"
  by (simp_all add: map_err_def)

lemma map_err_Inr_iff [simp]: "map_err g m = Inr x \<longleftrightarrow> m = Inr x"
  by (cases m) auto

definition ok_or :: "'e \<Rightarrow> 'a option \<Rightarrow> 'e + 'a" where
  "ok_or e m = (case m of None \<Rightarrow> Inl e | Some x \<Rightarrow> Inr x)"

lemma ok_or_simps [simp, run_simps]:
  "ok_or e None = Inl e"
  "ok_or e (Some x) = Inr x"
  by (simp_all add: ok_or_def)

lemma ok_or_Inr_iff [simp]: "ok_or e m = Inr x \<longleftrightarrow> m = Some x"
  by (cases m) auto

definition is_ok :: "'e + 'a \<Rightarrow> bool" where
  "is_ok m = (case m of Inl _ \<Rightarrow> False | Inr _ \<Rightarrow> True)"

lemma is_ok_simps [simp]:
  "is_ok (Inl e) = False"
  "is_ok (Inr x) = True"
  by (simp_all add: is_ok_def)

lemma is_ok_iff: "is_ok m \<longleftrightarrow> (\<exists>x. m = Inr x)"
  by (cases m) auto

text \<open>
  A fallible operation on an explicit state: the error keeps the state it left behind, as
  an early return of an asynchronous function leaves the effects of its earlier calls.
\<close>

definition s_bind ::
  "('e + 'a) \<times> 's \<Rightarrow> ('a \<Rightarrow> 's \<Rightarrow> ('e + 'b) \<times> 's) \<Rightarrow> ('e + 'b) \<times> 's" where
  "s_bind m f = (case m of (Inl e, s) \<Rightarrow> (Inl e, s) | (Inr x, s) \<Rightarrow> f x s)"

lemma s_bind_simps [simp, run_simps]:
  "s_bind (Inl e, s) f = (Inl e, s)"
  "s_bind (Inr x, s) f = f x s"
  by (simp_all add: s_bind_def)

lemma s_bind_InrE:
  assumes "s_bind m f = (Inr y, s')"
  obtains x s where "m = (Inr x, s)" and "f x s = (Inr y, s')"
  using assms by (cases m; cases "fst m") auto

lemma s_bindE:
  assumes "s_bind m f = (r, s')"
  obtains (error) e where "m = (Inl e, s')" and "r = Inl e"
  | (ok) x t where "m = (Inr x, t)" and "f x t = (r, s')"
  using assms by (cases m; cases "fst m") auto

lemma s_bind_cong [fundef_cong]:
  assumes "m = m'" and "\<And>x s. m' = (Inr x, s) \<Longrightarrow> f x s = f' x s"
  shows "s_bind m f = s_bind m' f'"
  using assms by (cases m'; cases "fst m'") auto

text \<open>What every step of a run keeps, the run keeps.\<close>

lemma s_bind_keeps:
  assumes "P (snd m)" and "\<And>x t. m = (Inr x, t) \<Longrightarrow> P t \<Longrightarrow> P (snd (f x t))"
  shows "P (snd (s_bind m f))"
  using assms by (cases m; cases "fst m") auto

text \<open>The error conversion of \<open>?\<close> (\<open>From\<close>) on such an operation.\<close>

definition s_err :: "('e \<Rightarrow> 'f) \<Rightarrow> ('e + 'a) \<times> 's \<Rightarrow> ('f + 'a) \<times> 's" where
  "s_err g m = (map_err g (fst m), snd m)"

lemma s_err_simps [simp, run_simps]:
  "s_err g (Inl e, s) = (Inl (g e), s)"
  "s_err g (Inr x, s) = (Inr x, s)"
  by (simp_all add: s_err_def)

lemma snd_s_err [simp]: "snd (s_err g m) = snd m"
  by (simp add: s_err_def)

lemma s_errE:
  assumes "s_err g m = (r, s')"
  obtains r0 where "m = (r0, s')" and "map_err g r0 = r"
  using assms by (cases m; cases "fst m") auto

lemma map_err_Inl_iff: "map_err g m = Inl e \<longleftrightarrow> (\<exists>e0. m = Inl e0 \<and> e = g e0)"
  by (cases m) auto

lemma s_err_Inr_iff [simp]: "s_err g m = (Inr x, s) \<longleftrightarrow> m = (Inr x, s)"
  by (cases m; cases "fst m") auto

section \<open>Checked arithmetic\<close>

definition usize_limit :: nat where
  "usize_limit = 2 ^ 64"

definition checked_add :: "nat \<Rightarrow> nat \<Rightarrow> nat option" where
  "checked_add a b = (if a + b < usize_limit then Some (a + b) else None)"

definition checked_sub :: "nat \<Rightarrow> nat \<Rightarrow> nat option" where
  "checked_sub a b = (if b \<le> a then Some (a - b) else None)"

definition checked_mul :: "nat \<Rightarrow> nat \<Rightarrow> nat option" where
  "checked_mul a b = (if a * b < usize_limit then Some (a * b) else None)"

definition usize_saturating_add :: "nat \<Rightarrow> nat \<Rightarrow> nat" where
  "usize_saturating_add a b = min (a + b) (usize_limit - 1)"

definition u64_checked_add :: "u64 \<Rightarrow> u64 \<Rightarrow> u64 option" where
  "u64_checked_add a b = (if unat a + unat b < 2 ^ 64 then Some (a + b) else None)"

definition u64_checked_sub :: "u64 \<Rightarrow> u64 \<Rightarrow> u64 option" where
  "u64_checked_sub a b = (if b \<le> a then Some (a - b) else None)"

definition u64_of_usize :: "nat \<Rightarrow> u64 option" where
  "u64_of_usize n = (if n < 2 ^ 64 then Some (of_nat n) else None)"

definition usize_of_u64 :: "u64 \<Rightarrow> nat option" where
  "usize_of_u64 w = (if unat w < usize_limit then Some (unat w) else None)"

definition u32_of_usize :: "nat \<Rightarrow> u32 option" where
  "u32_of_usize n = (if n < 2 ^ 32 then Some (of_nat n) else None)"

definition usize_of_u32 :: "u32 \<Rightarrow> nat option" where
  "usize_of_u32 w = (if unat w < usize_limit then Some (unat w) else None)"

definition u16_of_usize :: "nat \<Rightarrow> u16 option" where
  "u16_of_usize n = (if n < 2 ^ 16 then Some (of_nat n) else None)"

text \<open>\<open>u64::try_from(n).unwrap_or(u64::MAX)\<close>.\<close>

definition u64_saturating :: "nat \<Rightarrow> u64" where
  "u64_saturating n = (case u64_of_usize n of Some w \<Rightarrow> w | None \<Rightarrow> - 1)"

lemma checked_add_Some_iff [simp]:
  "checked_add a b = Some c \<longleftrightarrow> c = a + b \<and> a + b < usize_limit"
  by (auto simp: checked_add_def)

lemma checked_sub_Some_iff [simp]: "checked_sub a b = Some c \<longleftrightarrow> c = a - b \<and> b \<le> a"
  by (auto simp: checked_sub_def)

lemma checked_mul_Some_iff [simp]:
  "checked_mul a b = Some c \<longleftrightarrow> c = a * b \<and> a * b < usize_limit"
  by (auto simp: checked_mul_def)

lemma checked_run [codec_simps]:
  "a + b < usize_limit \<Longrightarrow> checked_add a b = Some (a + b)"
  "b \<le> a \<Longrightarrow> checked_sub a b = Some (a - b)"
  "a * b < usize_limit \<Longrightarrow> checked_mul a b = Some (a * b)"
  by (simp_all add: checked_add_def checked_sub_def checked_mul_def)

lemma unat_bound: "unat (w :: 'a::len word) < 2 ^ LENGTH('a)"
  by (rule unsigned_less)

lemma unat64_less [simp]: "unat (w :: u64) < usize_limit"
  using unat_bound [of w] by (simp add: usize_limit_def)

lemma unat32_less [simp]: "unat (w :: u32) < usize_limit"
  using unat_bound [of w] by (simp add: usize_limit_def)

lemma usize_of_u64_eq [simp]: "usize_of_u64 w = Some (unat w)"
  by (simp add: usize_of_u64_def)

lemma usize_of_u32_eq [simp]: "usize_of_u32 w = Some (unat w)"
  by (simp add: usize_of_u32_def)

lemma u64_of_usize_Some_iff: "u64_of_usize n = Some w \<longleftrightarrow> n < 2 ^ 64 \<and> w = of_nat n"
  by (auto simp: u64_of_usize_def)

lemma u64_of_usize_unat: "u64_of_usize n = Some w \<Longrightarrow> unat w = n"
  by (auto simp: u64_of_usize_def unat_of_nat split: if_splits)

lemma u64_of_usize_small [simp]: "n < usize_limit \<Longrightarrow> u64_of_usize n = Some (of_nat n)"
  by (simp add: u64_of_usize_def usize_limit_def)

lemma u64_of_usize_of_unat [simp]: "u64_of_usize (unat w) = Some w"
  using unat64_less [of w] by simp

lemma u32_of_usize_Some_iff: "u32_of_usize n = Some w \<longleftrightarrow> n < 2 ^ 32 \<and> w = of_nat n"
  by (auto simp: u32_of_usize_def)

lemma u32_of_usize_unat: "u32_of_usize n = Some w \<Longrightarrow> unat w = n"
  by (auto simp: u32_of_usize_def unat_of_nat split: if_splits)

lemma u32_of_usize_of_unat [simp]: "u32_of_usize (unat w) = Some w"
  using unat_bound [of w] by (simp add: u32_of_usize_def)

lemma u16_of_usize_Some_iff: "u16_of_usize n = Some w \<longleftrightarrow> n < 2 ^ 16 \<and> w = of_nat n"
  by (auto simp: u16_of_usize_def)

lemma u16_of_usize_unat: "u16_of_usize n = Some w \<Longrightarrow> unat w = n"
  by (auto simp: u16_of_usize_def unat_of_nat split: if_splits)

lemma u16_of_usize_of_unat [simp]: "u16_of_usize (unat w) = Some w"
  using unat_bound [of w] by (simp add: u16_of_usize_def)

lemma u64_checked_add_Some_iff:
  "u64_checked_add a b = Some c \<longleftrightarrow> c = a + b \<and> unat a + unat b < 2 ^ 64"
  by (auto simp: u64_checked_add_def)

lemma u64_checked_add_unat: "u64_checked_add a b = Some c \<Longrightarrow> unat c = unat a + unat b"
  by (auto simp: u64_checked_add_def unat_word_ariths split: if_splits)

lemma u64_checked_sub_unat: "u64_checked_sub a b = Some c \<Longrightarrow> unat c = unat a - unat b \<and> unat b \<le> unat a"
  by (auto simp: u64_checked_sub_def unat_sub word_le_nat_alt split: if_splits)

section \<open>Big-endian integers\<close>

text \<open>\<open>to_be_bytes\<close> of an \<open>n\<close>-byte unsigned integer, and \<open>from_be_bytes\<close>.\<close>

fun be_bytes :: "nat \<Rightarrow> nat \<Rightarrow> bytes" where
  "be_bytes 0 v = []"
| "be_bytes (Suc n) v = be_bytes n (v div 256) @ [of_nat (v mod 256)]"

fun be_value :: "nat \<Rightarrow> bytes \<Rightarrow> nat" where
  "be_value acc [] = acc"
| "be_value acc (b # bs) = be_value (256 * acc + unat b) bs"

definition be16 :: "u16 \<Rightarrow> bytes" where
  "be16 w = be_bytes 2 (unat w)"

definition be32 :: "u32 \<Rightarrow> bytes" where
  "be32 w = be_bytes 4 (unat w)"

definition be64 :: "u64 \<Rightarrow> bytes" where
  "be64 w = be_bytes 8 (unat w)"

definition be128 :: "128 word \<Rightarrow> bytes" where
  "be128 w = be_bytes 16 (unat w)"

definition be256 :: "digest \<Rightarrow> bytes" where
  "be256 w = be_bytes 32 (unat w)"

lemma length_be_bytes [simp]: "length (be_bytes n v) = n"
  by (induction n arbitrary: v) auto

lemma length_be [simp]: "length (be16 a) = 2" "length (be32 b) = 4" "length (be64 c) = 8"
  "length (be128 d) = 16" "length (be256 e) = 32"
  by (simp_all add: be16_def be32_def be64_def be128_def be256_def)

lemma be_value_append: "be_value a (xs @ ys) = be_value (be_value a xs) ys"
  by (induction xs arbitrary: a) auto

lemma be_value_be_bytes: "be_value 0 (be_bytes n v) = v mod 256 ^ n"
proof (induction n arbitrary: v)
  case 0
  then show ?case by simp
next
  case (Suc n)
  have "unat (of_nat (v mod 256) :: u8) = v mod 256"
    by (simp add: unat_of_nat)
  then have "be_value 0 (be_bytes (Suc n) v) = 256 * ((v div 256) mod 256 ^ n) + v mod 256"
    by (simp add: be_value_append Suc.IH)
  also have "\<dots> = v mod 256 ^ Suc n"
    by (simp add: mod_mult2_eq)
  finally show ?case .
qed

lemma be_bytes_be_value: "be_bytes (length bs) (be_value 0 bs) = bs"
proof (induction bs rule: rev_induct)
  case Nil
  then show ?case by simp
next
  case (snoc b bs)
  have "unat b < 256"
    using unat_bound [of b] by simp
  with snoc.IH show ?case
    by (simp add: be_value_append)
qed

lemma be_value_less: "be_value 0 bs < 256 ^ length bs"
  by (metis be_bytes_be_value be_value_be_bytes mod_less_divisor zero_less_numeral zero_less_power)

lemma be_bytes_inj: "v < 256 ^ n \<Longrightarrow> w < 256 ^ n \<Longrightarrow> be_bytes n v = be_bytes n w \<longleftrightarrow> v = w"
  by (metis be_value_be_bytes mod_less)

section \<open>Slices through a cursor\<close>

text \<open>
  The sources read a byte slice through \<open>cursor: &mut usize\<close>. A reader takes the cursor
  and returns the value with the advanced cursor. \<open>take_slice\<close> is the shape of the
  functions \<open>take\<close> of \<open>frame.rs\<close>, \<open>checkpoint.rs\<close>, \<open>manifest.rs\<close> and of
  \<open>Reader::take\<close> in \<open>protocol.rs\<close>; they differ in the error of an overflowing cursor
  and of an end past the slice, which are its first two arguments.
\<close>

definition take_slice :: "'e \<Rightarrow> 'e \<Rightarrow> bytes \<Rightarrow> nat \<Rightarrow> nat \<Rightarrow> 'e + (bytes \<times> nat)" where
  "take_slice overflow truncated input cursor len =
     r_bind (ok_or overflow (checked_add cursor len)) (\<lambda>stop.
     if stop \<le> length input then Inr (take len (drop cursor input), stop)
     else Inl truncated)"

definition take_until_slice :: "'e \<Rightarrow> 'e \<Rightarrow> bytes \<Rightarrow> nat \<Rightarrow> nat \<Rightarrow> nat \<Rightarrow> 'e + (bytes \<times> nat)" where
  "take_until_slice overflow truncated input cursor len limit =
     r_bind (ok_or overflow (checked_add cursor len)) (\<lambda>stop.
     if stop > limit then Inl truncated else take_slice overflow truncated input cursor len)"

definition read_u16 :: "'e \<Rightarrow> 'e \<Rightarrow> bytes \<Rightarrow> nat \<Rightarrow> 'e + (u16 \<times> nat)" where
  "read_u16 overflow truncated input cursor =
     r_bind (take_slice overflow truncated input cursor 2) (\<lambda>(bs, cursor).
     Inr (of_nat (be_value 0 bs), cursor))"

definition read_u32 :: "'e \<Rightarrow> 'e \<Rightarrow> bytes \<Rightarrow> nat \<Rightarrow> 'e + (u32 \<times> nat)" where
  "read_u32 overflow truncated input cursor =
     r_bind (take_slice overflow truncated input cursor 4) (\<lambda>(bs, cursor).
     Inr (of_nat (be_value 0 bs), cursor))"

definition read_u64 :: "'e \<Rightarrow> 'e \<Rightarrow> bytes \<Rightarrow> nat \<Rightarrow> 'e + (u64 \<times> nat)" where
  "read_u64 overflow truncated input cursor =
     r_bind (take_slice overflow truncated input cursor 8) (\<lambda>(bs, cursor).
     Inr (of_nat (be_value 0 bs), cursor))"

definition read_u256 :: "'e \<Rightarrow> 'e \<Rightarrow> bytes \<Rightarrow> nat \<Rightarrow> 'e + (digest \<times> nat)" where
  "read_u256 overflow truncated input cursor =
     r_bind (take_slice overflow truncated input cursor 32) (\<lambda>(bs, cursor).
     Inr (of_nat (be_value 0 bs), cursor))"

lemma take_slice_Inr_iff:
  "take_slice eo et input c len = Inr (bs, c') \<longleftrightarrow>
     c' = c + len \<and> c + len < usize_limit \<and> c + len \<le> length input \<and>
     bs = take len (drop c input)"
  by (auto simp: take_slice_def r_bind_Inr_iff)

lemma take_until_slice_Inr_iff:
  "take_until_slice eo et input c len limit = Inr (bs, c') \<longleftrightarrow>
     take_slice eo et input c len = Inr (bs, c') \<and> c' \<le> limit"
  by (auto simp: take_until_slice_def take_slice_def r_bind_Inr_iff)

text \<open>
  Running a reader on known input: \<open>rest_at input c r\<close> says that the cursor \<open>c\<close> stands
  before the bytes \<open>r\<close>.
\<close>

definition rest_at :: "bytes \<Rightarrow> nat \<Rightarrow> bytes \<Rightarrow> bool" where
  "rest_at input c r \<longleftrightarrow> c \<le> length input \<and> drop c input = r"

lemma rest_at_append: "rest_at (xs @ r) (length xs) r"
  by (simp add: rest_at_def)

lemma rest_at_next:
  assumes "rest_at input c (xs @ r)" and "n = length xs"
  shows "rest_at input (c + n) r"
proof -
  have "length (drop c input) = length xs + length r" and "drop n (drop c input) = r"
    using assms by (simp_all add: rest_at_def)
  moreover from this(1) have "c + n \<le> length input"
    using assms unfolding rest_at_def length_drop by linarith
  ultimately show ?thesis
    using assms by (simp add: rest_at_def add.commute)
qed

lemma rest_at_step:
  "rest_at input c (xs @ r) \<Longrightarrow> c' = c + length xs \<Longrightarrow> rest_at input c' r"
  by (simp add: rest_at_next)

lemma rest_at_take_slice:
  assumes "rest_at input c (xs @ r)" and "c' = c + n" and "n = length xs" and "c' < usize_limit"
  shows "take_slice eo et input c n = Inr (xs, c')"
proof -
  have "c + n \<le> length input"
    using rest_at_next [OF assms(1,3)] by (simp add: rest_at_def)
  then show ?thesis
    using assms by (simp add: take_slice_Inr_iff rest_at_def)
qed

lemma rest_at_take_until:
  assumes "rest_at input c (xs @ r)" and "c' = c + n" and "n = length xs" and "c' < usize_limit"
    and "c' \<le> limit"
  shows "take_until_slice eo et input c n limit = Inr (xs, c')"
  using rest_at_take_slice [OF assms(1-4)] assms(5) by (simp add: take_until_slice_Inr_iff)

lemma of_nat_be_bytes:
  "of_nat (be_value 0 (be16 a)) = a" "of_nat (be_value 0 (be32 b)) = b"
  "of_nat (be_value 0 (be64 c)) = c" "of_nat (be_value 0 (be256 d)) = d"
  using unat_bound [of a] unat_bound [of b] unat_bound [of c] unat_bound [of d]
  by (simp_all add: be16_def be32_def be64_def be256_def be_value_be_bytes)

lemma rest_at_read_u16:
  assumes "rest_at input c (be16 w @ r)" and "c' = c + 2" and "c' < usize_limit"
  shows "read_u16 eo et input c = Inr (w, c')"
  by (simp add: read_u16_def rest_at_take_slice [OF assms(1,2) _ assms(3)] of_nat_be_bytes)

lemma rest_at_read_u32:
  assumes "rest_at input c (be32 w @ r)" and "c' = c + 4" and "c' < usize_limit"
  shows "read_u32 eo et input c = Inr (w, c')"
  by (simp add: read_u32_def rest_at_take_slice [OF assms(1,2) _ assms(3)] of_nat_be_bytes)

lemma rest_at_read_u64:
  assumes "rest_at input c (be64 w @ r)" and "c' = c + 8" and "c' < usize_limit"
  shows "read_u64 eo et input c = Inr (w, c')"
  by (simp add: read_u64_def rest_at_take_slice [OF assms(1,2) _ assms(3)] of_nat_be_bytes)

lemma rest_at_read_u256:
  assumes "rest_at input c (be256 w @ r)" and "c' = c + 32" and "c' < usize_limit"
  shows "read_u256 eo et input c = Inr (w, c')"
  by (simp add: read_u256_def rest_at_take_slice [OF assms(1,2) _ assms(3)] of_nat_be_bytes)

text \<open>A successful read, seen from the bytes consumed so far.\<close>

lemma take_slice_prefix:
  assumes "take_slice eo et input c len = Inr (bs, c')"
  shows "take c' input = take c input @ bs \<and> length bs = len \<and> c' = c + len \<and> c' \<le> length input"
  using assms by (auto simp: take_slice_Inr_iff take_add)

lemma be_of_value:
  "length bs = 2 \<Longrightarrow> be16 (of_nat (be_value 0 bs)) = bs"
  "length bs = 4 \<Longrightarrow> be32 (of_nat (be_value 0 bs)) = bs"
  "length bs = 8 \<Longrightarrow> be64 (of_nat (be_value 0 bs)) = bs"
  "length bs = 32 \<Longrightarrow> be256 (of_nat (be_value 0 bs)) = bs"
  using be_value_less [of bs] be_bytes_be_value [of bs]
  by (simp_all add: be16_def be32_def be64_def be256_def unat_of_nat)

lemma read_u16_prefix:
  "read_u16 eo et input c = Inr (w, c') \<Longrightarrow>
     take c' input = take c input @ be16 w \<and> c' = c + 2 \<and> c' \<le> length input"
  by (auto simp: read_u16_def be_of_value elim!: r_bind_InrE dest!: take_slice_prefix)

lemma read_u32_prefix:
  "read_u32 eo et input c = Inr (w, c') \<Longrightarrow>
     take c' input = take c input @ be32 w \<and> c' = c + 4 \<and> c' \<le> length input"
  by (auto simp: read_u32_def be_of_value elim!: r_bind_InrE dest!: take_slice_prefix)

lemma read_u64_prefix:
  "read_u64 eo et input c = Inr (w, c') \<Longrightarrow>
     take c' input = take c input @ be64 w \<and> c' = c + 8 \<and> c' \<le> length input"
  by (auto simp: read_u64_def be_of_value elim!: r_bind_InrE dest!: take_slice_prefix)

lemma read_u256_prefix:
  "read_u256 eo et input c = Inr (w, c') \<Longrightarrow>
     take c' input = take c input @ be256 w \<and> c' = c + 32 \<and> c' \<le> length input"
  by (auto simp: read_u256_def be_of_value elim!: r_bind_InrE dest!: take_slice_prefix)

lemma take_until_prefix:
  "take_until_slice eo et input c len limit = Inr (bs, c') \<Longrightarrow>
     take c' input = take c input @ bs \<and> length bs = len \<and> c' = c + len \<and>
     c' \<le> length input \<and> c' \<le> limit"
  by (auto simp: take_until_slice_Inr_iff dest!: take_slice_prefix)

lemmas read_prefixes = take_slice_prefix read_u16_prefix read_u32_prefix read_u64_prefix
  read_u256_prefix take_until_prefix

text \<open>\<open>Iterator::collect\<close> into a \<open>Result\<close>, and \<open>try_fold\<close>.\<close>

fun traverse :: "('a \<Rightarrow> 'e + 'b) \<Rightarrow> 'a list \<Rightarrow> 'e + 'b list" where
  "traverse f [] = Inr []"
| "traverse f (x # xs) = r_bind (f x) (\<lambda>y. r_bind (traverse f xs) (\<lambda>ys. Inr (y # ys)))"

fun try_fold :: "('b \<Rightarrow> 'a \<Rightarrow> 'e + 'b) \<Rightarrow> 'b \<Rightarrow> 'a list \<Rightarrow> 'e + 'b" where
  "try_fold f acc [] = Inr acc"
| "try_fold f acc (x # xs) = r_bind (f acc x) (\<lambda>acc. try_fold f acc xs)"

lemma traverse_Inr_iff:
  "traverse f xs = Inr ys \<longleftrightarrow> list_all2 (\<lambda>x y. f x = Inr y) xs ys"
  by (induction xs arbitrary: ys) (auto simp: r_bind_Inr_iff list_all2_Cons1)

lemma traverse_map:
  "(\<And>x. x \<in> set xs \<Longrightarrow> f x = Inr (g x)) \<Longrightarrow> traverse f xs = Inr (map g xs)"
  by (induction xs) auto

section \<open>Text\<close>

text \<open>
  A Rust \<open>String\<close> is a list of bytes that is valid UTF-8. The model keeps strings as
  \<^typ>\<open>string\<close>, one character per byte, with \<open>str_bytes\<close> for \<open>as_bytes\<close>.
\<close>

definition str_bytes :: "string \<Rightarrow> bytes" where
  "str_bytes s = map of_char s"

definition bytes_str :: "bytes \<Rightarrow> string" where
  "bytes_str bs = map (\<lambda>b. char_of (unat b)) bs"

lemma unat_of_char: "unat (of_char c :: u8) = of_char c"
proof -
  have "unat (of_nat (of_char c) :: u8) = of_char c mod 256"
    by (simp add: unat_of_nat)
  then show ?thesis by (simp add: of_nat_of_char)
qed

lemma bytes_str_str_bytes [simp]: "bytes_str (str_bytes s) = s"
  by (simp add: bytes_str_def str_bytes_def unat_of_char comp_def)

lemma str_bytes_bytes_str [simp]: "str_bytes (bytes_str bs) = bs"
proof -
  have "of_char (char_of (unat b)) = b" for b :: u8
  proof -
    have "(of_char (char_of (unat b)) :: u8) = of_nat (of_char (char_of (unat b)))"
      by (simp only: of_nat_of_char)
    also have "\<dots> = b"
      using unat_bound [of b] by simp
    finally show ?thesis .
  qed
  then show ?thesis by (simp add: bytes_str_def str_bytes_def comp_def)
qed

lemma length_str_bytes [simp]: "length (str_bytes s) = length s"
  by (simp add: str_bytes_def)

lemma length_bytes_str [simp]: "length (bytes_str bs) = length bs"
  by (simp add: bytes_str_def)

lemma str_bytes_inj [simp]: "str_bytes s = str_bytes t \<longleftrightarrow> s = t"
  by (metis bytes_str_str_bytes)

lemma str_bytes_Nil_iff [simp]: "str_bytes s = [] \<longleftrightarrow> s = []"
  by (simp add: str_bytes_def)

lemma str_bytes_append [simp]: "str_bytes (s @ t) = str_bytes s @ str_bytes t"
  by (simp add: str_bytes_def)

text \<open>\<open>std::str::from_utf8\<close>: the well-formed byte sequences of the Unicode standard.\<close>

definition utf8_cont :: "u8 \<Rightarrow> bool" where
  "utf8_cont b \<longleftrightarrow> 0x80 \<le> b \<and> b \<le> 0xBF"

fun utf8_valid :: "bytes \<Rightarrow> bool" where
  "utf8_valid [] = True"
| "utf8_valid (a # bs) =
     (if a \<le> 0x7F then utf8_valid bs
      else if 0xC2 \<le> a \<and> a \<le> 0xDF then
        (case bs of b # r \<Rightarrow> utf8_cont b \<and> utf8_valid r | _ \<Rightarrow> False)
      else if 0xE0 \<le> a \<and> a \<le> 0xEF then
        (case bs of b # c # r \<Rightarrow>
            utf8_cont b \<and> utf8_cont c \<and> (a = 0xE0 \<longrightarrow> 0xA0 \<le> b) \<and> (a = 0xED \<longrightarrow> b \<le> 0x9F) \<and>
            utf8_valid r
         | _ \<Rightarrow> False)
      else if 0xF0 \<le> a \<and> a \<le> 0xF4 then
        (case bs of b # c # d # r \<Rightarrow>
            utf8_cont b \<and> utf8_cont c \<and> utf8_cont d \<and>
            (a = 0xF0 \<longrightarrow> 0x90 \<le> b) \<and> (a = 0xF4 \<longrightarrow> b \<le> 0x8F) \<and> utf8_valid r
         | _ \<Rightarrow> False)
      else False)"

definition from_utf8 :: "bytes \<Rightarrow> string option" where
  "from_utf8 bs = (if utf8_valid bs then Some (bytes_str bs) else None)"

definition str_ok :: "string \<Rightarrow> bool" where
  "str_ok s \<longleftrightarrow> utf8_valid (str_bytes s)"

lemma from_utf8_str_bytes: "str_ok s \<Longrightarrow> from_utf8 (str_bytes s) = Some s"
  by (simp add: str_ok_def from_utf8_def)

lemma from_utf8_Some_iff: "from_utf8 bs = Some s \<longleftrightarrow> bs = str_bytes s \<and> str_ok s"
  by (auto simp: from_utf8_def str_ok_def)

lemma utf8_valid_ascii: "\<forall>b \<in> set bs. b \<le> 0x7F \<Longrightarrow> utf8_valid bs"
  by (induction bs) auto

definition ascii :: "string \<Rightarrow> bool" where
  "ascii s \<longleftrightarrow> (\<forall>c \<in> set s. of_char c < (128 :: nat))"

lemma ascii_simps [simp]:
  "ascii []"
  "ascii (c # s) \<longleftrightarrow> of_char c < (128 :: nat) \<and> ascii s"
  "ascii (s @ t) \<longleftrightarrow> ascii s \<and> ascii t"
  by (auto simp: ascii_def)

lemma str_ok_ascii: "ascii s \<Longrightarrow> str_ok s"
proof -
  assume s: "ascii s"
  have "(of_char c :: u8) \<le> 0x7F" if "c \<in> set s" for c
    using s that by (auto simp: ascii_def word_le_nat_alt unat_of_char)
  then show ?thesis
    unfolding str_ok_def by (intro utf8_valid_ascii) (auto simp: str_bytes_def)
qed

subsection \<open>Decimal and hexadecimal rendering\<close>

definition digit_char :: "nat \<Rightarrow> char" where
  "digit_char d = char_of (48 + d)"

fun show_nat :: "nat \<Rightarrow> string" where
  "show_nat n = (if n < 10 then [digit_char n] else show_nat (n div 10) @ [digit_char (n mod 10)])"

declare show_nat.simps [simp del]

definition show_u64 :: "u64 \<Rightarrow> string" where
  "show_u64 w = show_nat (unat w)"

definition read_dec :: "string \<Rightarrow> nat" where
  "read_dec s = foldl (\<lambda>acc c. 10 * acc + (of_char c - 48)) 0 s"

lemma of_digit_char: "d < 10 \<Longrightarrow> of_char (digit_char d) = 48 + d"
  by (simp add: digit_char_def)

lemma read_dec_show_nat [simp]: "read_dec (show_nat n) = n"
proof (induction n rule: show_nat.induct)
  case (1 n)
  show ?case
  proof (cases "n < 10")
    case True
    then show ?thesis
      by (simp add: show_nat.simps [of n] read_dec_def of_digit_char)
  next
    case False
    with "1.IH" show ?thesis
      by (simp add: show_nat.simps [of n] read_dec_def of_digit_char)
  qed
qed

lemma show_nat_inj [simp]: "show_nat m = show_nat n \<longleftrightarrow> m = n"
  by (metis read_dec_show_nat)

lemma show_u64_inj [simp]: "show_u64 v = show_u64 w \<longleftrightarrow> v = w"
  by (simp add: show_u64_def word_unat_eq_iff)

lemma show_nat_digits: "c \<in> set (show_nat n) \<Longrightarrow> 48 \<le> (of_char c :: nat) \<and> of_char c < (58 :: nat)"
proof (induction n rule: show_nat.induct)
  case (1 n)
  then show ?case
    by (auto simp: show_nat.simps [of n] of_digit_char split: if_splits)
qed

lemma show_nat_nonempty [simp]: "show_nat n \<noteq> []"
  by (simp add: show_nat.simps [of n])

lemma ascii_show_nat [simp]: "ascii (show_nat n)"
  using show_nat_digits by (fastforce simp: ascii_def)

end
