(* ===== verification/Names.thy ===== *)
theory Names
  imports Prelude
begin

text \<open>
  \<open>src/names.rs\<close>: generation numbers, the names of a room's streams and the producer
  identities. SHA-256 and CRC-32 come from the crates \<open>sha2\<close> and \<open>crc32fast\<close>; they are
  the fields of the parameter \<open>hashes\<close>, functions of the hashed bytes of which nothing else
  is assumed.
\<close>

section \<open>The digest crates\<close>

record hashes =
  sha256 :: "bytes \<Rightarrow> digest"
  crc32 :: "bytes \<Rightarrow> u32"

text \<open>A computable stand-in for the digests, for the witnesses only.\<close>

definition sample_hashes :: hashes where
  "sample_hashes = \<lparr>sha256 = (\<lambda>bs. of_nat (be_value 7 bs)), crc32 = (\<lambda>bs. of_nat (be_value 1 bs))\<rparr>"

section \<open>Generations\<close>

datatype generation_id = GenerationId (gen_value: u64)

lemma gen_value_inj: "gen_value g = gen_value g' \<longleftrightarrow> g = g'"
  by (cases g; cases g') simp

instantiation generation_id :: linorder
begin

definition less_eq_generation_id :: "generation_id \<Rightarrow> generation_id \<Rightarrow> bool" where
  "less_eq_generation_id a b \<longleftrightarrow> gen_value a \<le> gen_value b"

definition less_generation_id :: "generation_id \<Rightarrow> generation_id \<Rightarrow> bool" where
  "less_generation_id a b \<longleftrightarrow> gen_value a < gen_value b"

instance
  by standard (auto simp: less_eq_generation_id_def less_generation_id_def generation_id.expand)

end

definition gen_zero :: generation_id where
  "gen_zero = GenerationId 0"

definition checked_next :: "generation_id \<Rightarrow> generation_id option" where
  "checked_next g = map_option GenerationId (u64_checked_add (gen_value g) 1)"

lemma checked_next_Some:
  assumes "checked_next g = Some g'"
  shows "unat (gen_value g') = Suc (unat (gen_value g))" and "g < g'"
proof -
  from assms have "u64_checked_add (gen_value g) 1 = Some (gen_value g')"
    by (auto simp: checked_next_def)
  then show eq: "unat (gen_value g') = Suc (unat (gen_value g))"
    by (simp add: u64_checked_add_unat)
  show "g < g'"
    by (simp add: less_generation_id_def word_less_nat_alt eq)
qed

lemma checked_next_None_iff: "checked_next g = None \<longleftrightarrow> unat (gen_value g) = 2 ^ 64 - 1"
  using unat_bound [of "gen_value g"]
  by (auto simp: checked_next_def u64_checked_add_def)

section \<open>Hexadecimal digests\<close>

definition hex_digits :: string where
  "hex_digits = ''0123456789abcdef''"

definition hex :: "bytes \<Rightarrow> string" where
  "hex bs = concat (map (\<lambda>b. [hex_digits ! unat (drop_bit 4 b), hex_digits ! unat (b AND 0x0f)]) bs)"

lemma nibbles_in_range: "unat (drop_bit 4 (b :: u8)) < 16" "unat ((b :: u8) AND 0x0f) < 16"
proof -
  have "unat (drop_bit 4 b) = unat b div 16"
    by (simp only: unat_drop_bit_eq) (simp add: drop_bit_eq_div)
  then show "unat (drop_bit 4 b) < 16"
    using unat_bound [of b] by (simp add: less_mult_imp_div_less)
  have "unat (b AND 0x0f) \<le> unat (0x0f :: u8)"
    by (rule word_and_le1 [THEN word_le_nat_alt [THEN iffD1]])
  then show "unat (b AND 0x0f) < 16" by simp
qed

lemma length_hex [simp]: "length (hex bs) = 2 * length bs"
  by (induction bs) (auto simp: hex_def)

definition name_char :: "char \<Rightarrow> bool" where
  "name_char c \<longleftrightarrow> (let n = (of_char c :: nat) in n = 45 \<or> 48 \<le> n \<and> n < 58 \<or> 97 \<le> n \<and> n < 123)"

lemma hex_digit_nth:
  assumes "n < 16" shows "hex_digits ! n \<in> set hex_digits"
  using assms by (intro nth_mem) (simp add: hex_digits_def)

lemma hex_chars: "c \<in> set (hex bs) \<Longrightarrow> c \<in> set hex_digits"
  using nibbles_in_range by (auto simp: hex_def intro: hex_digit_nth)

lemma hex_name_chars: "c \<in> set (hex bs) \<Longrightarrow> name_char c"
  by (drule hex_chars) (auto simp: name_char_def hex_digits_def Let_def)

lemma show_nat_name_chars: "c \<in> set (show_nat n) \<Longrightarrow> name_char c"
  using show_nat_digits by (auto simp: name_char_def Let_def)

section \<open>Stream names and producer identities\<close>

record stream_name =
  logical :: string
  physical :: string

definition document_hash :: "hashes \<Rightarrow> string \<Rightarrow> string" where
  "document_hash h room_id = hex (be256 (sha256 h (str_bytes room_id)))"

definition manifest_stream :: "hashes \<Rightarrow> string \<Rightarrow> stream_name" where
  "manifest_stream h room_id =
     (let hash = document_hash h room_id in
      \<lparr>logical = ''room/'' @ hash @ ''/manifest'', physical = ''r-'' @ hash @ ''-m''\<rparr>)"

definition delta_stream_for_generation :: "hashes \<Rightarrow> string \<Rightarrow> generation_id \<Rightarrow> stream_name" where
  "delta_stream_for_generation h room_id generation =
     (let hash = document_hash h room_id; g = show_u64 (gen_value generation) in
      \<lparr>logical = ''room/'' @ hash @ ''/delta/'' @ g, physical = ''r-'' @ hash @ ''-d'' @ g\<rparr>)"

definition delta_stream :: "hashes \<Rightarrow> string \<Rightarrow> stream_name" where
  "delta_stream h room_id = delta_stream_for_generation h room_id gen_zero"

definition checkpoint_stream :: "hashes \<Rightarrow> string \<Rightarrow> generation_id \<Rightarrow> stream_name" where
  "checkpoint_stream h room_id generation =
     (let hash = document_hash h room_id; g = show_u64 (gen_value generation) in
      \<lparr>logical = ''room/'' @ hash @ ''/checkpoint/'' @ g, physical = ''r-'' @ hash @ ''-c'' @ g\<rparr>)"

definition producer_id_for_generation ::
  "hashes \<Rightarrow> 128 word \<Rightarrow> string \<Rightarrow> generation_id \<Rightarrow> string" where
  "producer_id_for_generation h boot_id room_id generation =
     ''qlg-'' @ hex (be256 (sha256 h (str_bytes ''quorum-loro-producer-v1'' @ [0] @ be128 boot_id @
       str_bytes room_id @ be64 (gen_value generation))))"

definition producer_id :: "hashes \<Rightarrow> 128 word \<Rightarrow> string \<Rightarrow> string" where
  "producer_id h boot_id room_id = producer_id_for_generation h boot_id room_id gen_zero"

lemma length_document_hash [simp]: "length (document_hash h r) = 64"
  by (simp add: document_hash_def)

lemma ascii_hex [simp]: "ascii (hex bs)"
  unfolding ascii_def by (auto dest!: hex_chars simp: hex_digits_def)

lemma str_ok_producer_id [simp]: "str_ok (producer_id_for_generation h boot r g)"
  by (rule str_ok_ascii) (simp add: producer_id_for_generation_def)

lemma length_producer_id [simp]:
  "length (producer_id_for_generation h boot r g) = 68"
  by (simp add: producer_id_for_generation_def)

lemma length_show_nat_le: "n < 10 ^ Suc k \<Longrightarrow> length (show_nat n) \<le> Suc k"
proof (induction k arbitrary: n)
  case 0
  then show ?case by (simp add: show_nat.simps [of n])
next
  case (Suc k)
  then have "n div 10 < 10 ^ Suc k" by (simp add: less_mult_imp_div_less)
  then have "length (show_nat (n div 10)) \<le> Suc k" by (rule Suc.IH)
  then show ?case by (simp add: show_nat.simps [of n])
qed

lemma length_show_u64: "length (show_u64 w) \<le> 20"
  using unat_bound [of w] length_show_nat_le [of "unat w" 19] by (simp add: show_u64_def)

lemma stream_names_apart [simp]:
  "physical (manifest_stream h r) \<noteq> physical (delta_stream_for_generation h r' g')"
  "physical (manifest_stream h r) \<noteq> physical (checkpoint_stream h r' g')"
  "physical (delta_stream_for_generation h r g) \<noteq> physical (checkpoint_stream h r' g')"
  "physical (delta_stream_for_generation h r' g') \<noteq> physical (manifest_stream h r)"
  "physical (checkpoint_stream h r' g') \<noteq> physical (manifest_stream h r)"
  "physical (checkpoint_stream h r' g') \<noteq> physical (delta_stream_for_generation h r g)"
  "physical (delta_stream_for_generation h r g) = physical (delta_stream_for_generation h r' g')
     \<longleftrightarrow> document_hash h r = document_hash h r' \<and> g = g'"
  "physical (checkpoint_stream h r g) = physical (checkpoint_stream h r' g')
     \<longleftrightarrow> document_hash h r = document_hash h r' \<and> g = g'"
  by (simp_all add: manifest_stream_def delta_stream_for_generation_def checkpoint_stream_def Let_def
      gen_value_inj)

text \<open>
  C19. The physical names of a room's streams never collide: a manifest stream is no delta
  or checkpoint stream, no delta stream is a checkpoint stream, and two delta (or two
  checkpoint) streams of any rooms coincide only for the same generation and the same
  SHA-256 digest of the room identifier.
\<close>

theorem stream_names_distinct:
  "physical (manifest_stream h r) \<noteq> physical (delta_stream_for_generation h r' g')
    \<and> physical (manifest_stream h r) \<noteq> physical (checkpoint_stream h r' g')
    \<and> physical (delta_stream_for_generation h r g) \<noteq> physical (checkpoint_stream h r' g')
    \<and> (physical (delta_stream_for_generation h r g) = physical (delta_stream_for_generation h r' g')
         \<longleftrightarrow> document_hash h r = document_hash h r' \<and> g = g')
    \<and> (physical (checkpoint_stream h r g) = physical (checkpoint_stream h r' g')
         \<longleftrightarrow> document_hash h r = document_hash h r' \<and> g = g')"
  by simp

text \<open>
  Every physical stream name is acceptable to Ursula: at most 117 bytes and only
  lower-case letters, digits and dashes, so in particular no slash.
\<close>

lemma stream_names_safe:
  assumes "n \<in> {physical (manifest_stream h r), physical (delta_stream_for_generation h r g),
               physical (checkpoint_stream h r g)}"
  shows "length n \<le> 117 \<and> (\<forall>c \<in> set n. name_char c)"
proof
  show "length n \<le> 117"
    using assms length_show_u64 [of "gen_value g"]
    by (auto simp: manifest_stream_def delta_stream_for_generation_def checkpoint_stream_def Let_def)
  have fixed: "\<forall>c \<in> set ''r-mdc''. name_char c"
    by (simp add: name_char_def)
  then show "\<forall>c \<in> set n. name_char c"
    using assms fixed hex_name_chars show_nat_name_chars
    by (auto simp: manifest_stream_def delta_stream_for_generation_def checkpoint_stream_def Let_def
        document_hash_def show_u64_def)
qed

end
