(* ===== verification/Codec.thy ===== *)
theory Codec
  imports Prelude
begin

text \<open>
  The contract between a record decoder and the code that reads whole streams of records.
  A provider states which records are admitted, what the bytes of a record are, and that
  its decoder accepts an input exactly when it begins with the bytes of an admitted record.
  What the readers of streams need (unique decoding, no record is a proper prefix of
  another, torn records are refused) is proved here once; \<open>frame.rs\<close> and \<open>manifest.rs\<close>
  are the providers.
\<close>

locale record_codec =
  fixes admitted :: "'a \<Rightarrow> bool"
    and layout :: "'a \<Rightarrow> bytes"
    and decode :: "bytes \<Rightarrow> 'e + ('a \<times> nat)"
  assumes decode_iff: "decode input = Inr (x, n) \<longleftrightarrow>
      admitted x \<and> n = length (layout x) \<and> (\<exists>rest. input = layout x @ rest)"
    and layout_nonempty: "layout x \<noteq> []"
begin

lemma decode_layout: "admitted x \<Longrightarrow> decode (layout x @ rest) = Inr (x, length (layout x))"
  by (simp add: decode_iff)

lemma layout_prefix_free:
  assumes "admitted x" and "admitted y" and "layout x @ r = layout y @ s"
  shows "x = y \<and> r = s"
proof -
  have "decode (layout x @ r) = Inr (x, length (layout x))"
    using assms(1) by (rule decode_layout)
  moreover have "decode (layout y @ s) = Inr (y, length (layout y))"
    using assms(2) by (rule decode_layout)
  ultimately have "x = y"
    unfolding assms(3) by simp
  with assms(3) show ?thesis by simp
qed

lemma torn_record_refused:
  assumes "admitted x" and "k < length (layout x)"
  shows "\<not> is_ok (decode (take k (layout x)))"
proof
  assume "is_ok (decode (take k (layout x)))"
  then obtain y n where "decode (take k (layout x)) = Inr (y, n)"
    by (auto simp: is_ok_iff)
  then obtain r where y: "admitted y" and r: "take k (layout x) = layout y @ r"
    by (auto simp: decode_iff)
  then have "layout x @ [] = layout y @ r @ drop k (layout x)"
    by (metis append.right_neutral append_assoc append_take_drop_id)
  from layout_prefix_free [OF assms(1) y this] have "drop k (layout x) = []" by auto
  with assms(2) show False by simp
qed

lemma streams_unique:
  assumes "\<forall>x \<in> set xs. admitted x" and "\<forall>y \<in> set ys. admitted y"
    and "concat (map layout xs) = concat (map layout ys)"
  shows "xs = ys"
  using assms
proof (induction xs arbitrary: ys)
  case Nil
  then show ?case using layout_nonempty by (cases ys) auto
next
  case (Cons x xs)
  then obtain y zs where ys: "ys = y # zs"
    using Cons.prems(3) layout_nonempty [of x] by (cases ys) simp_all
  with Cons.prems have adm: "admitted x" "admitted y"
    and eq: "layout x @ concat (map layout xs) = layout y @ concat (map layout zs)"
    by simp_all
  from layout_prefix_free [OF adm eq] have "x = y" and rest: "concat (map layout xs) = concat (map layout zs)"
    by simp_all
  moreover have "xs = zs"
    using Cons.prems ys by (intro Cons.IH [OF _ _ rest]) auto
  ultimately show ?case by (simp add: ys)
qed

end

end
