(* ===== verification/Frame.thy ===== *)
theory Frame
  imports Names Codec
begin

text \<open>
  \<open>src/frame.rs\<close>: the QLGD storage frame, its encoder, its decoder and the decoder of a
  whole delta stream. The layout is specified once, as \<open>frame_bytes\<close> (what the bytes of a
  frame are) and \<open>frame_fits\<close> (which frames a configuration admits); the encoder and the
  decoder of the source are proved to be the two halves of that specification.
\<close>

section \<open>Data\<close>

record frame_limits =
  fl_max_frame_bytes :: nat
  fl_max_producer_id_bytes :: nat
  fl_max_updates :: nat
  fl_max_update_bytes :: nat
  fl_max_updates_bytes :: nat
  fl_max_stream_bytes :: nat

definition default_frame_limits :: frame_limits where
  "default_frame_limits =
     \<lparr>fl_max_frame_bytes = 64 * 1024 * 1024, fl_max_producer_id_bytes = 256,
      fl_max_updates = 4096, fl_max_update_bytes = 32 * 1024 * 1024,
      fl_max_updates_bytes = 32 * 1024 * 1024, fl_max_stream_bytes = 512 * 1024 * 1024\<rparr>"

record producer_tuple =
  pt_id :: string
  pt_epoch :: u64
  pt_sequence :: u64

record delta_frame =
  fr_producer :: producer_tuple
  fr_batch_id :: u64
  fr_updates :: "bytes list"
  fr_digest :: digest

datatype frame_error =
    Truncated
  | LengthOverflow
  | UnsupportedVersion u16
  | ChecksumMismatch
  | DigestMismatch
  | LimitExceeded string nat nat
  | AtOffset u64 frame_error
  | Invalid string

definition frame_magic :: bytes where
  "frame_magic = str_bytes ''QLGD''"

definition frame_version :: u16 where
  "frame_version = 1"

definition frame_fixed_prefix :: nat where
  "frame_fixed_prefix = 4 + 2 + 2 + 8"

definition frame_fixed_suffix :: nat where
  "frame_fixed_suffix = 32 + 4 + 8"

definition frame_enforce_limit :: "string \<Rightarrow> nat \<Rightarrow> nat \<Rightarrow> frame_error + unit" where
  "frame_enforce_limit resource actual limit =
     (if actual > limit then Inl (LimitExceeded resource actual limit) else Inr ())"

definition update_digest :: "hashes \<Rightarrow> bytes list \<Rightarrow> digest" where
  "update_digest h updates =
     sha256 h (str_bytes ''quorum-loro-updates-v1'' @ [0] @ be64 (u64_saturating (length updates)) @
       concat (map (\<lambda>u. be64 (u64_saturating (length u)) @ u) updates))"

definition delta_frame_new :: "hashes \<Rightarrow> producer_tuple \<Rightarrow> u64 \<Rightarrow> bytes list \<Rightarrow> delta_frame" where
  "delta_frame_new h producer batch_id updates =
     \<lparr>fr_producer = producer, fr_batch_id = batch_id, fr_updates = updates,
      fr_digest = update_digest h updates\<rparr>"

section \<open>The encoder\<close>

definition frame_encode_with_limits ::
  "hashes \<Rightarrow> frame_limits \<Rightarrow> delta_frame \<Rightarrow> frame_error + bytes" where
  "frame_encode_with_limits h limits f =
     (let producer = fr_producer f; updates = fr_updates f in
      if pt_id producer = [] then Inl (Invalid ''producer ID is empty'') else
      r_bind (frame_enforce_limit ''producer ID bytes'' (length (pt_id producer))
                (fl_max_producer_id_bytes limits)) (\<lambda>_.
      if updates = [] then Inl (Invalid ''frame contains no updates'') else
      r_bind (frame_enforce_limit ''update count'' (length updates) (fl_max_updates limits)) (\<lambda>_.
      r_bind (ok_or (Invalid ''producer ID is too long'') (u16_of_usize (length (pt_id producer))))
        (\<lambda>producer_len.
      r_bind (ok_or (Invalid ''too many updates'') (u32_of_usize (length updates))) (\<lambda>update_count.
      r_bind (traverse (\<lambda>u. ok_or (Invalid ''update is too large'') (u32_of_usize (length u))) updates)
        (\<lambda>lengths.
      r_bind (try_fold (\<lambda>sum u.
                r_bind (frame_enforce_limit ''individual update bytes'' (length u)
                          (fl_max_update_bytes limits)) (\<lambda>_.
                ok_or LengthOverflow (checked_add sum (length u)))) 0 updates) (\<lambda>updates_len.
      r_bind (frame_enforce_limit ''aggregate update bytes'' updates_len
                (fl_max_updates_bytes limits)) (\<lambda>_.
      r_bind (ok_or LengthOverflow (checked_mul (length lengths) 4)) (\<lambda>length_table_len.
      r_bind (ok_or LengthOverflow
                (Option.bind (checked_add frame_fixed_prefix 2) (\<lambda>v.
                 Option.bind (checked_add v (unat producer_len)) (\<lambda>v.
                 Option.bind (checked_add v (8 + 8 + 8 + 4)) (\<lambda>v.
                 Option.bind (checked_add v length_table_len) (\<lambda>v.
                 Option.bind (checked_add v updates_len) (\<lambda>v.
                 checked_add v frame_fixed_suffix))))))) (\<lambda>total_len.
      r_bind (frame_enforce_limit ''frame bytes'' total_len (fl_max_frame_bytes limits)) (\<lambda>_.
      r_bind (ok_or LengthOverflow (u64_of_usize total_len)) (\<lambda>total_len_u64.
      let output = frame_magic @ be16 frame_version @ be16 0 @ be64 total_len_u64 @
            be16 producer_len @ str_bytes (pt_id producer) @ be64 (pt_epoch producer) @
            be64 (pt_sequence producer) @ be64 (fr_batch_id f) @ be32 update_count @
            concat (map be32 lengths) @ concat updates @ be256 (fr_digest f)
      in Inr (output @ be32 (crc32 h output) @ be64 total_len_u64)))))))))))))"

definition frame_encode :: "hashes \<Rightarrow> delta_frame \<Rightarrow> frame_error + bytes" where
  "frame_encode h f = frame_encode_with_limits h default_frame_limits f"

section \<open>The decoder\<close>

text \<open>
  \<open>frame_decode_header\<close> is the part of \<open>decode_one_with_limits\<close> up to the checksum test; it
  returns the frame's own bytes, their length and the cursor.
\<close>

definition frame_decode_header ::
  "hashes \<Rightarrow> frame_limits \<Rightarrow> bytes \<Rightarrow> frame_error + (bytes \<times> nat \<times> nat \<times> nat)" where
  "frame_decode_header h limits input =
     (if length input < frame_fixed_prefix + frame_fixed_suffix then Inl Truncated else
      if take 4 input \<noteq> frame_magic then Inl (Invalid ''bad frame magic'') else
      r_bind (read_u16 Truncated Truncated input 4) (\<lambda>(version, cursor).
      if version \<noteq> frame_version then Inl (UnsupportedVersion version) else
      r_bind (read_u16 Truncated Truncated input cursor) (\<lambda>(flags, cursor).
      if flags \<noteq> 0 then Inl (Invalid ''unsupported frame flags'') else
      r_bind (read_u64 Truncated Truncated input cursor) (\<lambda>(total, cursor).
      r_bind (ok_or LengthOverflow (usize_of_u64 total)) (\<lambda>total_len.
      if total_len < frame_fixed_prefix + frame_fixed_suffix then Inl Truncated else
      r_bind (frame_enforce_limit ''frame bytes'' total_len (fl_max_frame_bytes limits)) (\<lambda>_.
      if length input < total_len then Inl Truncated else
      let frame = take total_len input in
      r_bind (ok_or LengthOverflow (checked_sub total_len 8)) (\<lambda>trailer_start.
      r_bind (read_u64 Truncated Truncated frame trailer_start) (\<lambda>(trailer, _).
      r_bind (ok_or LengthOverflow (u64_of_usize total_len)) (\<lambda>expected_trailer.
      if trailer \<noteq> expected_trailer then Inl (Invalid ''frame length trailer mismatch'') else
      r_bind (ok_or LengthOverflow (checked_sub total_len 12)) (\<lambda>crc_start.
      r_bind (read_u32 Truncated Truncated frame crc_start) (\<lambda>(expected_crc, _).
      if crc32 h (take crc_start frame) \<noteq> expected_crc then Inl ChecksumMismatch else
      Inr (frame, total_len, crc_start, cursor))))))))))))"

fun frame_read_lengths ::
  "frame_limits \<Rightarrow> bytes \<Rightarrow> nat \<Rightarrow> nat \<Rightarrow> nat \<Rightarrow> frame_error + (nat list \<times> nat \<times> nat)" where
  "frame_read_lengths limits frame 0 updates_len cursor = Inr ([], updates_len, cursor)"
| "frame_read_lengths limits frame (Suc count) updates_len cursor =
     r_bind (read_u32 Truncated Truncated frame cursor) (\<lambda>(w, cursor).
     r_bind (ok_or LengthOverflow (usize_of_u32 w)) (\<lambda>len.
     r_bind (frame_enforce_limit ''individual update bytes'' len (fl_max_update_bytes limits)) (\<lambda>_.
     r_bind (ok_or LengthOverflow (checked_add updates_len len)) (\<lambda>updates_len.
     r_bind (frame_enforce_limit ''aggregate update bytes'' updates_len
               (fl_max_updates_bytes limits)) (\<lambda>_.
     r_bind (frame_read_lengths limits frame count updates_len cursor) (\<lambda>(lengths, updates_len, cursor).
     Inr (len # lengths, updates_len, cursor)))))))"

fun take_updates :: "'e \<Rightarrow> 'e \<Rightarrow> bytes \<Rightarrow> nat \<Rightarrow> nat list \<Rightarrow> nat \<Rightarrow> 'e + (bytes list \<times> nat)" where
  "take_updates overflow truncated frame limit [] cursor = Inr ([], cursor)"
| "take_updates overflow truncated frame limit (len # lengths) cursor =
     r_bind (take_until_slice overflow truncated frame cursor len limit) (\<lambda>(update, cursor).
     r_bind (take_updates overflow truncated frame limit lengths cursor) (\<lambda>(updates, cursor).
     Inr (update # updates, cursor)))"

definition frame_decode_body ::
  "hashes \<Rightarrow> frame_limits \<Rightarrow> bytes \<Rightarrow> nat \<Rightarrow> nat \<Rightarrow> frame_error + delta_frame" where
  "frame_decode_body h limits frame crc_start cursor =
     r_bind (read_u16 Truncated Truncated frame cursor) (\<lambda>(w, cursor).
     let producer_len = unat w in
     r_bind (frame_enforce_limit ''producer ID bytes'' producer_len
               (fl_max_producer_id_bytes limits)) (\<lambda>_.
     r_bind (take_slice Truncated Truncated frame cursor producer_len) (\<lambda>(producer_bytes, cursor).
     r_bind (ok_or (Invalid ''producer ID is not UTF-8'') (from_utf8 producer_bytes)) (\<lambda>producer_id.
     if producer_id = [] then Inl (Invalid ''producer ID is empty'') else
     r_bind (read_u64 Truncated Truncated frame cursor) (\<lambda>(epoch, cursor).
     r_bind (read_u64 Truncated Truncated frame cursor) (\<lambda>(sequence, cursor).
     r_bind (read_u64 Truncated Truncated frame cursor) (\<lambda>(batch_id, cursor).
     r_bind (read_u32 Truncated Truncated frame cursor) (\<lambda>(w, cursor).
     r_bind (ok_or LengthOverflow (usize_of_u32 w)) (\<lambda>count.
     if count = 0 then Inl (Invalid ''frame contains no updates'') else
     r_bind (frame_enforce_limit ''update count'' count (fl_max_updates limits)) (\<lambda>_.
     r_bind (ok_or Truncated (checked_sub crc_start 32)) (\<lambda>payload_end.
     r_bind (ok_or LengthOverflow (checked_mul count 4)) (\<lambda>length_table_bytes.
     r_bind (ok_or Truncated (case checked_add cursor length_table_bytes of
               Some stop \<Rightarrow> (if stop \<le> payload_end then Some stop else None)
             | None \<Rightarrow> None)) (\<lambda>length_table_end.
     r_bind (frame_read_lengths limits frame count 0 cursor) (\<lambda>(lengths, updates_len, cursor).
     r_bind (ok_or Truncated (checked_sub payload_end length_table_end)) (\<lambda>declared_payload_len.
     if updates_len \<noteq> declared_payload_len
     then Inl (Invalid ''update lengths do not consume payload'') else
     r_bind (take_updates Truncated Truncated frame payload_end lengths cursor) (\<lambda>(updates, cursor).
     if cursor \<noteq> payload_end then Inl (Invalid ''update lengths do not consume payload'') else
     r_bind (read_u256 Truncated Truncated frame cursor) (\<lambda>(digest, cursor).
     if digest \<noteq> update_digest h updates then Inl DigestMismatch else
     Inr \<lparr>fr_producer = \<lparr>pt_id = producer_id, pt_epoch = epoch, pt_sequence = sequence\<rparr>,
          fr_batch_id = batch_id, fr_updates = updates, fr_digest = digest\<rparr>)))))))))))))))))"

definition frame_decode_one_with_limits ::
  "hashes \<Rightarrow> frame_limits \<Rightarrow> bytes \<Rightarrow> frame_error + (delta_frame \<times> nat)" where
  "frame_decode_one_with_limits h limits input =
     r_bind (frame_decode_header h limits input) (\<lambda>(frame, total_len, crc_start, cursor).
     r_bind (frame_decode_body h limits frame crc_start cursor) (\<lambda>f.
     Inr (f, total_len)))"

definition frame_decode_exact ::
  "hashes \<Rightarrow> frame_limits \<Rightarrow> bytes \<Rightarrow> frame_error + delta_frame" where
  "frame_decode_exact h limits input =
     r_bind (frame_decode_one_with_limits h limits input) (\<lambda>(frame, consumed).
     if consumed \<noteq> length input then Inl (Invalid ''trailing bytes after frame'')
     else Inr frame)"

definition frame_decode_one :: "hashes \<Rightarrow> bytes \<Rightarrow> frame_error + (delta_frame \<times> nat)" where
  "frame_decode_one h input = frame_decode_one_with_limits h default_frame_limits input"

section \<open>The layout\<close>

definition frame_total :: "delta_frame \<Rightarrow> nat" where
  "frame_total f = frame_fixed_prefix + 2 + length (pt_id (fr_producer f)) + 28 +
     length (fr_updates f) * 4 + length (concat (fr_updates f)) + frame_fixed_suffix"

definition length_table :: "bytes list \<Rightarrow> bytes" where
  "length_table updates = concat (map (\<lambda>u. be32 (of_nat (length u))) updates)"

definition frame_head :: "delta_frame \<Rightarrow> bytes" where
  "frame_head f = frame_magic @ be16 frame_version @ be16 0 @ be64 (of_nat (frame_total f))"

definition frame_body :: "delta_frame \<Rightarrow> bytes" where
  "frame_body f =
     be16 (of_nat (length (pt_id (fr_producer f)))) @ str_bytes (pt_id (fr_producer f)) @
     be64 (pt_epoch (fr_producer f)) @ be64 (pt_sequence (fr_producer f)) @ be64 (fr_batch_id f) @
     be32 (of_nat (length (fr_updates f))) @ length_table (fr_updates f) @
     concat (fr_updates f) @ be256 (fr_digest f)"

definition frame_bytes :: "hashes \<Rightarrow> delta_frame \<Rightarrow> bytes" where
  "frame_bytes h f = (frame_head f @ frame_body f) @
     be32 (crc32 h (frame_head f @ frame_body f)) @ be64 (of_nat (frame_total f))"

text \<open>Which frames a configuration admits, and what every \<open>DeltaFrame\<close> value satisfies.\<close>

definition frame_fits :: "frame_limits \<Rightarrow> delta_frame \<Rightarrow> bool" where
  "frame_fits limits f \<longleftrightarrow>
     pt_id (fr_producer f) \<noteq> [] \<and> length (pt_id (fr_producer f)) < 2 ^ 16 \<and>
     length (pt_id (fr_producer f)) \<le> fl_max_producer_id_bytes limits \<and>
     fr_updates f \<noteq> [] \<and> length (fr_updates f) < 2 ^ 32 \<and>
     length (fr_updates f) \<le> fl_max_updates limits \<and>
     (\<forall>u \<in> set (fr_updates f). length u < 2 ^ 32 \<and> length u \<le> fl_max_update_bytes limits) \<and>
     length (concat (fr_updates f)) \<le> fl_max_updates_bytes limits \<and>
     frame_total f < usize_limit \<and> frame_total f \<le> fl_max_frame_bytes limits"

definition frame_wf :: "hashes \<Rightarrow> delta_frame \<Rightarrow> bool" where
  "frame_wf h f \<longleftrightarrow> str_ok (pt_id (fr_producer f)) \<and>
     fr_digest f = update_digest h (fr_updates f)"

lemma length_frame_magic [simp]: "length frame_magic = 4"
  by (simp add: frame_magic_def)

lemma length_frame_head [simp]: "length (frame_head f) = 16"
  by (simp add: frame_head_def)

lemma length_length_table [simp]: "length (length_table us) = length us * 4"
  by (induction us) (auto simp: length_table_def)

lemma length_frame_body:
  "length (frame_body f) + 28 = frame_total f"
  by (simp add: frame_body_def frame_total_def frame_fixed_prefix_def
      frame_fixed_suffix_def)

lemma length_frame_bytes [simp]: "length (frame_bytes h f) = frame_total f"
  using length_frame_body [of f] by (simp add: frame_bytes_def)

lemma frame_wf_new:
  "str_ok (pt_id p) \<Longrightarrow> frame_wf h (delta_frame_new h p b us)"
  by (simp add: frame_wf_def delta_frame_new_def)

lemma frame_enforce_limit_Inr_iff [simp]:
  "frame_enforce_limit r a l = Inr u \<longleftrightarrow> a \<le> l"
  by (auto simp: frame_enforce_limit_def)

lemma frame_enforce_limit_run [codec_simps]: "a \<le> l \<Longrightarrow> frame_enforce_limit r a l = Inr ()"
  by (simp add: frame_enforce_limit_def)

section \<open>The encoder meets the layout\<close>

lemma encode_lengths:
  "traverse (\<lambda>u. ok_or e (u32_of_usize (length u))) us = Inr ls \<longleftrightarrow>
     (\<forall>u \<in> set us. length u < 2 ^ 32) \<and> ls = map (\<lambda>u. of_nat (length u)) us"
  by (induction us arbitrary: ls) (auto simp: r_bind_Inr_iff u32_of_usize_Some_iff)

lemma encode_updates_len:
  "try_fold (\<lambda>sum u. r_bind (frame_enforce_limit r (length u) m) (\<lambda>_.
       ok_or LengthOverflow (checked_add sum (length u)))) s us = Inr t \<longleftrightarrow>
     (\<forall>u \<in> set us. length u \<le> m) \<and> t = s + length (concat us) \<and>
     (us \<noteq> [] \<longrightarrow> t < usize_limit)"
proof (induction us arbitrary: s)
  case Nil
  then show ?case by auto
next
  case (Cons u us)
  then show ?case by (cases "us = []") (auto simp: r_bind_Inr_iff)
qed

lemma frame_encode_Inr_iff:
  "frame_encode_with_limits h limits f = Inr out \<longleftrightarrow> frame_fits limits f \<and> out = frame_bytes h f"
  by (auto simp: frame_encode_with_limits_def Let_def r_bind_Inr_iff encode_lengths
        encode_updates_len u16_of_usize_Some_iff u32_of_usize_Some_iff u64_of_usize_Some_iff
        Option.bind_eq_Some_conv length_table_def comp_def frame_fits_def frame_bytes_def frame_head_def frame_body_def
        frame_total_def frame_fixed_prefix_def frame_fixed_suffix_def usize_limit_def unat_of_nat
        simp del: of_nat_unat)

section \<open>The decoder accepts exactly the layout\<close>

subsection \<open>From the layout to the decoder\<close>

lemma length_table_Cons [simp]:
  "length_table [] = []"
  "length_table (u # us) = be32 (of_nat (length u)) @ length_table us"
  by (simp_all add: length_table_def)

lemma read_lengths_run:
  assumes "rest_at frame c (length_table us @ r)"
    and "\<forall>u \<in> set us. length u < 2 ^ 32 \<and> length u \<le> fl_max_update_bytes limits"
    and "s + length (concat us) \<le> fl_max_updates_bytes limits"
    and "s + length (concat us) < usize_limit" and "c + length us * 4 < usize_limit"
  shows "frame_read_lengths limits frame (length us) s c =
    Inr (map length us, s + length (concat us), c + length us * 4)"
  using assms
proof (induction us arbitrary: s c)
  case Nil
  then show ?case by simp
next
  case (Cons u us)
  have here: "rest_at frame c (be32 (of_nat (length u)) @ length_table us @ r)"
    using Cons.prems(1) by simp
  then have "read_u32 Truncated Truncated frame c = Inr (of_nat (length u), c + 4)"
    using Cons.prems(5) by (intro rest_at_read_u32) auto
  moreover have "unat (of_nat (length u) :: u32) = length u"
    using Cons.prems(2) by (simp add: unat_of_nat)
  moreover have "frame_read_lengths limits frame (length us) (s + length u) (c + 4) =
      Inr (map length us, (s + length u) + length (concat us), (c + 4) + length us * 4)"
    using Cons.prems by (intro Cons.IH rest_at_next [OF here]) auto
  ultimately show ?case
    using Cons.prems by (simp add: codec_simps)
qed

lemma take_updates_run:
  assumes "rest_at frame c (concat us @ r)" and "c + length (concat us) \<le> limit"
    and "limit < usize_limit"
  shows "take_updates eo et frame limit (map length us) c = Inr (us, c + length (concat us))"
  using assms
proof (induction us arbitrary: c)
  case Nil
  then show ?case by simp
next
  case (Cons u us)
  have here: "rest_at frame c (u @ concat us @ r)"
    using Cons.prems(1) by simp
  then have "take_until_slice eo et frame c (length u) limit = Inr (u, c + length u)"
    using Cons.prems by (intro rest_at_take_until) auto
  moreover have "take_updates eo et frame limit (map length us) (c + length u) =
      Inr (us, (c + length u) + length (concat us))"
    using Cons.prems by (intro Cons.IH rest_at_next [OF here]) auto
  ultimately show ?case by simp
qed

lemma frame_decode_body_run:
  assumes wf: "frame_wf h f" and fits: "frame_fits limits f"
    and F: "rest_at F 16 (frame_body f @ r)"
  shows "frame_decode_body h limits F (frame_total f - 12) 16 = Inr f"
proof -
  let ?p = "fr_producer f" and ?us = "fr_updates f"
  let ?id = "str_bytes (pt_id ?p)"
  let ?n = "length (pt_id ?p)"
  have lim: "?n + 90 + length ?us * 4 + length (concat ?us) < usize_limit"
    using fits by (simp add: frame_fits_def frame_total_def frame_fixed_prefix_def frame_fixed_suffix_def)
  have crc_start: "frame_total f - 12 = ?n + 78 + length ?us * 4 + length (concat ?us)"
    by (simp add: frame_total_def frame_fixed_prefix_def frame_fixed_suffix_def)
  have c0: "rest_at F 16 (be16 (of_nat ?n) @ ?id @ be64 (pt_epoch ?p) @ be64 (pt_sequence ?p) @
      be64 (fr_batch_id f) @ be32 (of_nat (length ?us)) @ length_table ?us @ concat ?us @ be256 (fr_digest f) @ r)"
    using F by (simp add: frame_body_def)
  note c1 = rest_at_step [OF c0, of 18, simplified]
  note c2 = rest_at_step [OF c1, of "18 + ?n", simplified]
  note c3 = rest_at_step [OF c2, of "26 + ?n", simplified]
  note c4 = rest_at_step [OF c3, of "34 + ?n", simplified]
  note c5 = rest_at_step [OF c4, of "42 + ?n", simplified]
  note c6 = rest_at_step [OF c5, of "46 + ?n", simplified]
  define m where "m = 46 + ?n + length ?us * 4"
  define e where "e = m + length (concat ?us)"
  have c7: "rest_at F m (concat ?us @ be256 (fr_digest f) @ r)"
    by (rule rest_at_step [OF c6]) (simp add: m_def)
  have c8: "rest_at F e (be256 (fr_digest f) @ r)"
    by (rule rest_at_step [OF c7]) (simp add: e_def)
  have words: "unat (of_nat ?n :: u16) = ?n" "unat (of_nat (length ?us) :: u32) = length ?us"
    using fits by (simp_all add: frame_fits_def unat_of_nat)
  have r0: "read_u16 Truncated Truncated F 16 = Inr (of_nat ?n, 18)"
    by (rule rest_at_read_u16 [OF c0]) (use lim in auto)
  have r1: "take_slice Truncated Truncated F 18 ?n = Inr (?id, 18 + ?n)"
    by (rule rest_at_take_slice [OF c1]) (use lim in auto)
  have r2: "read_u64 Truncated Truncated F (18 + ?n) = Inr (pt_epoch ?p, 26 + ?n)"
    by (rule rest_at_read_u64 [OF c2]) (use lim in auto)
  have r3: "read_u64 Truncated Truncated F (26 + ?n) = Inr (pt_sequence ?p, 34 + ?n)"
    by (rule rest_at_read_u64 [OF c3]) (use lim in auto)
  have r4: "read_u64 Truncated Truncated F (34 + ?n) = Inr (fr_batch_id f, 42 + ?n)"
    by (rule rest_at_read_u64 [OF c4]) (use lim in auto)
  have r5: "read_u32 Truncated Truncated F (42 + ?n) = Inr (of_nat (length ?us), 46 + ?n)"
    by (rule rest_at_read_u32 [OF c5]) (use lim in auto)
  have r6: "frame_read_lengths limits F (length ?us) 0 (46 + ?n) =
      Inr (map length ?us, length (concat ?us), m)"
    using read_lengths_run [OF c6, of limits 0] fits lim by (simp add: frame_fits_def m_def)
  have r7: "take_updates Truncated Truncated F e (map length ?us) m = Inr (?us, e)"
    using take_updates_run [OF c7, of e] lim by (simp add: m_def e_def)
  have r8: "read_u256 Truncated Truncated F e = Inr (fr_digest f, e + 32)"
    by (rule rest_at_read_u256 [OF c8]) (use lim in \<open>auto simp: e_def m_def\<close>)
  have sizes: "checked_sub (frame_total f - 12) 32 = Some e"
    "checked_mul (length ?us) 4 = Some (length ?us * 4)"
    "checked_add (46 + ?n) (length ?us * 4) = Some m"
    "checked_sub e m = Some (length (concat ?us))" "m \<le> e"
    using lim by (auto simp: crc_start e_def m_def)
  have limits: "frame_enforce_limit r ?n (fl_max_producer_id_bytes limits) = Inr ()"
    "frame_enforce_limit r' (length ?us) (fl_max_updates limits) = Inr ()"
    "pt_id ?p \<noteq> []" "?us \<noteq> []" "from_utf8 ?id = Some (pt_id ?p)"
    "fr_digest f = update_digest h ?us" for r r'
    using fits wf by (auto simp: frame_fits_def frame_wf_def from_utf8_str_bytes codec_simps)
  show ?thesis
    by (simp add: frame_decode_body_def r0 r1 r2 r3 r4 r5 r6 r7 r8 words limits sizes)
qed

lemma frame_decode_header_run:
  assumes fits: "frame_fits limits f"
  shows "frame_decode_header h limits (frame_bytes h f @ rest) =
    Inr (frame_bytes h f, frame_total f, frame_total f - 12, 16)"
proof -
  let ?F = "frame_bytes h f" and ?t = "frame_total f"
  let ?input = "?F @ rest"
  have len: "length ?F = ?t" and t: "90 \<le> ?t" "?t < usize_limit" "?t \<le> fl_max_frame_bytes limits"
    using fits length_frame_bytes [of h f]
    by (auto simp: frame_fits_def frame_total_def frame_fixed_prefix_def frame_fixed_suffix_def)
  have body: "length (frame_head f @ frame_body f) = ?t - 12"
    using length_frame_body [of f] by simp
  have c0: "rest_at ?input 4 (be16 frame_version @ be16 0 @ be64 (of_nat ?t) @ drop 16 ?input)"
    using len t by (simp add: rest_at_def frame_bytes_def frame_head_def)
  note c1 = rest_at_step [OF c0, of 6, simplified]
  note c2 = rest_at_step [OF c1, of 8, simplified]
  have r0: "read_u16 Truncated Truncated ?input 4 = Inr (frame_version, 6)"
    by (rule rest_at_read_u16 [OF c0]) (auto simp: usize_limit_def)
  have r1: "read_u16 Truncated Truncated ?input 6 = Inr (0, 8)"
    by (rule rest_at_read_u16 [OF c1]) (auto simp: usize_limit_def)
  have r2: "read_u64 Truncated Truncated ?input 8 = Inr (of_nat ?t, 16)"
    by (rule rest_at_read_u64 [OF c2]) (auto simp: usize_limit_def)
  have crc: "rest_at ?F (?t - 12) (be32 (crc32 h (frame_head f @ frame_body f)) @ be64 (of_nat ?t) @ [])"
    using rest_at_append [of "frame_head f @ frame_body f"] unfolding body frame_bytes_def by simp
  have r3: "read_u32 Truncated Truncated ?F (?t - 12) = Inr (crc32 h (frame_head f @ frame_body f), ?t - 8)"
    by (rule rest_at_read_u32 [OF crc]) (use t in auto)
  have "rest_at ?F (?t - 8) (be64 (of_nat ?t) @ [])"
    by (rule rest_at_step [OF crc]) (use t in auto)
  then have r4: "read_u64 Truncated Truncated ?F (?t - 8) = Inr (of_nat ?t, ?t)"
    by (rule rest_at_read_u64) (use t in auto)
  have magic: "take 4 ?F = frame_magic" "take 4 ?input = frame_magic"
    by (simp_all add: frame_bytes_def frame_head_def)
  have pre: "take (?t - 12) ?F = frame_head f @ frame_body f"
    using body by (simp add: frame_bytes_def)
  have word: "unat (of_nat ?t :: u64) = ?t"
    using t by (simp add: unat_of_nat usize_limit_def)
  show ?thesis
    using t by (simp add: frame_decode_header_def Let_def r0 r1 r2 r3 r4 magic pre word len codec_simps
        frame_fixed_prefix_def frame_fixed_suffix_def)
qed

theorem frame_decode_run:
  assumes "frame_wf h f" and "frame_fits limits f"
  shows "frame_decode_one_with_limits h limits (frame_bytes h f @ rest) = Inr (f, frame_total f)"
proof -
  have "rest_at (frame_bytes h f) 16 (frame_body f @ be32 (crc32 h (frame_head f @ frame_body f)) @
      be64 (of_nat (frame_total f)))"
    using rest_at_append [of "frame_head f"] by (simp add: frame_bytes_def)
  from frame_decode_body_run [OF assms this] show ?thesis
    by (simp add: frame_decode_one_with_limits_def frame_decode_header_run [OF assms(2)])
qed

subsection \<open>From the decoder to the layout\<close>

lemma read_lengths_prefix:
  assumes "frame_read_lengths limits frame n s c = Inr (ls, t, c')"
  shows "length ls = n \<and> t = s + sum_list ls \<and> c' = c + n * 4 \<and>
    take c' frame = take c frame @ concat (map (\<lambda>l. be32 (of_nat l)) ls) \<and>
    (\<forall>l \<in> set ls. l < 2 ^ 32 \<and> l \<le> fl_max_update_bytes limits) \<and>
    (n > 0 \<longrightarrow> t \<le> fl_max_updates_bytes limits)"
  using assms
proof (induction n arbitrary: s c ls)
  case 0
  then show ?case by simp
next
  case (Suc n)
  from Suc.prems obtain w c1 ls' where
    r: "read_u32 Truncated Truncated frame c = Inr (w, c1)" and
    le: "unat w \<le> fl_max_update_bytes limits" "s + unat w \<le> fl_max_updates_bytes limits" and
    rec: "frame_read_lengths limits frame n (s + unat w) c1 = Inr (ls', t, c')" and
    ls: "ls = unat w # ls'"
    by (auto elim!: r_bind_InrE)
  have "unat w < 2 ^ 32"
    using unat_bound [of w] by simp
  with Suc.IH [OF rec] read_u32_prefix [OF r] le ls show ?case
    by (cases n) auto
qed

lemma take_updates_prefix:
  assumes "take_updates eo et frame limit ls c = Inr (us, c')"
  shows "map length us = ls \<and> c' = c + length (concat us) \<and>
    take c' frame = take c frame @ concat us \<and> (ls \<noteq> [] \<longrightarrow> c' \<le> length frame)"
  using assms
proof (induction ls arbitrary: c us)
  case Nil
  then show ?case by simp
next
  case (Cons l ls)
  from Cons.prems obtain u c1 us' where
    t: "take_until_slice eo et frame c l limit = Inr (u, c1)" and
    rec: "take_updates eo et frame limit ls c1 = Inr (us', c')" and us: "us = u # us'"
    by (auto elim!: r_bind_InrE)
  from Cons.IH [OF rec] take_until_prefix [OF t] us show ?case
    by (cases ls) auto
qed

lemma frame_decode_body_prefix:
  assumes "frame_decode_body h limits F crc_start 16 = Inr f"
  shows "take crc_start F = take 16 F @ frame_body f \<and> frame_wf h f \<and>
    crc_start + 12 = frame_total f \<and>
    (frame_total f < usize_limit \<longrightarrow> frame_total f \<le> fl_max_frame_bytes limits \<longrightarrow> frame_fits limits f)"
proof -
  let ?read16 = "read_u16 Truncated Truncated F"
  from assms obtain plen c1 idb c2 ide ep c3 sq c4 batch c5 cnt c6 ls tot c7 us c8 dig c9 where
    r: "?read16 16 = Inr (plen, c1)"
      "take_slice Truncated Truncated F c1 (unat plen) = Inr (idb, c2)"
      "from_utf8 idb = Some ide"
      "read_u64 Truncated Truncated F c2 = Inr (ep, c3)"
      "read_u64 Truncated Truncated F c3 = Inr (sq, c4)"
      "read_u64 Truncated Truncated F c4 = Inr (batch, c5)"
      "read_u32 Truncated Truncated F c5 = Inr (cnt, c6)"
      "frame_read_lengths limits F (unat cnt) 0 c6 = Inr (ls, tot, c7)"
      "take_updates Truncated Truncated F (crc_start - 32) ls c7 = Inr (us, c8)"
      "read_u256 Truncated Truncated F c8 = Inr (dig, c9)"
    and g: "unat plen \<le> fl_max_producer_id_bytes limits" "ide \<noteq> []" "unat cnt \<noteq> 0"
      "unat cnt \<le> fl_max_updates limits" "32 \<le> crc_start" "c8 = crc_start - 32"
      "dig = update_digest h us"
    and f: "f = \<lparr>fr_producer = \<lparr>pt_id = ide, pt_epoch = ep, pt_sequence = sq\<rparr>,
          fr_batch_id = batch, fr_updates = us, fr_digest = dig\<rparr>"
    by (auto simp: frame_decode_body_def Let_def elim!: r_bind_InrE split: if_splits option.splits)
  note p = r(1) [THEN read_u16_prefix] r(2) [THEN take_slice_prefix] r(4) [THEN read_u64_prefix]
    r(5) [THEN read_u64_prefix] r(6) [THEN read_u64_prefix] r(7) [THEN read_u32_prefix]
    r(8) [THEN read_lengths_prefix] r(9) [THEN take_updates_prefix] r(10) [THEN read_u256_prefix]
  have id: "idb = str_bytes ide" "str_ok ide"
    using r(3) by (auto simp: from_utf8_Some_iff)
  have ls: "ls = map length us" "length us = unat cnt"
    using p(7,8) by (auto simp flip: length_map [of length])
  have c9: "c9 = crc_start" and n: "unat plen = length ide"
    using p(2,9) g id by auto
  have w: "of_nat (length ide) = plen" "of_nat (length us) = cnt"
    by (simp_all add: ls(2) flip: n)
  have table: "concat (map (\<lambda>l. be32 (of_nat l)) ls) = length_table us"
    by (simp add: ls length_table_def comp_def)
  have body: "frame_body f = be16 plen @ idb @ be64 ep @ be64 sq @ be64 batch @ be32 cnt @
      length_table us @ concat us @ be256 dig"
    by (simp add: f frame_body_def w id)
  have t7: "take c7 F = take c6 F @ length_table us" and t8: "take c8 F = take c7 F @ concat us"
    using p(7,8) table by auto
  have bytes: "take crc_start F = take 16 F @ frame_body f"
    by (simp only: c9 [symmetric] p(1-6,9) [THEN conjunct1] t7 t8 body append_assoc)
  have wf: "frame_wf h f"
    using id(2) g(7) by (simp add: frame_wf_def f)
  have total: "crc_start + 12 = frame_total f"
    using p [THEN conjunct2] g(5,6) ls n c9
    by (simp add: f frame_total_def frame_fixed_prefix_def frame_fixed_suffix_def)
  have bound: "unat plen < 2 ^ 16" "unat cnt < 2 ^ 32"
    using unat_bound [of plen] unat_bound [of cnt] by simp_all
  have sum: "sum_list (map length us) = length (concat us)"
    by (simp add: length_concat)
  have "length (concat us) \<le> fl_max_updates_bytes limits"
    "\<forall>u \<in> set us. length u < 2 ^ 32 \<and> length u \<le> fl_max_update_bytes limits"
    using p(7) g(3) sum ls by auto
  with bytes wf total bound g n ls(2) show ?thesis
    by (auto simp: frame_fits_def f)
qed

lemma frame_decode_header_prefix:
  assumes "frame_decode_header h limits input = Inr (F, t, crc_start, c)"
  shows "c = 16 \<and> F = take t input \<and> t \<le> length input \<and> crc_start + 12 = t \<and> 60 \<le> t \<and>
    t < usize_limit \<and> t \<le> fl_max_frame_bytes limits \<and>
    take 16 input = frame_magic @ be16 frame_version @ be16 0 @ be64 (of_nat t) \<and>
    F = take crc_start F @ be32 (crc32 h (take crc_start F)) @ be64 (of_nat t)"
proof -
  from assms obtain w trailer c1 c2 c' c'' where
    magic: "take 4 input = frame_magic" and
    r: "read_u16 Truncated Truncated input 4 = Inr (frame_version, c1)"
      "read_u16 Truncated Truncated input c1 = Inr (0, c2)"
      "read_u64 Truncated Truncated input c2 = Inr (w, c)"
      "read_u64 Truncated Truncated F (t - 8) = Inr (trailer, c')"
      "read_u32 Truncated Truncated F crc_start = Inr (crc32 h (take crc_start F), c'')"
    and t: "t = unat w" "60 \<le> t" "t \<le> fl_max_frame_bytes limits" "t \<le> length input"
    and F: "F = take t input" and tr: "trailer = of_nat t" and cs: "crc_start = t - 12"
    by (auto simp: frame_decode_header_def Let_def frame_fixed_prefix_def frame_fixed_suffix_def
        not_less elim!: r_bind_InrE split: if_splits)
  note p = r(1,2) [THEN read_u16_prefix] r(3,4) [THEN read_u64_prefix] r(5) [THEN read_u32_prefix]
  have w: "of_nat t = w" and lim: "t < usize_limit"
    by (simp_all add: t(1))
  have tF: "length F = t"
    using F t(4) by simp
  have "take 16 input = frame_magic @ be16 frame_version @ be16 0 @ be64 (of_nat t)"
    using p(1-3) magic w by auto
  moreover have "F = take crc_start F @ be32 (crc32 h (take crc_start F)) @ be64 (of_nat t)"
  proof -
    have "crc_start + 4 = t - 8" "t - 8 + 8 = t"
      using t(2) cs by auto
    then have "take (t - 8) F = take crc_start F @ be32 (crc32 h (take crc_start F))"
      and "take t F = take (t - 8) F @ be64 (of_nat t)"
      using p(4,5) tr by auto
    with tF show ?thesis by simp
  qed
  ultimately show ?thesis
    using p(1-3) [THEN conjunct2] F t lim cs by simp
qed

text \<open>
  The decoder and the layout agree: a frame is decoded from the front of an input exactly
  when it is well formed, admitted by the limits and its layout is what the input begins with.
\<close>

theorem frame_decode_Inr_iff:
  "frame_decode_one_with_limits h limits input = Inr (f, n) \<longleftrightarrow>
    frame_wf h f \<and> frame_fits limits f \<and> n = frame_total f \<and> (\<exists>rest. input = frame_bytes h f @ rest)"
    (is "?L \<longleftrightarrow> ?R")
proof
  assume ?L
  then obtain F cs c where
    hd: "frame_decode_header h limits input = Inr (F, n, cs, c)" and
    bd: "frame_decode_body h limits F cs c = Inr f"
    by (auto simp: frame_decode_one_with_limits_def elim!: r_bind_InrE)
  note ph = frame_decode_header_prefix [OF hd]
  with bd have "frame_decode_body h limits F cs 16 = Inr f" by simp
  note pb = frame_decode_body_prefix [OF this]
  have "take 16 F = frame_head f"
    using ph pb by (simp add: frame_head_def)
  then have "F = frame_bytes h f"
    using ph pb by (metis frame_bytes_def append_assoc)
  moreover have "input = F @ drop n input"
    using ph by simp
  ultimately show ?R
    using ph pb by metis
next
  assume ?R
  then show ?L
    using frame_decode_run by blast
qed

interpretation frame_codec: record_codec
  "\<lambda>f. frame_wf h f \<and> frame_fits limits f" "frame_bytes h" "frame_decode_one_with_limits h limits"
  for h limits
proof
  show "frame_decode_one_with_limits h limits input = Inr (x, n) \<longleftrightarrow>
      (frame_wf h x \<and> frame_fits limits x) \<and> n = length (frame_bytes h x) \<and>
      (\<exists>rest. input = frame_bytes h x @ rest)" for input x n
    by (auto simp: frame_decode_Inr_iff)
  show "frame_bytes h x \<noteq> []" for x
    by (simp add: frame_bytes_def frame_head_def frame_magic_def str_bytes_def)
qed

section \<open>A whole delta stream\<close>

lemma frame_decode_consumed:
  assumes "frame_decode_one_with_limits h limits input = Inr (f, n)"
  shows "0 < n" and "n \<le> length input"
  using assms by (auto simp: frame_decode_Inr_iff frame_total_def frame_fixed_prefix_def)

text \<open>The loop of \<open>decode_all_with_limits\<close>, with the stream offset it reports errors at.\<close>

function frame_decode_loop ::
  "hashes \<Rightarrow> frame_limits \<Rightarrow> bytes \<Rightarrow> u64 \<Rightarrow> frame_error + delta_frame list" where
  "frame_decode_loop h limits input offset =
     (if input = [] then Inr [] else
      r_bind (map_err (AtOffset offset) (frame_decode_one_with_limits h limits input))
        (\<lambda>(frame, consumed).
      if consumed > length input then Inl Truncated else
      r_bind (ok_or LengthOverflow (u64_of_usize consumed)) (\<lambda>step.
      r_bind (ok_or LengthOverflow (u64_checked_add offset step)) (\<lambda>offset.
      r_bind (frame_decode_loop h limits (drop consumed input) offset) (\<lambda>frames.
      Inr (frame # frames))))))"
  by pat_completeness auto

termination
  by (relation "measure (\<lambda>(h, limits, input, offset). length input)")
    (auto dest: frame_decode_consumed)

declare frame_decode_loop.simps [simp del]

definition frame_decode_all_with_limits ::
  "hashes \<Rightarrow> frame_limits \<Rightarrow> bytes \<Rightarrow> frame_error + delta_frame list" where
  "frame_decode_all_with_limits h limits input =
     r_bind (frame_enforce_limit ''stream bytes'' (length input) (fl_max_stream_bytes limits)) (\<lambda>_.
     frame_decode_loop h limits input 0)"

definition frame_decode_all :: "hashes \<Rightarrow> bytes \<Rightarrow> frame_error + delta_frame list" where
  "frame_decode_all h input = frame_decode_all_with_limits h default_frame_limits input"

lemma frame_decode_loop_Inr:
  assumes "frame_decode_loop h limits input offset = Inr fs"
  shows "(\<forall>f \<in> set fs. frame_wf h f \<and> frame_fits limits f) \<and> input = concat (map (frame_bytes h) fs)"
  using assms
proof (induction h limits input offset arbitrary: fs rule: frame_decode_loop.induct)
  case (1 h limits input offset)
  show ?case
  proof (cases "input = []")
    case True
    with "1.prems" show ?thesis by (simp add: frame_decode_loop.simps)
  next
    case False
    with "1.prems" obtain f n w offset' fs' where
      f: "frame_decode_one_with_limits h limits input = Inr (f, n)" and n: "n \<le> length input" and
      w: "u64_of_usize n = Some w" "u64_checked_add offset w = Some offset'" and
      rec: "frame_decode_loop h limits (drop n input) offset' = Inr fs'" and fs: "fs = f # fs'"
      by (subst (asm) frame_decode_loop.simps) (auto elim!: r_bind_InrE split: if_splits)
    have "(\<forall>f \<in> set fs'. frame_wf h f \<and> frame_fits limits f) \<and>
        drop n input = concat (map (frame_bytes h) fs')"
      by (rule "1.IH" [OF False _ refl _ _ _ rec]) (use f n w in auto)
    moreover from f obtain rest where "frame_wf h f \<and> frame_fits limits f"
      and "input = frame_bytes h f @ rest" and "n = length (frame_bytes h f)"
      by (auto simp: frame_decode_Inr_iff)
    ultimately show ?thesis using fs by simp
  qed
qed

lemma frame_decode_loop_run:
  assumes "\<forall>f \<in> set fs. frame_wf h f \<and> frame_fits limits f"
    and "unat offset + length (concat (map (frame_bytes h) fs)) < 2 ^ 64"
  shows "frame_decode_loop h limits (concat (map (frame_bytes h) fs)) offset = Inr fs"
  using assms
proof (induction fs arbitrary: offset)
  case Nil
  then show ?case by (simp add: frame_decode_loop.simps)
next
  case (Cons f fs)
  let ?rest = "concat (map (frame_bytes h) fs)"
  have n: "frame_total f < 2 ^ 64" "unat offset + frame_total f < 2 ^ 64"
    using Cons.prems(2) by auto
  then have step: "u64_of_usize (frame_total f) = Some (of_nat (frame_total f))"
    "u64_checked_add offset (of_nat (frame_total f)) = Some (offset + of_nat (frame_total f))"
    "unat (offset + of_nat (frame_total f)) = unat offset + frame_total f"
    by (simp_all add: u64_of_usize_def u64_checked_add_def unat_of_nat unat_word_ariths)
  have "frame_decode_loop h limits ?rest (offset + of_nat (frame_total f)) = Inr fs"
    using Cons.prems step(3) by (intro Cons.IH) auto
  moreover have "frame_decode_one_with_limits h limits (frame_bytes h f @ ?rest) = Inr (f, frame_total f)"
    using Cons.prems(1) by (intro frame_decode_run) auto
  moreover have "frame_bytes h f \<noteq> []"
    by (rule frame_codec.layout_nonempty)
  ultimately show ?case
    using step by (subst frame_decode_loop.simps) simp
qed

text \<open>The same for the whole stream.\<close>

lemma frame_decode_all_Inr:
  "frame_decode_all_with_limits h l bs = Inr fs \<Longrightarrow>
    length bs \<le> fl_max_stream_bytes l \<and> bs = concat (map (frame_bytes h) fs) \<and>
    (\<forall>f \<in> set fs. frame_wf h f \<and> frame_fits l f)"
  using frame_decode_loop_Inr by (auto simp: frame_decode_all_with_limits_def elim!: r_bind_InrE split: if_splits)

lemma frames_decode:
  assumes "\<forall>f \<in> set fs. frame_wf h f \<and> frame_fits l f" and "bs = concat (map (frame_bytes h) fs)"
    and "length bs \<le> fl_max_stream_bytes l" "length bs < 2 ^ 64"
  shows "frame_decode_all_with_limits h l bs = Inr fs"
  using frame_decode_loop_run [OF assms(1), of 0] assms(2-4)
  by (simp add: frame_decode_all_with_limits_def frame_enforce_limit_def)

section \<open>Properties\<close>

text \<open>A concrete frame for the witnesses.\<close>

definition sample_frame :: delta_frame where
  "sample_frame = delta_frame_new sample_hashes
     \<lparr>pt_id = ''producer-a'', pt_epoch = 3, pt_sequence = 9\<rparr> 72623859790382856 [[1, 2], [3, 4, 255]]"

lemma default_frame_limits_sel [simp]:
  "fl_max_frame_bytes default_frame_limits = 67108864"
  "fl_max_producer_id_bytes default_frame_limits = 256"
  "fl_max_updates default_frame_limits = 4096"
  "fl_max_update_bytes default_frame_limits = 33554432"
  "fl_max_updates_bytes default_frame_limits = 33554432"
  "fl_max_stream_bytes default_frame_limits = 536870912"
  by (simp_all add: default_frame_limits_def)

lemma sample_frame_total [simp]: "frame_total sample_frame = 113"
  by (simp add: frame_total_def frame_fixed_prefix_def frame_fixed_suffix_def sample_frame_def
      delta_frame_new_def)

lemma sample_frame_ok [simp]:
  "frame_wf sample_hashes sample_frame" "frame_fits default_frame_limits sample_frame"
proof -
  show "frame_wf sample_hashes sample_frame"
    by (simp add: sample_frame_def frame_wf_new str_ok_ascii)
  have "frame_total sample_frame = 113" by simp
  then show "frame_fits default_frame_limits sample_frame"
    by (simp add: frame_fits_def usize_limit_def) (simp add: sample_frame_def delta_frame_new_def)
qed

lemma sample_frame_encode:
  "frame_encode_with_limits sample_hashes default_frame_limits sample_frame =
    Inr (frame_bytes sample_hashes sample_frame)"
  by (simp add: frame_encode_Inr_iff)

text \<open>
  C12. Encoding a well-formed frame and decoding it, with any bytes after it, gives back the
  same frame and consumes exactly its bytes; \<open>decode_exact\<close> accepts the bytes on their own
  and refuses them with anything after.
\<close>

theorem frame_roundtrip:
  assumes "frame_wf h f" and "frame_encode_with_limits h limits f = Inr out"
  shows "frame_decode_one_with_limits h limits (out @ rest) = Inr (f, length out)
    \<and> frame_decode_exact h limits out = Inr f
    \<and> (rest \<noteq> [] \<longrightarrow> frame_decode_exact h limits (out @ rest) =
          Inl (Invalid ''trailing bytes after frame''))"
proof -
  from assms(2) have out: "out = frame_bytes h f" and fits: "frame_fits limits f"
    by (auto simp: frame_encode_Inr_iff)
  have "frame_decode_one_with_limits h limits (out @ r) = Inr (f, length out)" for r
    using frame_decode_run [OF assms(1) fits] by (simp add: out)
  from this [of rest] this [of "[]"] show ?thesis
    by (auto simp: frame_decode_exact_def)
qed

theorem frame_roundtrip_witness:
  "frame_decode_one_with_limits sample_hashes default_frame_limits
     (frame_bytes sample_hashes sample_frame @ [7]) = Inr (sample_frame, 113)"
  using frame_roundtrip [OF sample_frame_ok(1) sample_frame_encode, of "[7]"] by simp

text \<open>
  C13. The stored form is canonical: whatever the decoder accepts is, byte for byte, what the
  encoder writes for the decoded frame under the same limits, and the decoded frame carries
  the SHA-256 digest of its own updates and a UTF-8 producer identity.
\<close>

theorem frame_decode_canonical:
  assumes "frame_decode_one_with_limits h limits input = Inr (f, n)"
  shows "frame_encode_with_limits h limits f = Inr (take n input)
    \<and> fr_digest f = update_digest h (fr_updates f) \<and> str_ok (pt_id (fr_producer f))"
  using assms by (auto simp: frame_decode_Inr_iff frame_encode_Inr_iff frame_wf_def)

theorem frame_decode_canonical_witness:
  "frame_encode_with_limits sample_hashes default_frame_limits sample_frame =
     Inr (take (frame_total sample_frame) (frame_bytes sample_hashes sample_frame @ [7, 7]))"
  using frame_decode_canonical [OF frame_decode_run [OF sample_frame_ok, of "[7, 7]"]] by simp

text \<open>No torn frame is accepted: the decoder refuses every proper prefix of an encoded frame.\<close>

lemma frame_truncated_refused:
  assumes "frame_wf h f" and "frame_encode_with_limits h limits f = Inr out" and "k < length out"
  shows "\<not> is_ok (frame_decode_one_with_limits h limits (take k out))"
proof -
  have "frame_wf h f \<and> frame_fits limits f" and "out = frame_bytes h f"
    using assms by (auto simp: frame_encode_Inr_iff)
  with assms(3) show ?thesis
    by (intro frame_codec.torn_record_refused [of h f limits k, folded \<open>out = frame_bytes h f\<close>]) auto
qed

text \<open>
  C14. A delta stream decodes to a list of frames exactly when the stream is within the
  configured size and is the concatenation of the encodings of those frames: nothing is
  skipped, reordered or invented by \<open>decode_all_with_limits\<close>.
\<close>

theorem frame_stream_decoding:
  assumes "length input < 2 ^ 64"
  shows "frame_decode_all_with_limits h limits input = Inr fs \<longleftrightarrow>
    length input \<le> fl_max_stream_bytes limits \<and> (\<forall>f \<in> set fs. frame_wf h f) \<and>
    traverse (frame_encode_with_limits h limits) fs = Inr (map (frame_bytes h) fs) \<and>
    input = concat (map (frame_bytes h) fs)"
proof -
  have enc: "traverse (frame_encode_with_limits h limits) fs = Inr (map (frame_bytes h) fs) \<longleftrightarrow>
      (\<forall>f \<in> set fs. frame_fits limits f)"
    by (auto simp: traverse_Inr_iff list_all2_conv_all_nth frame_encode_Inr_iff all_set_conv_all_nth)
  show ?thesis
    unfolding enc frame_decode_all_with_limits_def
    using frame_decode_loop_Inr [of h limits input 0 fs] frame_decode_loop_run [of fs h limits 0] assms
    by (auto simp: r_bind_Inr_iff)
qed

theorem frame_stream_decoding_witness:
  "frame_decode_all_with_limits sample_hashes default_frame_limits
     (concat (map (frame_bytes sample_hashes) [sample_frame, sample_frame])) =
   Inr [sample_frame, sample_frame]"
proof -
  have "length (concat (map (frame_bytes sample_hashes) [sample_frame, sample_frame])) < 2 ^ 64"
    by simp
  from frame_stream_decoding [OF this, of sample_hashes default_frame_limits "[sample_frame, sample_frame]"]
  show ?thesis
    by (simp add: sample_frame_encode)
qed

text \<open>
  C15. Corruption is reported and never skipped: when valid frames are followed by bytes the
  frame decoder refuses, decoding the stream fails with that very error at the offset where
  the refused bytes start.
\<close>

theorem frame_stream_error_offset:
  assumes "\<forall>f \<in> set fs. frame_wf h f \<and> frame_fits limits f" and "bad \<noteq> []"
    and "frame_decode_one_with_limits h limits bad = Inl e"
    and "length (concat (map (frame_bytes h) fs) @ bad) \<le> fl_max_stream_bytes limits"
    and "length (concat (map (frame_bytes h) fs) @ bad) < 2 ^ 64"
  shows "frame_decode_all_with_limits h limits (concat (map (frame_bytes h) fs) @ bad) =
    Inl (AtOffset (of_nat (length (concat (map (frame_bytes h) fs)))) e)"
proof -
  have "frame_decode_loop h limits (concat (map (frame_bytes h) fs) @ bad) offset =
      Inl (AtOffset (offset + of_nat (length (concat (map (frame_bytes h) fs)))) e)"
    if "unat offset + length (concat (map (frame_bytes h) fs) @ bad) < 2 ^ 64" for offset
    using assms(1) that
  proof (induction fs arbitrary: offset)
    case Nil
    with assms(2,3) show ?case by (simp add: frame_decode_loop.simps [of h limits bad offset])
  next
    case (Cons f fs)
    let ?rest = "concat (map (frame_bytes h) fs) @ bad"
    have n: "frame_total f < 2 ^ 64" "unat offset + frame_total f < 2 ^ 64"
      using Cons.prems(2) by auto
    then have step: "u64_of_usize (frame_total f) = Some (of_nat (frame_total f))"
      "u64_checked_add offset (of_nat (frame_total f)) = Some (offset + of_nat (frame_total f))"
      "unat (offset + of_nat (frame_total f)) = unat offset + frame_total f"
      by (simp_all add: u64_of_usize_def u64_checked_add_def unat_of_nat unat_word_ariths)
    have "frame_decode_loop h limits ?rest (offset + of_nat (frame_total f)) =
        Inl (AtOffset ((offset + of_nat (frame_total f)) +
          of_nat (length (concat (map (frame_bytes h) fs)))) e)"
      using Cons.prems step(3) by (intro Cons.IH) auto
    moreover have "frame_decode_one_with_limits h limits (frame_bytes h f @ ?rest) = Inr (f, frame_total f)"
      using Cons.prems(1) by (intro frame_decode_run) auto
    ultimately show ?case
      using step frame_codec.layout_nonempty [of h f]
      by (subst frame_decode_loop.simps) (simp add: add.assoc)
  qed
  from this [of 0] assms(4,5) show ?thesis
    by (simp add: frame_decode_all_with_limits_def codec_simps)
qed

theorem frame_stream_error_offset_witness:
  "frame_decode_all_with_limits sample_hashes default_frame_limits
     (frame_bytes sample_hashes sample_frame @ str_bytes ''junk'') =
   Inl (AtOffset 113 Truncated)"
proof -
  have "frame_decode_one_with_limits sample_hashes default_frame_limits (str_bytes ''junk'') = Inl Truncated"
    by (simp add: frame_decode_one_with_limits_def frame_decode_header_def frame_fixed_prefix_def
        frame_fixed_suffix_def)
  from frame_stream_error_offset [OF _ _ this, of "[sample_frame]"] show ?thesis
    by simp
qed

end
