(* ===== verification/Store.thy ===== *)
theory Store
  imports Frame "HOL-Library.Sublist"
begin

text \<open>
  The store interface of \<open>src/ursula.rs\<close>: the outcomes and errors of the trait \<open>UrsulaStore\<close>
  and its operations as a record of functions on an explicit store state. What the gateway
  relies on is stated as two locales over the ghost \<open>content\<close> of the streams:
  \<open>append_only_store\<close> holds even while other writers append to the same streams, and
  \<open>exclusive_store\<close> adds what a store promises to a single writer, with the deduplication
  of producer tuples and fresh reads. Fresh reads are an assumption: \<open>docs/DESIGN.md\<close> allows a
  follower to answer a read from what it has while a quorum is unavailable, and a property
  that rests on \<open>exclusive_store\<close> says so.
\<close>

section \<open>Outcomes and errors\<close>

datatype append_outcome =
    Committed (outcome_offset: u64)
  | Duplicate (outcome_offset: u64)

datatype rejection_kind =
    Invalid
  | PermissionDenied
  | NotFound
  | Conflict
  | PayloadTooLarge
  | RateLimited
  | Unsupported
  | Other

datatype store_error =
    Ambiguous string
  | Rejected rejection_kind string
  | Integrity string

text \<open>The derived \<open>Debug\<close> form of a kind and the \<open>Display\<close> form of an error.\<close>

fun rejection_kind_text :: "rejection_kind \<Rightarrow> string" where
  "rejection_kind_text rejection_kind.Invalid = ''Invalid''"
| "rejection_kind_text PermissionDenied = ''PermissionDenied''"
| "rejection_kind_text NotFound = ''NotFound''"
| "rejection_kind_text Conflict = ''Conflict''"
| "rejection_kind_text PayloadTooLarge = ''PayloadTooLarge''"
| "rejection_kind_text RateLimited = ''RateLimited''"
| "rejection_kind_text Unsupported = ''Unsupported''"
| "rejection_kind_text Other = ''Other''"

fun store_error_text :: "store_error \<Rightarrow> string" where
  "store_error_text (Ambiguous m) = ''ambiguous Ursula result: '' @ m"
| "store_error_text (Rejected kind m) =
     ''Ursula rejected the operation ('' @ rejection_kind_text kind @ ''): '' @ m"
| "store_error_text (Integrity m) = ''stored data failed integrity verification: '' @ m"

record read_all_observation =
  ro_bytes :: bytes
  ro_request_count :: u64

section \<open>The operations\<close>

record 's ursula_store =
  us_ensure_stream :: "string \<Rightarrow> 's \<Rightarrow> (store_error + unit) \<times> 's"
  us_read_all :: "string \<Rightarrow> 's \<Rightarrow> (store_error + bytes) \<times> 's"
  us_read_all_observed :: "string \<Rightarrow> 's \<Rightarrow> (store_error + read_all_observation) \<times> 's"
  us_read_range :: "string \<Rightarrow> u64 \<Rightarrow> nat \<Rightarrow> 's \<Rightarrow> (store_error + bytes) \<times> 's"
  us_append :: "string \<Rightarrow> producer_tuple \<Rightarrow> bytes \<Rightarrow> 's \<Rightarrow> (store_error + append_outcome) \<times> 's"

text \<open>The trait's default body of \<open>read_all_observed\<close>, for stores that do not override it.\<close>

definition default_read_all_observed ::
  "(string \<Rightarrow> 's \<Rightarrow> (store_error + bytes) \<times> 's) \<Rightarrow>
   string \<Rightarrow> 's \<Rightarrow> (store_error + read_all_observation) \<times> 's" where
  "default_read_all_observed read_all stream s =
     s_bind (read_all stream s) (\<lambda>bs s.
     (Inr \<lparr>ro_bytes = bs, ro_request_count = 1\<rparr>, s))"

section \<open>The contract with other writers\<close>

text \<open>The bytes \<open>body\<close> occupy the stream up to the offset \<open>k\<close>.\<close>

definition stored_at :: "bytes \<Rightarrow> u64 \<Rightarrow> bytes \<Rightarrow> bool" where
  "stored_at c k body \<longleftrightarrow> length body \<le> unat k \<and> unat k \<le> length c \<and>
     take (length body) (drop (unat k - length body) c) = body"

lemma stored_at_prefix: "stored_at c k body \<Longrightarrow> prefix c c' \<Longrightarrow> stored_at c' k body"
  by (auto simp: stored_at_def prefix_def)

lemma stored_at_end: "unat k = length (c @ body) \<Longrightarrow> stored_at (c @ body) k body"
  by (simp add: stored_at_def)

lemma stored_at_extends:
  assumes "stored_at c k body" and "prefix e c" and "unat k = length e + length body"
  shows "prefix (e @ body) c"
proof -
  from assms(2) obtain r where c: "c = e @ r" by (auto simp: prefix_def)
  have "take (length body) r = body"
    using assms(1,3) by (simp add: stored_at_def c)
  then have "r = body @ drop (length body) r"
    using append_take_drop_id [of "length body" r] by simp
  then show ?thesis by (auto simp: c prefix_def)
qed

locale append_only_store =
  fixes store :: "'s ursula_store"
    and content :: "'s \<Rightarrow> string \<Rightarrow> bytes"
    and valid :: "'s \<Rightarrow> bool"
  assumes ensure_law: "valid s \<Longrightarrow> us_ensure_stream store n s = (re, s') \<Longrightarrow>
      valid s' \<and> prefix (content s m) (content s' m)"
    and read_all_law: "valid s \<Longrightarrow> us_read_all store n s = (ra, s') \<Longrightarrow>
      valid s' \<and> prefix (content s m) (content s' m) \<and>
      (\<forall>bs. ra = Inr bs \<longrightarrow> prefix bs (content s' n))"
    and read_all_observed_law: "valid s \<Longrightarrow> us_read_all_observed store n s = (ro, s') \<Longrightarrow>
      valid s' \<and> prefix (content s m) (content s' m) \<and>
      (\<forall>ob. ro = Inr ob \<longrightarrow> prefix (ro_bytes ob) (content s' n))"
    and read_range_law: "valid s \<Longrightarrow> us_read_range store n offset len s = (rr, s') \<Longrightarrow>
      valid s' \<and> prefix (content s m) (content s' m) \<and>
      (\<forall>bs. rr = Inr bs \<and> 0 < len \<longrightarrow> unat offset + len \<le> length (content s' n) \<and>
        bs = take len (drop (unat offset) (content s' n)))"
    and append_law: "valid s \<Longrightarrow> body \<noteq> [] \<Longrightarrow> us_append store n p body s = (rp, s') \<Longrightarrow>
      valid s' \<and> prefix (content s m) (content s' m) \<and>
      (\<forall>k. rp = Inr (Committed k) \<longrightarrow> stored_at (content s' n) k body)"

text \<open>
  The relation every operation of the contract keeps between the state before and after:
  the invariant holds again and no stream lost or changed a byte.
\<close>

definition grows :: "('s \<Rightarrow> string \<Rightarrow> bytes) \<Rightarrow> ('s \<Rightarrow> bool) \<Rightarrow> 's \<Rightarrow> 's \<Rightarrow> bool" where
  "grows content valid s s' \<longleftrightarrow> valid s' \<and> (\<forall>m. prefix (content s m) (content s' m))"

lemma grows_bind:
  assumes "grows content valid s0 (snd m)"
    and "\<And>x t. m = (Inr x, t) \<Longrightarrow> grows content valid s0 t \<Longrightarrow> grows content valid s0 (snd (f x t))"
  shows "grows content valid s0 (snd (s_bind m f))"
  using assms by (rule s_bind_keeps)

lemma grows_refl: "valid s \<Longrightarrow> grows content valid s s"
  by (simp add: grows_def)

lemma grows_trans [trans]:
  "grows content valid s t \<Longrightarrow> grows content valid t u \<Longrightarrow> grows content valid s u"
  unfolding grows_def by (meson prefix_order.order_trans)

lemma grows_inv: "grows content valid s s' \<Longrightarrow> valid s'"
  by (simp add: grows_def)

lemma grows_prefix: "grows content valid s s' \<Longrightarrow> prefix (content s m) (content s' m)"
  by (simp add: grows_def)

context append_only_store
begin

lemma grows_start: "valid s \<Longrightarrow> grows content valid s s"
  by (rule grows_refl)

lemma ensure_grows: "valid s \<Longrightarrow> us_ensure_stream store n s = (r, s') \<Longrightarrow> grows content valid s s'"
  using ensure_law by (auto simp: grows_def)

lemma read_all_grows: "valid s \<Longrightarrow> us_read_all store n s = (r, s') \<Longrightarrow> grows content valid s s'"
  using read_all_law by (auto simp: grows_def)

lemma read_all_prefix:
  "valid s \<Longrightarrow> us_read_all store n s = (Inr bs, s') \<Longrightarrow> prefix bs (content s' n)"
  using read_all_law by blast

lemma read_all_observed_grows:
  "valid s \<Longrightarrow> us_read_all_observed store n s = (r', s') \<Longrightarrow> grows content valid s s'"
  using read_all_observed_law by (auto simp: grows_def)

lemma read_range_grows:
  "valid s \<Longrightarrow> us_read_range store n offset len s = (r, s') \<Longrightarrow> grows content valid s s'"
  using read_range_law by (auto simp: grows_def)

lemma read_range_slice:
  assumes "valid s" and "us_read_range store n offset len s = (Inr bs, s')" and "0 < len"
  shows "unat offset + len \<le> length (content s' n) \<and> bs = take len (drop (unat offset) (content s' n))"
  using read_range_law [OF assms(1,2)] assms(3) by blast

lemma append_grows:
  "valid s \<Longrightarrow> body \<noteq> [] \<Longrightarrow> us_append store n p body s = (r'', s') \<Longrightarrow> grows content valid s s'"
  using append_law by (auto simp: grows_def)

lemma append_committed:
  "valid s \<Longrightarrow> body \<noteq> [] \<Longrightarrow> us_append store n p body s = (Inr (Committed k), s') \<Longrightarrow>
     stored_at (content s' n) k body"
  using append_law by blast

text \<open>
  The same facts as introduction rules for a run that began in \<open>s0\<close>; with \<open>grows_bind\<close> they
  take a whole handler apart.
\<close>

lemma ensure_step:
  "grows content valid s0 s \<Longrightarrow> grows content valid s0 (snd (us_ensure_stream store n s))"
  by (metis ensure_grows grows_inv grows_trans prod.collapse)

lemma read_all_step:
  "grows content valid s0 s \<Longrightarrow> grows content valid s0 (snd (us_read_all store n s))"
  by (metis read_all_grows grows_inv grows_trans prod.collapse)

lemma read_all_observed_step:
  "grows content valid s0 s \<Longrightarrow> grows content valid s0 (snd (us_read_all_observed store n s))"
  by (metis read_all_observed_grows grows_inv grows_trans prod.collapse)

lemma read_range_step:
  "grows content valid s0 s \<Longrightarrow> grows content valid s0 (snd (us_read_range store n offset len s))"
  by (metis read_range_grows grows_inv grows_trans prod.collapse)

lemmas store_steps = ensure_step read_all_step read_all_observed_step read_range_step grows_bind

text \<open>
  Reading the range below a duplicate's offset and finding the expected bytes there proves
  that they are stored at that offset; both users of the interface verify duplicates so.
\<close>

lemma verified_range_stored:
  assumes "valid s" and "us_read_range store n start (length body) s = (Inr body, s')" and "body \<noteq> []"
    and "u64_of_usize (length body) = Some len" and "u64_checked_sub k len = Some start"
  shows "stored_at (content s' n) k body"
proof -
  have "unat start = unat k - length body" and "length body \<le> unat k"
    using u64_checked_sub_unat [OF assms(5)] u64_of_usize_unat [OF assms(4)] by auto
  moreover have "unat start + length body \<le> length (content s' n) \<and>
      body = take (length body) (drop (unat start) (content s' n))"
    by (rule read_range_slice [OF assms(1,2)]) (use assms(3) in simp)
  ultimately show ?thesis
    by (simp add: stored_at_def)
qed

end

section \<open>The contract with a single writer\<close>

text \<open>
  \<open>seen s n id\<close> is the last sequence the store has accepted from producer \<open>id\<close> on stream
  \<open>n\<close>. Once a tuple is covered by it, the store never appends for it again.
\<close>

definition covered :: "u64 option \<Rightarrow> producer_tuple \<Rightarrow> bool" where
  "covered latest p \<longleftrightarrow> (case latest of None \<Rightarrow> False | Some q \<Rightarrow> pt_sequence p \<le> q)"

text \<open>The run from \<open>s\<close> to \<open>t\<close> changed no stream outside \<open>N\<close>.\<close>

definition only_touches ::
  "('s \<Rightarrow> string \<Rightarrow> bytes) \<Rightarrow> ('s \<Rightarrow> bool) \<Rightarrow> string set \<Rightarrow> 's \<Rightarrow> 's \<Rightarrow> bool" where
  "only_touches content valid N s t \<longleftrightarrow> valid t \<and> (\<forall>l. l \<notin> N \<longrightarrow> content t l = content s l)"

lemma only_touches_bind:
  assumes "only_touches content valid N s0 (snd m)"
    and "\<And>x t. m = (Inr x, t) \<Longrightarrow> only_touches content valid N s0 t \<Longrightarrow>
      only_touches content valid N s0 (snd (f x t))"
  shows "only_touches content valid N s0 (snd (s_bind m f))"
  using assms by (rule s_bind_keeps)

locale exclusive_store = append_only_store store content valid
  for store :: "'s ursula_store" and content :: "'s \<Rightarrow> string \<Rightarrow> bytes" and valid :: "'s \<Rightarrow> bool" +
  fixes seen :: "'s \<Rightarrow> string \<Rightarrow> string \<Rightarrow> u64 option"
  assumes ensure_same: "valid s \<Longrightarrow> us_ensure_stream store n s = (re, s') \<Longrightarrow>
      content s' = content s \<and> seen s' = seen s"
    and read_all_fresh: "valid s \<Longrightarrow> us_read_all store n s = (ra, s') \<Longrightarrow>
      content s' = content s \<and> seen s' = seen s \<and> (\<forall>bs. ra = Inr bs \<longrightarrow> bs = content s n)"
    and read_range_same: "valid s \<Longrightarrow> us_read_range store n offset len s = (rr, s') \<Longrightarrow>
      content s' = content s \<and> seen s' = seen s"
    and append_exclusive: "valid s \<Longrightarrow> body \<noteq> [] \<Longrightarrow> us_append store n p body s = (rp, s') \<Longrightarrow>
      (\<forall>m. m \<noteq> n \<longrightarrow> content s' m = content s m \<and> seen s' m = seen s m) \<and>
      (content s' n = content s n \<and> seen s' n = seen s n \<and> (\<forall>k. rp \<noteq> Inr (Committed k)) \<or>
       content s' n = content s n @ body \<and> \<not> covered (seen s n (pt_id p)) p \<and>
         (seen s' n = (seen s n)(pt_id p \<mapsto> pt_sequence p) \<and>
            (rp = Inr (Committed (of_nat (length (content s' n)))) \<or> (\<exists>e. rp = Inl (Ambiguous e))) \<or>
          (\<exists>e. rp = Inl (Integrity e))))"
begin

lemma touches_start: "valid s \<Longrightarrow> only_touches content valid N s s"
  by (simp add: only_touches_def)

lemma touches_ensure:
  assumes "only_touches content valid N s0 s"
  shows "only_touches content valid N s0 (snd (us_ensure_stream store n s))"
proof (cases "us_ensure_stream store n s")
  case (Pair r t)
  with assms ensure_law [OF _ Pair] ensure_same [OF _ Pair] show ?thesis
    by (simp add: only_touches_def)
qed

lemma touches_read_all:
  assumes "only_touches content valid N s0 s"
  shows "only_touches content valid N s0 (snd (us_read_all store n s))"
proof (cases "us_read_all store n s")
  case (Pair r t)
  with assms read_all_law [OF _ Pair] read_all_fresh [OF _ Pair] show ?thesis
    by (simp add: only_touches_def)
qed

lemmas store_touches = touches_ensure touches_read_all only_touches_bind

text \<open>A covered tuple is never appended again.\<close>

lemma append_covered_same:
  assumes "valid s" and "body \<noteq> []" and "us_append store n p body s = (r, s')"
    and "covered (seen s n (pt_id p)) p"
  shows "content s' = content s \<and> seen s' = seen s \<and> (\<forall>k. r \<noteq> Inr (Committed k))"
  using append_exclusive [OF assms(1-3)] assms(4) by (metis ext)

end

end
