(* ===== verification/Messages.thy ===== *)
theory Messages
  imports Store
begin

text \<open>
  The messages of the Loro protocol the gateway receives and sends, the outbound channels of
  its connections, and the delivery of an update to a peer (\<open>send_update\<close> in \<open>src/actor.rs\<close>),
  whole or in fragments. The enumerations of the \<open>loro_protocol\<close> crate have the variants the
  sources name; a CRDT type other than Loro is represented by its name.
\<close>

section \<open>Protocol messages\<close>

datatype crdt_type = CrdtLoro | CrdtOther string

datatype update_status =
    Ok
  | Unknown
  | PermissionDenied
  | InvalidUpdate
  | PayloadTooLarge
  | RateLimited
  | FragmentTimeout
  | AppError

datatype join_error_code = VersionUnknown | JoinAppError

datatype room_error_code = RoomUnknown

datatype permission = PermissionWrite

datatype protocol_message =
    JoinRequest crdt_type string bytes
  | JoinResponseOk crdt_type string permission bytes "bytes option"
  | JoinError crdt_type string join_error_code string "bytes option" "string option"
  | DocUpdate crdt_type string "bytes list" u64
  | DocUpdateFragmentHeader crdt_type string u64 u64 u64
  | DocUpdateFragment crdt_type string u64 u64 bytes
  | RoomError crdt_type string room_error_code string
  | Ack crdt_type string u64 update_status
  | Leave crdt_type string

section \<open>Outbound channels\<close>

datatype outbound =
    Protocol protocol_message
  | Text string

text \<open>
  A \<open>PeerSender\<close> is the number of a connection's channel. The world of the room actors is
  the state of the store, the process-wide counter of server batch identifiers, and
  everything handed to the channels so far, in order.
\<close>

type_synonym peer = nat

record 's world =
  wd_store :: 's
  wd_next_batch :: u64
  wd_sent :: "(peer \<times> outbound) list"

definition on_store :: "('s \<Rightarrow> 'a \<times> 's) \<Rightarrow> 's world \<Rightarrow> 'a \<times> 's world" where
  "on_store f w = (let (x, s) = f (wd_store w) in (x, w\<lparr>wd_store := s\<rparr>))"

definition send_outbound :: "peer \<Rightarrow> outbound \<Rightarrow> 's world \<Rightarrow> 's world" where
  "send_outbound peer message w = w\<lparr>wd_sent := wd_sent w @ [(peer, message)]\<rparr>"

definition send_protocol :: "peer \<Rightarrow> protocol_message \<Rightarrow> 's world \<Rightarrow> 's world" where
  "send_protocol peer message = send_outbound peer (Protocol message)"

definition send_ack :: "peer \<Rightarrow> string \<Rightarrow> u64 \<Rightarrow> update_status \<Rightarrow> 's world \<Rightarrow> 's world" where
  "send_ack peer room_id batch_id status =
     send_protocol peer (Ack CrdtLoro room_id batch_id status)"

definition send_room_error :: "peer \<Rightarrow> string \<Rightarrow> string \<Rightarrow> 's world \<Rightarrow> 's world" where
  "send_room_error peer room_id message =
     send_protocol peer (RoomError CrdtLoro room_id RoomUnknown message)"

text \<open>\<open>SERVER_BATCH_ID.fetch_add(1)\<close>, which wraps.\<close>

definition server_batch_id :: "'s world \<Rightarrow> u64 \<times> 's world" where
  "server_batch_id w = (wd_next_batch w, w\<lparr>wd_next_batch := wd_next_batch w + 1\<rparr>)"

definition fragment_size :: nat where
  "fragment_size = 240 * 1024"

text \<open>\<open>slice::chunks\<close>.\<close>

function chunks :: "nat \<Rightarrow> 'a list \<Rightarrow> 'a list list" where
  "chunks n xs = (if xs = [] \<or> n = 0 then [] else take n xs # chunks n (drop n xs))"
  by auto

termination
  by (relation "measure (\<lambda>(n, xs). length xs)") auto

declare chunks.simps [simp del]

text \<open>The messages of an update that is larger than a fragment.\<close>

definition update_fragments :: "string \<Rightarrow> u64 \<Rightarrow> bytes \<Rightarrow> protocol_message list" where
  "update_fragments room_id batch_id update =
     DocUpdateFragmentHeader CrdtLoro room_id batch_id
       (u64_saturating ((length update + fragment_size - 1) div fragment_size))
       (u64_saturating (length update)) #
     map (\<lambda>(index, fragment).
         DocUpdateFragment CrdtLoro room_id batch_id (u64_saturating index) fragment)
       (enumerate 0 (chunks fragment_size update))"

definition send_update :: "peer \<Rightarrow> string \<Rightarrow> bytes \<Rightarrow> 's world \<Rightarrow> 's world" where
  "send_update peer room_id update w =
     (let (batch_id, w) = server_batch_id w in
      if length update \<le> fragment_size
      then send_protocol peer (DocUpdate CrdtLoro room_id [update] batch_id) w
      else fold (send_protocol peer) (update_fragments room_id batch_id update) w)"

section \<open>What is sent\<close>

lemma on_store_eq:
  "on_store f w = (x, w') \<longleftrightarrow> (\<exists>s. f (wd_store w) = (x, s) \<and> w' = w\<lparr>wd_store := s\<rparr>)"
  by (auto simp: on_store_def split: prod.splits)

lemma send_simps [simp]:
  "wd_store (send_outbound p m w) = wd_store w"
  "wd_next_batch (send_outbound p m w) = wd_next_batch w"
  "wd_sent (send_outbound p m w) = wd_sent w @ [(p, m)]"
  "wd_store (send_protocol p pm w) = wd_store w"
  "wd_next_batch (send_protocol p pm w) = wd_next_batch w"
  "wd_sent (send_protocol p pm w) = wd_sent w @ [(p, Protocol pm)]"
  "wd_store (send_ack p r b st w) = wd_store w"
  "wd_next_batch (send_ack p r b st w) = wd_next_batch w"
  "wd_sent (send_ack p r b st w) = wd_sent w @ [(p, Protocol (Ack CrdtLoro r b st))]"
  "wd_store (send_room_error p r e w) = wd_store w"
  "wd_next_batch (send_room_error p r e w) = wd_next_batch w"
  "wd_sent (send_room_error p r e w) = wd_sent w @ [(p, Protocol (RoomError CrdtLoro r RoomUnknown e))]"
  by (simp_all add: send_outbound_def send_protocol_def send_ack_def send_room_error_def)

lemma fold_send [simp]:
  "wd_store (fold (send_protocol p) ms w) = wd_store w"
  "wd_next_batch (fold (send_protocol p) ms w) = wd_next_batch w"
  "wd_sent (fold (send_protocol p) ms w) = wd_sent w @ map (\<lambda>m. (p, Protocol m)) ms"
  by (induction ms arbitrary: w) auto

definition update_messages :: "string \<Rightarrow> bytes \<Rightarrow> u64 \<Rightarrow> protocol_message list" where
  "update_messages room_id update batch_id =
     (if length update \<le> fragment_size then [DocUpdate CrdtLoro room_id [update] batch_id]
      else update_fragments room_id batch_id update)"

lemma send_update_simps [simp]:
  "wd_store (send_update p r u w) = wd_store w"
  "wd_next_batch (send_update p r u w) = wd_next_batch w + 1"
  "wd_sent (send_update p r u w) =
     wd_sent w @ map (\<lambda>m. (p, Protocol m)) (update_messages r u (wd_next_batch w))"
  by (simp_all add: send_update_def server_batch_id_def update_messages_def)

lemma chunks_Nil [simp]: "chunks n [] = []"
  by (simp add: chunks.simps)

lemma chunks_more:
  "0 < n \<Longrightarrow> xs \<noteq> [] \<Longrightarrow> chunks n xs = take n xs # chunks n (drop n xs)"
  by (simp add: chunks.simps [of n xs])

lemma chunks_induct [case_names positive Nil more]:
  assumes "0 < n" and "P []" and "\<And>xs. xs \<noteq> [] \<Longrightarrow> P (drop n xs) \<Longrightarrow> P xs"
  shows "P xs"
proof (induction xs rule: length_induct)
  case (1 xs)
  with assms show ?case by (cases "xs = []") auto
qed

lemma concat_chunks [simp]:
  assumes n: "0 < n"
  shows "concat (chunks n xs) = xs"
  by (induction xs rule: chunks_induct [OF n]) (auto simp: chunks_more n)

lemma length_chunk:
  assumes n: "0 < n"
  shows "c \<in> set (chunks n xs) \<Longrightarrow> 0 < length c \<and> length c \<le> n"
  by (induction xs rule: chunks_induct [OF n]) (use n in \<open>auto simp: chunks_more\<close>)

lemma length_chunks:
  assumes n: "0 < n"
  shows "length (chunks n xs) = (length xs + n - 1) div n"
proof (induction xs rule: chunks_induct [OF n])
  case (2 xs)
  show ?case
  proof (cases "n \<le> length xs")
    case True
    have "length xs + n - 1 = (length xs - n + n - 1) + n"
      using True n by simp
    then have "(length xs + n - 1) div n = Suc ((length xs - n + n - 1) div n)"
      using n by (metis div_add_self2 add_Suc_right add.right_neutral One_nat_def less_not_refl)
    then show ?thesis
      using 2 n by (simp add: chunks_more)
  next
    case False
    have "length xs + n - 1 = (length xs - 1) + n" and "length xs - 1 < n"
      using False 2 n by (auto simp: Suc_le_eq)
    then have "(length xs + n - 1) div n = 1"
      using n by (metis div_add_self2 div_less add_0 less_not_refl)
    then show ?thesis using False 2 n by (simp add: chunks_more)
  qed
qed (simp add: n)

text \<open>An acknowledgement is no message of an update.\<close>

lemma ack_not_update [simp]: "Ack c r b st \<notin> set (update_messages room u n)"
  by (auto simp: update_messages_def update_fragments_def)

end
