(* ===== verification/Manifest.thy ===== *)
theory Manifest
  imports Names Codec
begin

text \<open>
  \<open>src/manifest.rs\<close>: the fixed-size QLGM records, their encoder and decoder, the decoder of a
  manifest stream and the validation of the record chain. The layout is specified once by
  \<open>manifest_layout\<close> and \<open>manifest_admitted\<close>; the chain by \<open>manifest_chain\<close>.
\<close>

section \<open>Data\<close>

record manifest_limits =
  ml_max_record_bytes :: nat
  ml_max_records :: nat
  ml_max_stream_bytes :: nat

definition default_manifest_limits :: manifest_limits where
  "default_manifest_limits =
     \<lparr>ml_max_record_bytes = 4096, ml_max_records = 65536, ml_max_stream_bytes = 16 * 1024 * 1024\<rparr>"

record manifest_record =
  mf_room_hash :: digest
  mf_revision :: u64
  mf_previous_record_digest :: digest
  mf_checkpoint_generation :: u64
  mf_checkpoint_stream_end_offset :: u64
  mf_checkpoint_record_digest :: digest
  mf_active_delta_generation :: u64
  mf_digest :: digest

datatype manifest_error =
    Truncated
  | EmptyStream
  | WrongRoom
  | UnsupportedVersion u16
  | Invalid string
  | ChecksumMismatch
  | DigestMismatch
  | LengthOverflow
  | LimitExceeded string nat nat

definition manifest_magic :: bytes where
  "manifest_magic = str_bytes ''QLGM''"

definition manifest_version :: u16 where
  "manifest_version = 1"

definition genesis_digest :: digest where
  "genesis_digest = 0"

definition manifest_fixed_record_bytes :: nat where
  "manifest_fixed_record_bytes = 4 + 2 + 2 + 8 + 32 + 8 + 32 + 8 + 8 + 32 + 8 + 32 + 4 + 8"

definition manifest_enforce_limit :: "string \<Rightarrow> nat \<Rightarrow> nat \<Rightarrow> manifest_error + unit" where
  "manifest_enforce_limit resource actual limit =
     (if actual > limit then Inl (LimitExceeded resource actual limit) else Inr ())"

section \<open>Digests and field validation\<close>

definition room_hash :: "hashes \<Rightarrow> string \<Rightarrow> digest" where
  "room_hash h room_id = sha256 h (str_bytes room_id)"

definition checkpoint_record_digest :: "hashes \<Rightarrow> bytes \<Rightarrow> digest" where
  "checkpoint_record_digest h bs =
     sha256 h (str_bytes ''quorum-loro-checkpoint-record-v1'' @ [0] @
       be64 (u64_saturating (length bs)) @ bs)"

text \<open>The bytes \<open>manifest_digest\<close> feeds to SHA-256, and the digest.\<close>

definition manifest_digest_input ::
  "digest \<Rightarrow> u64 \<Rightarrow> digest \<Rightarrow> u64 \<Rightarrow> u64 \<Rightarrow> digest \<Rightarrow> u64 \<Rightarrow> bytes" where
  "manifest_digest_input room revision previous checkpoint_generation end_offset
       checkpoint_digest active =
     str_bytes ''quorum-loro-manifest-v1'' @ [0] @ be256 room @ be64 revision @ be256 previous @
     be64 checkpoint_generation @ be64 end_offset @ be256 checkpoint_digest @ be64 active"

definition manifest_digest ::
  "hashes \<Rightarrow> digest \<Rightarrow> u64 \<Rightarrow> digest \<Rightarrow> u64 \<Rightarrow> u64 \<Rightarrow> digest \<Rightarrow> u64 \<Rightarrow> digest" where
  "manifest_digest h room revision previous checkpoint_generation end_offset checkpoint_digest active =
     sha256 h (manifest_digest_input room revision previous checkpoint_generation end_offset
       checkpoint_digest active)"

definition validate_previous_digest :: "u64 \<Rightarrow> digest \<Rightarrow> manifest_error + unit" where
  "validate_previous_digest revision previous =
     (if revision = 0 \<and> previous \<noteq> genesis_digest
      then Inl (Invalid ''first manifest record has a predecessor'')
      else if revision > 0 \<and> previous = genesis_digest
      then Inl (Invalid ''manifest predecessor digest is absent'')
      else Inr ())"

definition validate_generation_pair :: "u64 \<Rightarrow> u64 \<Rightarrow> manifest_error + unit" where
  "validate_generation_pair checkpoint_generation active =
     r_bind (ok_or (Invalid ''checkpoint generation cannot advance'')
               (u64_checked_add checkpoint_generation 1)) (\<lambda>expected_active.
     if active \<noteq> expected_active
     then Inl (Invalid ''active delta is not checkpoint generation plus one'') else Inr ())"

definition validate_record_fields :: "manifest_record \<Rightarrow> manifest_error + unit" where
  "validate_record_fields r =
     r_bind (validate_previous_digest (mf_revision r) (mf_previous_record_digest r)) (\<lambda>_.
     r_bind (validate_generation_pair (mf_checkpoint_generation r) (mf_active_delta_generation r)) (\<lambda>_.
     if mf_checkpoint_stream_end_offset r = 0
     then Inl (Invalid ''checkpoint stream end offset is zero'') else Inr ()))"

definition manifest_record_new ::
  "hashes \<Rightarrow> string \<Rightarrow> u64 \<Rightarrow> digest \<Rightarrow> u64 \<Rightarrow> bytes \<Rightarrow> u64 \<Rightarrow> manifest_error + manifest_record" where
  "manifest_record_new h room_id revision previous checkpoint_generation checkpoint_bytes active =
     (if checkpoint_bytes = [] then Inl (Invalid ''checkpoint record is empty'') else
      r_bind (validate_generation_pair checkpoint_generation active) (\<lambda>_.
      r_bind (validate_previous_digest revision previous) (\<lambda>_.
      r_bind (ok_or LengthOverflow (u64_of_usize (length checkpoint_bytes))) (\<lambda>end_offset.
      let checkpoint_digest = checkpoint_record_digest h checkpoint_bytes;
          room = room_hash h room_id
      in Inr \<lparr>mf_room_hash = room, mf_revision = revision, mf_previous_record_digest = previous,
           mf_checkpoint_generation = checkpoint_generation,
           mf_checkpoint_stream_end_offset = end_offset,
           mf_checkpoint_record_digest = checkpoint_digest, mf_active_delta_generation = active,
           mf_digest = manifest_digest h room revision previous checkpoint_generation end_offset
             checkpoint_digest active\<rparr>))))"

definition manifest_belongs_to_room :: "hashes \<Rightarrow> manifest_record \<Rightarrow> string \<Rightarrow> bool" where
  "manifest_belongs_to_room h r room_id \<longleftrightarrow> mf_room_hash r = room_hash h room_id"

definition verifies_checkpoint_bytes :: "hashes \<Rightarrow> manifest_record \<Rightarrow> bytes \<Rightarrow> bool" where
  "verifies_checkpoint_bytes h r bs \<longleftrightarrow>
     mf_checkpoint_stream_end_offset r = u64_saturating (length bs) \<and>
     mf_checkpoint_record_digest r = checkpoint_record_digest h bs"

definition record_digest :: "hashes \<Rightarrow> manifest_record \<Rightarrow> digest" where
  "record_digest h r = manifest_digest h (mf_room_hash r) (mf_revision r)
     (mf_previous_record_digest r) (mf_checkpoint_generation r)
     (mf_checkpoint_stream_end_offset r) (mf_checkpoint_record_digest r)
     (mf_active_delta_generation r)"

section \<open>The encoder and the decoder\<close>

definition manifest_encode_with_limits ::
  "hashes \<Rightarrow> manifest_limits \<Rightarrow> manifest_record \<Rightarrow> manifest_error + bytes" where
  "manifest_encode_with_limits h limits r =
     r_bind (manifest_enforce_limit ''manifest record bytes'' manifest_fixed_record_bytes
               (ml_max_record_bytes limits)) (\<lambda>_.
     r_bind (validate_record_fields r) (\<lambda>_.
     r_bind (ok_or LengthOverflow (u64_of_usize manifest_fixed_record_bytes)) (\<lambda>total_len.
     if mf_digest r \<noteq> record_digest h r then Inl DigestMismatch else
     let output = manifest_magic @ be16 manifest_version @ be16 0 @ be64 total_len @
           be256 (mf_room_hash r) @ be64 (mf_revision r) @ be256 (mf_previous_record_digest r) @
           be64 (mf_checkpoint_generation r) @ be64 (mf_checkpoint_stream_end_offset r) @
           be256 (mf_checkpoint_record_digest r) @ be64 (mf_active_delta_generation r) @
           be256 (mf_digest r)
     in Inr (output @ be32 (crc32 h output) @ be64 total_len))))"

definition manifest_encode :: "hashes \<Rightarrow> manifest_record \<Rightarrow> manifest_error + bytes" where
  "manifest_encode h r = manifest_encode_with_limits h default_manifest_limits r"

definition manifest_decode_one ::
  "hashes \<Rightarrow> manifest_limits \<Rightarrow> bytes \<Rightarrow> manifest_error + (manifest_record \<times> nat)" where
  "manifest_decode_one h limits input =
     r_bind (manifest_enforce_limit ''manifest record bytes'' manifest_fixed_record_bytes
               (ml_max_record_bytes limits)) (\<lambda>_.
     if length input < manifest_fixed_record_bytes then Inl Truncated else
     if take 4 input \<noteq> manifest_magic then Inl (Invalid ''bad manifest magic'') else
     r_bind (read_u16 LengthOverflow Truncated input 4) (\<lambda>(version, cursor).
     if version \<noteq> manifest_version then Inl (UnsupportedVersion version) else
     r_bind (read_u16 LengthOverflow Truncated input cursor) (\<lambda>(flags, cursor).
     if flags \<noteq> 0 then Inl (Invalid ''unsupported manifest flags'') else
     r_bind (read_u64 LengthOverflow Truncated input cursor) (\<lambda>(total, cursor).
     r_bind (ok_or LengthOverflow (usize_of_u64 total)) (\<lambda>total_len.
     if total_len \<noteq> manifest_fixed_record_bytes
     then Inl (Invalid ''manifest record length mismatch'') else
     r_bind (manifest_enforce_limit ''manifest record bytes'' total_len
               (ml_max_record_bytes limits)) (\<lambda>_.
     if length input < total_len then Inl Truncated else
     let frame = take total_len input in
     r_bind (ok_or LengthOverflow (checked_sub total_len 8)) (\<lambda>trailer_start.
     r_bind (read_u64 LengthOverflow Truncated frame trailer_start) (\<lambda>(trailer, _).
     r_bind (ok_or LengthOverflow (u64_of_usize total_len)) (\<lambda>expected_trailer.
     if trailer \<noteq> expected_trailer then Inl (Invalid ''manifest length trailer mismatch'') else
     r_bind (ok_or LengthOverflow (checked_sub total_len 12)) (\<lambda>crc_start.
     r_bind (read_u32 LengthOverflow Truncated frame crc_start) (\<lambda>(expected_crc, _).
     if crc32 h (take crc_start frame) \<noteq> expected_crc then Inl ChecksumMismatch else
     r_bind (read_u256 LengthOverflow Truncated frame cursor) (\<lambda>(room, cursor).
     r_bind (read_u64 LengthOverflow Truncated frame cursor) (\<lambda>(revision, cursor).
     r_bind (read_u256 LengthOverflow Truncated frame cursor) (\<lambda>(previous, cursor).
     r_bind (read_u64 LengthOverflow Truncated frame cursor) (\<lambda>(checkpoint_generation, cursor).
     r_bind (read_u64 LengthOverflow Truncated frame cursor) (\<lambda>(end_offset, cursor).
     r_bind (read_u256 LengthOverflow Truncated frame cursor) (\<lambda>(checkpoint_digest, cursor).
     r_bind (read_u64 LengthOverflow Truncated frame cursor) (\<lambda>(active, cursor).
     r_bind (read_u256 LengthOverflow Truncated frame cursor) (\<lambda>(digest, cursor).
     if cursor \<noteq> crc_start then Inl (Invalid ''manifest fields are misplaced'') else
     let r = \<lparr>mf_room_hash = room, mf_revision = revision, mf_previous_record_digest = previous,
           mf_checkpoint_generation = checkpoint_generation,
           mf_checkpoint_stream_end_offset = end_offset,
           mf_checkpoint_record_digest = checkpoint_digest, mf_active_delta_generation = active,
           mf_digest = digest\<rparr> in
     r_bind (validate_record_fields r) (\<lambda>_.
     if mf_digest r \<noteq> record_digest h r then Inl DigestMismatch else
     Inr (r, total_len)))))))))))))))))))))"

definition manifest_decode_exact ::
  "hashes \<Rightarrow> manifest_limits \<Rightarrow> bytes \<Rightarrow> manifest_error + manifest_record" where
  "manifest_decode_exact h limits input =
     r_bind (manifest_decode_one h limits input) (\<lambda>(r, consumed).
     if consumed \<noteq> length input then Inl (Invalid ''trailing bytes after manifest record'')
     else Inr r)"

section \<open>The layout\<close>

definition manifest_head :: "manifest_record \<Rightarrow> bytes" where
  "manifest_head r =
     manifest_magic @ be16 manifest_version @ be16 0 @ be64 188 @
     be256 (mf_room_hash r) @ be64 (mf_revision r) @ be256 (mf_previous_record_digest r) @
     be64 (mf_checkpoint_generation r) @ be64 (mf_checkpoint_stream_end_offset r) @
     be256 (mf_checkpoint_record_digest r) @ be64 (mf_active_delta_generation r) @
     be256 (mf_digest r)"

definition manifest_layout :: "hashes \<Rightarrow> manifest_record \<Rightarrow> bytes" where
  "manifest_layout h r = manifest_head r @ be32 (crc32 h (manifest_head r)) @ be64 188"

definition manifest_fields_ok :: "manifest_record \<Rightarrow> bool" where
  "manifest_fields_ok r \<longleftrightarrow>
     (mf_revision r = 0 \<longleftrightarrow> mf_previous_record_digest r = genesis_digest) \<and>
     unat (mf_active_delta_generation r) = Suc (unat (mf_checkpoint_generation r)) \<and>
     mf_checkpoint_stream_end_offset r \<noteq> 0"

definition manifest_admitted :: "hashes \<Rightarrow> manifest_limits \<Rightarrow> manifest_record \<Rightarrow> bool" where
  "manifest_admitted h limits r \<longleftrightarrow>
     188 \<le> ml_max_record_bytes limits \<and> manifest_fields_ok r \<and> mf_digest r = record_digest h r"

lemma u64_of_usize_188 [simp]: "u64_of_usize 188 = Some 188"
  by (simp add: u64_of_usize_def)

lemma unat_eq_iff_188: "unat (w :: u64) = 188 \<longleftrightarrow> w = 188"
  by (simp add: word_unat_eq_iff)

lemma manifest_enforce_limit_Inr_iff [simp]:
  "manifest_enforce_limit r a l = Inr u \<longleftrightarrow> a \<le> l"
  by (auto simp: manifest_enforce_limit_def)

lemma manifest_enforce_limit_run [codec_simps]:
  "a \<le> l \<Longrightarrow> manifest_enforce_limit r a l = Inr ()"
  by (simp add: manifest_enforce_limit_def)

lemma manifest_fixed_record_bytes_eq [simp]: "manifest_fixed_record_bytes = 188"
  by (simp add: manifest_fixed_record_bytes_def)

lemma length_manifest_magic [simp]: "length manifest_magic = 4"
  by (simp add: manifest_magic_def)

lemma length_manifest_head [simp]: "length (manifest_head r) = 176"
  by (simp add: manifest_head_def)

lemma length_manifest_layout [simp]: "length (manifest_layout h r) = 188"
  by (simp add: manifest_layout_def)

lemma validate_generation_pair_Inr_iff [simp]:
  "validate_generation_pair c a = Inr u \<longleftrightarrow> unat a = Suc (unat c)"
proof -
  have "unat c + 1 < 2 ^ 64 \<and> a = c + 1 \<longleftrightarrow> unat a = Suc (unat c)"
    using unat_bound [of a] by (auto simp: word_unat_eq_iff unat_word_ariths)
  then show ?thesis
    by (auto simp: validate_generation_pair_def r_bind_Inr_iff u64_checked_add_Some_iff)
qed

lemma validate_previous_digest_Inr_iff [simp]:
  "validate_previous_digest v d = Inr u \<longleftrightarrow> (v = 0 \<longleftrightarrow> d = genesis_digest)"
  by (auto simp: validate_previous_digest_def word_gt_0)

lemma validate_record_fields_Inr_iff [simp]:
  "validate_record_fields r = Inr u \<longleftrightarrow> manifest_fields_ok r"
  by (auto simp: validate_record_fields_def manifest_fields_ok_def r_bind_Inr_iff)

lemma manifest_encode_Inr_iff:
  "manifest_encode_with_limits h limits r = Inr out \<longleftrightarrow>
     manifest_admitted h limits r \<and> out = manifest_layout h r"
  by (auto simp: manifest_encode_with_limits_def r_bind_Inr_iff Let_def manifest_admitted_def
      manifest_layout_def manifest_head_def u64_of_usize_Some_iff)

section \<open>The decoder accepts exactly the layout\<close>

lemma manifest_decode_run:
  assumes adm: "manifest_admitted h limits r"
  shows "manifest_decode_one h limits (manifest_layout h r @ rest) = Inr (r, 188)"
proof -
  let ?F = "manifest_layout h r" and ?crc = "crc32 h (manifest_head r)"
  let ?I = "?F @ rest"
  have c0: "rest_at ?I 4 (be16 manifest_version @ be16 0 @ be64 188 @ drop 16 ?I)"
    by (simp add: rest_at_def manifest_layout_def manifest_head_def)
  note c1 = rest_at_step [OF c0, of 6, simplified]
  note c2 = rest_at_step [OF c1, of 8, simplified]
  have f0: "rest_at ?F 16 (be256 (mf_room_hash r) @ be64 (mf_revision r) @
      be256 (mf_previous_record_digest r) @ be64 (mf_checkpoint_generation r) @
      be64 (mf_checkpoint_stream_end_offset r) @ be256 (mf_checkpoint_record_digest r) @
      be64 (mf_active_delta_generation r) @ be256 (mf_digest r) @ be32 ?crc @ be64 188 @ [])"
    by (simp add: rest_at_def manifest_layout_def manifest_head_def)
  note f1 = rest_at_step [OF f0, of 48, simplified]
  note f2 = rest_at_step [OF f1, of 56, simplified]
  note f3 = rest_at_step [OF f2, of 88, simplified]
  note f4 = rest_at_step [OF f3, of 96, simplified]
  note f5 = rest_at_step [OF f4, of 104, simplified]
  note f6 = rest_at_step [OF f5, of 136, simplified]
  note f7 = rest_at_step [OF f6, of 144, simplified]
  note f8 = rest_at_step [OF f7, of 176, simplified]
  have f9: "rest_at ?F 180 (be64 188 @ [])"
    using rest_at_step [OF f8, of 180] by simp
  have u: "n < usize_limit" if "n \<le> 200" for n
    using that by (simp add: usize_limit_def)
  note reads = rest_at_read_u16 [OF c0 _ u, of 6] rest_at_read_u16 [OF c1 _ u, of 8]
    rest_at_read_u64 [OF c2 _ u, of 16] rest_at_read_u256 [OF f0 _ u, of 48]
    rest_at_read_u64 [OF f1 _ u, of 56] rest_at_read_u256 [OF f2 _ u, of 88]
    rest_at_read_u64 [OF f3 _ u, of 96] rest_at_read_u64 [OF f4 _ u, of 104]
    rest_at_read_u256 [OF f5 _ u, of 136] rest_at_read_u64 [OF f6 _ u, of 144]
    rest_at_read_u256 [OF f7 _ u, of 176] rest_at_read_u32 [OF f8 _ u, of 180]
    rest_at_read_u64 [OF f9 _ u, of 188]
  have magic: "take 4 ?I = manifest_magic" "take 4 ?F = manifest_magic" "take 188 ?I = ?F" "take 176 ?F = manifest_head r"
    by (simp_all add: manifest_layout_def manifest_head_def)
  have adm': "188 \<le> ml_max_record_bytes limits" "validate_record_fields r = Inr ()"
    "record_digest h r = mf_digest r"
    using adm by (simp_all add: manifest_admitted_def)
  have eta: "\<lparr>mf_room_hash = mf_room_hash r, mf_revision = mf_revision r,
      mf_previous_record_digest = mf_previous_record_digest r,
      mf_checkpoint_generation = mf_checkpoint_generation r,
      mf_checkpoint_stream_end_offset = mf_checkpoint_stream_end_offset r,
      mf_checkpoint_record_digest = mf_checkpoint_record_digest r,
      mf_active_delta_generation = mf_active_delta_generation r, mf_digest = mf_digest r\<rparr> = r"
    by simp
  show ?thesis
    by (simp add: adm' eta manifest_decode_one_def Let_def reads magic codec_simps usize_limit_def)
qed

lemma manifest_decode_prefix:
  assumes "manifest_decode_one h limits input = Inr (r, n)"
  shows "manifest_admitted h limits r \<and> n = 188 \<and> take 188 input = manifest_layout h r \<and> 188 \<le> length input"
proof -
  let ?F = "take 188 input"
  from assms obtain c1 c2 c3 d1 d2 d3 d4 d5 d6 d7 e1 e2 a0 a1 a2 a3 a4 a5 a6 a7 where
    magic: "take 4 input = manifest_magic" and
    p: "read_u16 LengthOverflow Truncated input 4 = Inr (manifest_version, c1)"
      "read_u16 LengthOverflow Truncated input c1 = Inr (0, c2)"
      "read_u64 LengthOverflow Truncated input c2 = Inr (188, c3)" and
    q: "read_u256 LengthOverflow Truncated ?F c3 = Inr (a0, d1)"
      "read_u64 LengthOverflow Truncated ?F d1 = Inr (a1, d2)"
      "read_u256 LengthOverflow Truncated ?F d2 = Inr (a2, d3)"
      "read_u64 LengthOverflow Truncated ?F d3 = Inr (a3, d4)"
      "read_u64 LengthOverflow Truncated ?F d4 = Inr (a4, d5)"
      "read_u256 LengthOverflow Truncated ?F d5 = Inr (a5, d6)"
      "read_u64 LengthOverflow Truncated ?F d6 = Inr (a6, d7)"
      "read_u256 LengthOverflow Truncated ?F d7 = Inr (a7, 176)"
      "read_u32 LengthOverflow Truncated ?F 176 = Inr (crc32 h (take 176 input), e1)"
      "read_u64 LengthOverflow Truncated ?F 180 = Inr (188, e2)" and
    r: "r = \<lparr>mf_room_hash = a0, mf_revision = a1, mf_previous_record_digest = a2,
        mf_checkpoint_generation = a3, mf_checkpoint_stream_end_offset = a4,
        mf_checkpoint_record_digest = a5, mf_active_delta_generation = a6, mf_digest = a7\<rparr>" and
    g: "188 \<le> ml_max_record_bytes limits" "n = 188" "188 \<le> length input"
      "manifest_fields_ok \<lparr>mf_room_hash = a0, mf_revision = a1, mf_previous_record_digest = a2,
        mf_checkpoint_generation = a3, mf_checkpoint_stream_end_offset = a4,
        mf_checkpoint_record_digest = a5, mf_active_delta_generation = a6, mf_digest = a7\<rparr>"
      "a7 = record_digest h \<lparr>mf_room_hash = a0, mf_revision = a1, mf_previous_record_digest = a2,
        mf_checkpoint_generation = a3, mf_checkpoint_stream_end_offset = a4,
        mf_checkpoint_record_digest = a5, mf_active_delta_generation = a6, mf_digest = a7\<rparr>"
    by (auto simp: manifest_decode_one_def Let_def not_less unat_eq_iff_188
        elim!: r_bind_InrE split: if_splits)
  note pp = p(1,2) [THEN read_u16_prefix] p(3) [THEN read_u64_prefix]
  note qq = q(1) [THEN read_u256_prefix] q(2) [THEN read_u64_prefix] q(3) [THEN read_u256_prefix]
    q(4,5) [THEN read_u64_prefix] q(6) [THEN read_u256_prefix] q(7) [THEN read_u64_prefix]
    q(8) [THEN read_u256_prefix] q(9) [THEN read_u32_prefix] q(10) [THEN read_u64_prefix]
  have c: "c1 = 6" "c2 = 8" "c3 = 16" "d1 = 48" "d2 = 56" "d3 = 88" "d4 = 96" "d5 = 104" "d6 = 136"
    "d7 = 144" "e1 = 180" "e2 = 188"
    using pp qq by auto
  have t16: "take 16 ?F = manifest_magic @ be16 manifest_version @ be16 0 @ be64 188"
    using pp magic by (simp add: c)
  have head: "take 176 ?F = manifest_head r"
    using qq(1-8) [THEN conjunct1, unfolded c] t16 by (simp add: manifest_head_def r)
  have "take 188 ?F = take 176 ?F @ be32 (crc32 h (take 176 input)) @ be64 188"
    using qq(9,10) [THEN conjunct1, unfolded c] g(3) by simp
  with head g show ?thesis by (simp add: manifest_layout_def manifest_admitted_def r)
qed

text \<open>A record is decoded exactly when its layout is what the input begins with.\<close>

theorem manifest_decode_Inr_iff:
  "manifest_decode_one h limits input = Inr (r, n) \<longleftrightarrow>
    manifest_admitted h limits r \<and> n = 188 \<and> (\<exists>rest. input = manifest_layout h r @ rest)"
  using manifest_decode_run manifest_decode_prefix by (metis append_take_drop_id)

interpretation manifest_codec: record_codec
  "manifest_admitted h limits" "manifest_layout h" "manifest_decode_one h limits" for h limits
proof
  show "manifest_layout h x \<noteq> []" for x
    using length_manifest_layout [of h x] by fastforce
qed (auto simp: manifest_decode_Inr_iff)

section \<open>A manifest stream and its chain\<close>

lemma manifest_decode_consumed:
  assumes "manifest_decode_one h limits input = Inr (r, n)"
  shows "0 < n" and "n \<le> length input"
  using assms by (auto simp: manifest_decode_Inr_iff)

text \<open>
  The loop of \<open>decode_manifest_stream\<close>; \<open>count\<close> is \<open>records.len()\<close>. The tail
  \<open>input.get(consumed..)\<close> always exists, since a decoded record lies within the input
  (\<open>manifest_decode_consumed\<close>).
\<close>

function manifest_decode_loop ::
  "hashes \<Rightarrow> manifest_limits \<Rightarrow> nat \<Rightarrow> bytes \<Rightarrow> manifest_error + manifest_record list" where
  "manifest_decode_loop h limits count input =
     (if input = [] then Inr [] else
      r_bind (manifest_enforce_limit ''manifest record count'' (usize_saturating_add count 1)
                (ml_max_records limits)) (\<lambda>_.
      r_bind (manifest_decode_one h limits input) (\<lambda>(r, consumed).
      if consumed > length input then Inl Truncated else
      r_bind (manifest_decode_loop h limits (count + 1) (drop consumed input)) (\<lambda>records.
      Inr (r # records)))))"
  by pat_completeness auto

termination
  by (relation "measure (\<lambda>(h, limits, count, input). length input)")
    (auto dest: manifest_decode_consumed)

declare manifest_decode_loop.simps [simp del]

definition decode_manifest_stream ::
  "hashes \<Rightarrow> manifest_limits \<Rightarrow> bytes \<Rightarrow> manifest_error + manifest_record list" where
  "decode_manifest_stream h limits input =
     r_bind (manifest_enforce_limit ''manifest stream bytes'' (length input)
               (ml_max_stream_bytes limits)) (\<lambda>_.
     manifest_decode_loop h limits 0 input)"

text \<open>The loop of \<open>validate_manifest_chain\<close> over \<open>records.windows(2)\<close>, and the function.\<close>

fun manifest_validate_links ::
  "hashes \<Rightarrow> string \<Rightarrow> manifest_record \<Rightarrow> manifest_record list \<Rightarrow> manifest_error + unit" where
  "manifest_validate_links h room_id previous [] = Inr ()"
| "manifest_validate_links h room_id previous (current # rest) =
     (if \<not> manifest_belongs_to_room h current room_id then Inl WrongRoom else
      r_bind (ok_or LengthOverflow (u64_checked_add (mf_revision previous) 1)) (\<lambda>expected_revision.
      if mf_revision current \<noteq> expected_revision then Inl (Invalid ''manifest revision gap'') else
      if mf_previous_record_digest current \<noteq> mf_digest previous
      then Inl (Invalid ''manifest predecessor digest mismatch'') else
      if mf_checkpoint_generation current \<le> mf_checkpoint_generation previous
      then Inl (Invalid ''checkpoint generation did not advance'') else
      if mf_active_delta_generation current \<le> mf_active_delta_generation previous
      then Inl (Invalid ''active delta generation did not advance'') else
      manifest_validate_links h room_id current rest))"

definition validate_manifest_chain ::
  "hashes \<Rightarrow> manifest_record list \<Rightarrow> string \<Rightarrow> manifest_error + manifest_record" where
  "validate_manifest_chain h records room_id =
     (case records of
        [] \<Rightarrow> Inl EmptyStream
      | first # rest \<Rightarrow>
          if \<not> manifest_belongs_to_room h first room_id then Inl WrongRoom else
          if mf_revision first \<noteq> 0 then Inl (Invalid ''first manifest revision is not zero'') else
          if mf_previous_record_digest first \<noteq> genesis_digest
          then Inl (Invalid ''first manifest record has a predecessor'') else
          r_bind (manifest_validate_links h room_id first rest) (\<lambda>_. Inr (last records)))"

text \<open>
  What the chain is: all records of one room, the \<open>i\<close>th record has revision \<open>i\<close> and names
  the digest of the record before it, and both generations strictly increase.
\<close>

definition manifest_chain :: "hashes \<Rightarrow> string \<Rightarrow> manifest_record list \<Rightarrow> bool" where
  "manifest_chain h room_id rs \<longleftrightarrow> rs \<noteq> [] \<and>
     (\<forall>i < length rs. manifest_belongs_to_room h (rs ! i) room_id \<and> unat (mf_revision (rs ! i)) = i \<and>
        mf_previous_record_digest (rs ! i) = (if i = 0 then genesis_digest else mf_digest (rs ! (i - 1)))) \<and>
     sorted_wrt (<) (map mf_checkpoint_generation rs) \<and>
     sorted_wrt (<) (map mf_active_delta_generation rs)"

section \<open>Lemmas on streams and chains\<close>

lemma manifest_decode_loop_Inr_iff:
  assumes "count + length input < usize_limit"
  shows "manifest_decode_loop h limits count input = Inr rs \<longleftrightarrow>
    (\<forall>r \<in> set rs. manifest_admitted h limits r) \<and> input = concat (map (manifest_layout h) rs) \<and>
    (rs \<noteq> [] \<longrightarrow> count + length rs \<le> ml_max_records limits)"
  using assms
proof (induction h limits count input arbitrary: rs rule: manifest_decode_loop.induct)
  case (1 h limits count input)
  have ne: "manifest_layout h x \<noteq> []" for x
    by (rule manifest_codec.layout_nonempty)
  show ?case
  proof (cases "input = []")
    case True
    then show ?thesis
      using ne by (cases rs) (auto simp: manifest_decode_loop.simps)
  next
    case False
    have sat: "usize_saturating_add count 1 = count + 1"
      using "1.prems" False by (cases input) (auto simp: usize_saturating_add_def usize_limit_def)
    have step: "manifest_decode_loop h limits count input = Inr rs \<longleftrightarrow>
        (\<exists>r rest rs'. manifest_decode_one h limits input = Inr (r, 188) \<and> rs = r # rs' \<and>
          count + 1 \<le> ml_max_records limits \<and> input = manifest_layout h r @ rest \<and>
          manifest_decode_loop h limits (count + 1) rest = Inr rs')"
      using False
      by (subst manifest_decode_loop.simps)
        (auto simp: r_bind_Inr_iff sat [simplified] manifest_decode_Inr_iff split: if_splits)
    have rec: "manifest_decode_loop h limits (count + 1) rest = Inr rs' \<longleftrightarrow>
        (\<forall>r \<in> set rs'. manifest_admitted h limits r) \<and> rest = concat (map (manifest_layout h) rs') \<and>
        (rs' \<noteq> [] \<longrightarrow> count + 1 + length rs' \<le> ml_max_records limits)"
      if "manifest_decode_one h limits input = Inr (r, 188)" and "input = manifest_layout h r @ rest"
        and "count + 1 \<le> ml_max_records limits" for r rest rs'
      using "1.IH" [OF False, of "()" "(r, 188)" r 188 rs'] that "1.prems" sat by simp
    show ?thesis
    proof (cases rs)
      case Nil
      have "manifest_decode_loop h limits count input \<noteq> Inr rs"
        unfolding step by (simp add: Nil)
      with False Nil show ?thesis by simp
    next
      case (Cons r rs')
      have "manifest_decode_loop h limits count input = Inr rs \<longleftrightarrow>
          (\<exists>rest. (manifest_admitted h limits r \<and> input = manifest_layout h r @ rest \<and>
            count + 1 \<le> ml_max_records limits) \<and> manifest_decode_loop h limits (count + 1) rest = Inr rs')"
        unfolding step by (auto simp: Cons manifest_decode_Inr_iff)
      also have "\<dots> \<longleftrightarrow> (\<exists>rest. (manifest_admitted h limits r \<and> input = manifest_layout h r @ rest \<and>
            count + 1 \<le> ml_max_records limits) \<and> (\<forall>r \<in> set rs'. manifest_admitted h limits r) \<and>
            rest = concat (map (manifest_layout h) rs') \<and>
            (rs' \<noteq> [] \<longrightarrow> count + 1 + length rs' \<le> ml_max_records limits))"
        by (rule ex_cong1, rule conj_cong [OF refl], rule rec) (auto simp: manifest_decode_Inr_iff)
      finally show ?thesis
        by (cases "rs' = []") (auto simp: Cons)
    qed
  qed
qed

lemma sorted_wrt_snoc:
  "transp P \<Longrightarrow> sorted_wrt P (xs @ [x]) \<longleftrightarrow> sorted_wrt P xs \<and> (xs \<noteq> [] \<longrightarrow> P (last xs) x)"
proof (induction xs)
  case Nil
  then show ?case by simp
next
  case (Cons y xs)
  then show ?case
    by (cases xs rule: rev_cases) (auto simp: sorted_wrt_append dest: transpD)
qed

lemma manifest_chain_single:
  "manifest_chain h room [r] \<longleftrightarrow>
     manifest_belongs_to_room h r room \<and> mf_revision r = 0 \<and> mf_previous_record_digest r = genesis_digest"
  by (auto simp: manifest_chain_def unat_eq_0)

lemma manifest_chain_snoc:
  assumes "rs \<noteq> []"
  shows "manifest_chain h room (rs @ [r]) \<longleftrightarrow>
    manifest_chain h room rs \<and> manifest_belongs_to_room h r room \<and>
    unat (mf_revision r) = Suc (unat (mf_revision (last rs))) \<and>
    mf_previous_record_digest r = mf_digest (last rs) \<and>
    mf_checkpoint_generation (last rs) < mf_checkpoint_generation r \<and>
    mf_active_delta_generation (last rs) < mf_active_delta_generation r"
proof -
  let ?ok = "\<lambda>rs i. manifest_belongs_to_room h (rs ! i) room \<and> unat (mf_revision (rs ! i)) = i \<and>
        mf_previous_record_digest (rs ! i) = (if i = 0 then genesis_digest else mf_digest (rs ! (i - 1)))"
  have tr: "transp ((<) :: u64 \<Rightarrow> u64 \<Rightarrow> bool)" by (rule transp_on_less)
  define A where "A \<longleftrightarrow> (\<forall>i < length rs. ?ok rs i)"
  have all: "(\<forall>i < length (rs @ [r]). ?ok (rs @ [r]) i) \<longleftrightarrow> A \<and> ?ok (rs @ [r]) (length rs)"
  proof -
    have "?ok (rs @ [r]) i = ?ok rs i" if "i < length rs" for i
      using that by (cases i) (simp_all add: nth_append)
    then show ?thesis
      unfolding A_def length_append_singleton less_Suc_eq by blast
  qed
  have new: "?ok (rs @ [r]) (length rs) \<longleftrightarrow> manifest_belongs_to_room h r room \<and>
      unat (mf_revision r) = length rs \<and> mf_previous_record_digest r = mf_digest (last rs)"
    using assms by (simp add: nth_append last_conv_nth)
  have len: "length rs = Suc (unat (mf_revision (last rs)))" if A
    using that assms by (auto simp: last_conv_nth A_def)
  have old: "manifest_chain h room rs \<longleftrightarrow> rs \<noteq> [] \<and> A \<and>
      sorted_wrt (<) (map mf_checkpoint_generation rs) \<and> sorted_wrt (<) (map mf_active_delta_generation rs)"
    by (simp add: manifest_chain_def A_def)
  have "manifest_chain h room (rs @ [r]) \<longleftrightarrow> (A \<and> manifest_belongs_to_room h r room \<and>
      unat (mf_revision r) = length rs \<and> mf_previous_record_digest r = mf_digest (last rs)) \<and>
      sorted_wrt (<) (map mf_checkpoint_generation rs @ [mf_checkpoint_generation r]) \<and>
      sorted_wrt (<) (map mf_active_delta_generation rs @ [mf_active_delta_generation r])"
    unfolding manifest_chain_def all new by simp
  then show ?thesis
    using assms len by (auto simp: old sorted_wrt_snoc [OF tr] last_map)
qed

lemma manifest_chain_prefix:
  "manifest_chain h room (rs @ ms) \<Longrightarrow> rs \<noteq> [] \<Longrightarrow> manifest_chain h room rs"
proof (induction ms rule: rev_induct)
  case Nil
  then show ?case by simp
next
  case (snoc m ms)
  then show ?case
    using manifest_chain_snoc [of "rs @ ms" h room m] by simp
qed

lemma u64_checked_succ_iff:
  "u64_checked_add v 1 = Some w \<longleftrightarrow> unat w = Suc (unat v)"
  using validate_generation_pair_Inr_iff [of v w "()"]
  by (auto simp: validate_generation_pair_def r_bind_Inr_iff split: if_splits)

lemma manifest_validate_links_iff:
  assumes "rs \<noteq> []" and "manifest_chain h room rs"
  shows "manifest_validate_links h room (last rs) ms = Inr u \<longleftrightarrow> manifest_chain h room (rs @ ms)"
  using assms
proof (induction ms arbitrary: rs)
  case Nil
  then show ?case by simp
next
  case (Cons m ms)
  let ?p = "last rs"
  have step: "manifest_validate_links h room ?p (m # ms) = Inr u \<longleftrightarrow>
      manifest_chain h room (rs @ [m]) \<and> manifest_validate_links h room m ms = Inr u"
    using Cons.prems by (auto simp: r_bind_Inr_iff u64_checked_succ_iff manifest_chain_snoc not_le)
  have pre: "manifest_chain h room (rs @ [m])" if "manifest_chain h room (rs @ m # ms)"
    using that by (intro manifest_chain_prefix [of h room "rs @ [m]" ms, simplified])
  show ?case
    unfolding step using Cons.IH [of "rs @ [m]"] pre by auto
qed

lemma manifest_decode_exact_Inr_iff:
  "manifest_decode_exact h limits input = Inr r \<longleftrightarrow>
     manifest_admitted h limits r \<and> input = manifest_layout h r"
  by (auto simp: manifest_decode_exact_def r_bind_Inr_iff manifest_decode_Inr_iff)

lemma decode_manifest_stream_Inr_iff:
  assumes "length input < usize_limit"
  shows "decode_manifest_stream h limits input = Inr rs \<longleftrightarrow>
    length input \<le> ml_max_stream_bytes limits \<and> (\<forall>r \<in> set rs. manifest_admitted h limits r) \<and>
    input = concat (map (manifest_layout h) rs) \<and> (rs \<noteq> [] \<longrightarrow> length rs \<le> ml_max_records limits)"
  using assms by (simp add: decode_manifest_stream_def r_bind_Inr_iff manifest_decode_loop_Inr_iff)

lemma manifest_chain_revision_last:
  "manifest_chain h room rs \<Longrightarrow> unat (mf_revision (last rs)) = length rs - 1"
  by (cases "rs = []") (auto simp: manifest_chain_def last_conv_nth)

lemma validate_manifest_chain_eq:
  "validate_manifest_chain h rs room = Inr r \<longleftrightarrow> manifest_chain h room rs \<and> r = last rs"
proof (cases rs)
  case Nil
  then show ?thesis by (simp add: validate_manifest_chain_def manifest_chain_def)
next
  case (Cons m ms)
  have "manifest_chain h room [m]" if "manifest_chain h room (m # ms)"
    using manifest_chain_prefix [of h room "[m]" ms] that by simp
  moreover have "validate_manifest_chain h rs room = Inr r \<longleftrightarrow>
      manifest_chain h room [m] \<and> manifest_validate_links h room m ms = Inr () \<and> r = last rs"
    by (auto simp: Cons validate_manifest_chain_def r_bind_Inr_iff manifest_chain_single)
  moreover have "manifest_validate_links h room m ms = Inr () \<longleftrightarrow> manifest_chain h room rs"
    if "manifest_chain h room [m]"
    using manifest_validate_links_iff [OF _ that] by (simp add: Cons)
  ultimately show ?thesis
    unfolding Cons by blast
qed

text \<open>The hashed fields of a record, as one byte string.\<close>

definition record_digest_input :: "manifest_record \<Rightarrow> bytes" where
  "record_digest_input r = manifest_digest_input (mf_room_hash r) (mf_revision r)
     (mf_previous_record_digest r) (mf_checkpoint_generation r)
     (mf_checkpoint_stream_end_offset r) (mf_checkpoint_record_digest r)
     (mf_active_delta_generation r)"

lemma record_digest_sha: "record_digest h r = sha256 h (record_digest_input r)"
  by (simp add: record_digest_def manifest_digest_def record_digest_input_def)

lemma be_word_inj [simp]: "be64 a = be64 b \<longleftrightarrow> a = b" "be256 c = be256 d \<longleftrightarrow> c = d"
  by (metis of_nat_be_bytes(3)) (metis of_nat_be_bytes(4))

lemma record_digest_input_inj:
  assumes "record_digest_input r = record_digest_input r'" and "mf_digest r = mf_digest r'"
  shows "r = r'"
proof -
  have "mf_room_hash r = mf_room_hash r' \<and> mf_revision r = mf_revision r' \<and>
      mf_previous_record_digest r = mf_previous_record_digest r' \<and>
      mf_checkpoint_generation r = mf_checkpoint_generation r' \<and>
      mf_checkpoint_stream_end_offset r = mf_checkpoint_stream_end_offset r' \<and>
      mf_checkpoint_record_digest r = mf_checkpoint_record_digest r' \<and>
      mf_active_delta_generation r = mf_active_delta_generation r'"
    using assms(1) by (simp add: record_digest_input_def manifest_digest_input_def)
  with assms(2) show ?thesis by (intro manifest_record.equality) auto
qed

section \<open>Properties\<close>

text \<open>A concrete chain of two records for the witnesses.\<close>

definition sample_manifest :: "u64 \<Rightarrow> digest \<Rightarrow> u64 \<Rightarrow> bytes \<Rightarrow> manifest_record" where
  "sample_manifest revision previous generation bs =
     \<lparr>mf_room_hash = room_hash sample_hashes ''room-a'', mf_revision = revision,
      mf_previous_record_digest = previous, mf_checkpoint_generation = generation,
      mf_checkpoint_stream_end_offset = of_nat (length bs),
      mf_checkpoint_record_digest = checkpoint_record_digest sample_hashes bs,
      mf_active_delta_generation = generation + 1,
      mf_digest = manifest_digest sample_hashes (room_hash sample_hashes ''room-a'') revision previous
        generation (of_nat (length bs)) (checkpoint_record_digest sample_hashes bs) (generation + 1)\<rparr>"

definition sample_chain :: "manifest_record list" where
  "sample_chain =
     [sample_manifest 0 genesis_digest 7 [1, 2, 3],
      sample_manifest 1 (mf_digest (sample_manifest 0 genesis_digest 7 [1, 2, 3])) 8 [4, 5]]"

lemma default_manifest_limits_sel [simp]:
  "ml_max_record_bytes default_manifest_limits = 4096"
  "ml_max_records default_manifest_limits = 65536"
  "ml_max_stream_bytes default_manifest_limits = 16777216"
  by (simp_all add: default_manifest_limits_def)

lemma sample_chain_valid:
  "validate_manifest_chain sample_hashes sample_chain ''room-a'' = Inr (last sample_chain)"
  by (simp add: validate_manifest_chain_eq manifest_chain_def sample_chain_def sample_manifest_def
      manifest_belongs_to_room_def less_Suc_eq)

lemma sample_manifest_admitted:
  "manifest_admitted sample_hashes default_manifest_limits (hd sample_chain)"
  by (simp add: sample_chain_def sample_manifest_def record_digest_def manifest_admitted_def
      default_manifest_limits_def manifest_fields_ok_def)

text \<open>
  C16. Encoding and exact decoding of manifest records are inverse, in both directions and
  under the same limits: an input decodes to a record exactly when it is the encoding of it.
\<close>

theorem manifest_codec_inverse:
  "manifest_decode_exact h limits input = Inr r \<longleftrightarrow> manifest_encode_with_limits h limits r = Inr input"
  by (auto simp: manifest_decode_exact_Inr_iff manifest_encode_Inr_iff)

text \<open>
  A manifest stream decodes to a list of records exactly when it is within the byte and
  record limits and is the concatenation of the encodings of those records, every one of
  which the encoder admits: a torn or foreign record anywhere refuses the whole stream.
\<close>

lemma manifest_stream_decoding:
  assumes "length input < 2 ^ 64"
  shows "decode_manifest_stream h limits input = Inr rs \<longleftrightarrow>
    length input \<le> ml_max_stream_bytes limits \<and> (rs \<noteq> [] \<longrightarrow> length rs \<le> ml_max_records limits) \<and>
    traverse (manifest_encode_with_limits h limits) rs = Inr (map (manifest_layout h) rs) \<and>
    input = concat (map (manifest_layout h) rs)"
proof -
  have "traverse (manifest_encode_with_limits h limits) rs = Inr (map (manifest_layout h) rs) \<longleftrightarrow>
      (\<forall>r \<in> set rs. manifest_admitted h limits r)"
    by (auto simp: traverse_Inr_iff list_all2_conv_all_nth manifest_encode_Inr_iff all_set_conv_all_nth)
  with assms show ?thesis
    by (auto simp: decode_manifest_stream_Inr_iff usize_limit_def)
qed

text \<open>
  C17. \<open>validate_manifest_chain\<close> accepts exactly the well-formed chains of the room and
  returns their last record: all records belong to the room, revisions count from zero
  without gaps, every record names the digest of the one before it (the first names none),
  and the checkpoint and active delta generations strictly increase over the whole chain.
\<close>

theorem validate_manifest_chain_iff:
  "validate_manifest_chain h rs room = Inr r \<longleftrightarrow>
    (rs \<noteq> [] \<and>
     (\<forall>i < length rs. manifest_belongs_to_room h (rs ! i) room \<and> unat (mf_revision (rs ! i)) = i \<and>
        mf_previous_record_digest (rs ! i) = (if i = 0 then genesis_digest else mf_digest (rs ! (i - 1)))) \<and>
     sorted_wrt (<) (map mf_checkpoint_generation rs) \<and>
     sorted_wrt (<) (map mf_active_delta_generation rs)) \<and> r = last rs"
  by (simp only: validate_manifest_chain_eq manifest_chain_def)

theorem validate_manifest_chain_iff_witness:
  "validate_manifest_chain sample_hashes sample_chain ''room-a'' = Inr (last sample_chain)"
  unfolding validate_manifest_chain_iff
  by (simp add: sample_chain_def sample_manifest_def manifest_belongs_to_room_def less_Suc_eq)

text \<open>
  Two validated chains whose records carry their own digests and whose heads carry the same
  digest are the same chain, unless two of their records are a collision of the hash.
\<close>

lemma manifest_chain_same_head:
  assumes "validate_manifest_chain h rs room = Inr r" and "validate_manifest_chain h rs' room' = Inr r'"
    and "\<forall>m \<in> set rs \<union> set rs'. mf_digest m = record_digest h m" and "mf_digest r = mf_digest r'"
  shows "rs = rs' \<or> (\<exists>m \<in> set rs. \<exists>m' \<in> set rs'. record_digest_input m \<noteq> record_digest_input m' \<and>
    sha256 h (record_digest_input m) = sha256 h (record_digest_input m'))"
  (is "_ \<or> ?collision rs rs'")
proof -
  have chains: "manifest_chain h room rs" "manifest_chain h room' rs'" and heads: "r = last rs" "r' = last rs'"
    using assms(1,2) by (simp_all only: validate_manifest_chain_eq)
  show ?thesis
    using chains assms(3) assms(4) [unfolded heads]
  proof (induction rs arbitrary: rs' rule: rev_induct)
    case Nil
    then show ?case by (simp add: manifest_chain_def)
  next
    case (snoc m ms)
    from snoc.prems(2) obtain m' ms' where rs': "rs' = ms' @ [m']"
      by (cases rs' rule: rev_cases) (auto simp: manifest_chain_def)
    show ?case
    proof (cases "record_digest_input m = record_digest_input m'")
      case False
      have "sha256 h (record_digest_input m) = sha256 h (record_digest_input m')"
        using snoc.prems(3,4) by (simp add: rs' record_digest_sha)
      with False show ?thesis unfolding rs' by auto
    next
      case True
      with snoc.prems(4) have m: "m = m'"
        by (intro record_digest_input_inj) (simp_all add: rs')
      then have "length ms = length ms'"
        using manifest_chain_revision_last [OF snoc.prems(1)] manifest_chain_revision_last [OF snoc.prems(2)]
        by (simp add: rs')
      then consider "ms = []" "ms' = []" | "ms \<noteq> []" "ms' \<noteq> []" by fastforce
      then show ?thesis
      proof cases
        case 1
        then show ?thesis by (simp add: rs' m)
      next
        case 2
        have "manifest_chain h room ms" "manifest_chain h room' ms'"
          "mf_digest (last ms) = mf_digest (last ms')"
          using snoc.prems(1,2) 2 by (auto simp: rs' m manifest_chain_snoc)
        then have "ms = ms' \<or> ?collision ms ms'"
          using snoc.prems(3) by (intro snoc.IH) (auto simp: rs')
        then show ?thesis unfolding rs' m by auto
      qed
    qed
  qed
qed

text \<open>
  C18. The chain is tamper evident. Two manifest streams that the decoder accepts, under the
  limits recovery and publication use, that hold valid chains and whose heads carry the same
  digest are the same stream, byte for byte, unless two of their records are a collision of
  SHA-256: different hashed fields with one digest. That a record carries the digest of its own fields is not checked by
  \<open>validate_manifest_chain\<close>; the decoder has checked it.
\<close>

theorem manifest_chain_tamper_evident:
  assumes "decode_manifest_stream h default_manifest_limits bs = Inr rs"
    and "decode_manifest_stream h default_manifest_limits bs' = Inr rs'"
    and "validate_manifest_chain h rs room = Inr r" and "validate_manifest_chain h rs' room' = Inr r'"
    and "mf_digest r = mf_digest r'"
  shows "bs = bs' \<and> rs = rs' \<or>
    (\<exists>m \<in> set rs. \<exists>m' \<in> set rs'. record_digest_input m \<noteq> record_digest_input m' \<and>
      sha256 h (record_digest_input m) = sha256 h (record_digest_input m'))"
proof -
  have len: "length bs < usize_limit" "length bs' < usize_limit"
    using assms(1,2) by (auto simp: decode_manifest_stream_def usize_limit_def elim!: r_bind_InrE)
  note dec = assms(1) [unfolded decode_manifest_stream_Inr_iff [OF len(1)]]
    and dec' = assms(2) [unfolded decode_manifest_stream_Inr_iff [OF len(2)]]
  have "\<forall>m \<in> set rs \<union> set rs'. mf_digest m = record_digest h m"
    using dec dec' by (auto simp: manifest_admitted_def)
  moreover have "bs = bs'" if "rs = rs'"
    using dec dec' that by simp
  ultimately show ?thesis
    using manifest_chain_same_head [OF assms(3,4) _ assms(5)] by blast
qed

text \<open>
  Two different streams whose heads carry the same digest, under a hash with one value: the
  theorem finds the collision.
\<close>

definition constant_hashes :: hashes where
  "constant_hashes = \<lparr>sha256 = (\<lambda>_. 5), crc32 = (\<lambda>_. 0)\<rparr>"

definition constant_record :: "u64 \<Rightarrow> manifest_record" where
  "constant_record generation =
     \<lparr>mf_room_hash = room_hash constant_hashes ''room-a'', mf_revision = 0,
      mf_previous_record_digest = genesis_digest, mf_checkpoint_generation = generation,
      mf_checkpoint_stream_end_offset = 3, mf_checkpoint_record_digest = 5,
      mf_active_delta_generation = generation + 1, mf_digest = 5\<rparr>"

theorem manifest_chain_tamper_evident_witness:
  "record_digest_input (constant_record 7) \<noteq> record_digest_input (constant_record 8) \<and>
   sha256 constant_hashes (record_digest_input (constant_record 7)) =
     sha256 constant_hashes (record_digest_input (constant_record 8))"
proof -
  have "manifest_admitted constant_hashes default_manifest_limits (constant_record g)" if "g \<in> {7, 8}" for g
    using that by (auto simp: manifest_admitted_def manifest_fields_ok_def constant_record_def
        record_digest_def manifest_digest_def constant_hashes_def)
  then have dec: "decode_manifest_stream constant_hashes default_manifest_limits
      (manifest_layout constant_hashes (constant_record g)) = Inr [constant_record g]" if "g \<in> {7, 8}" for g
    using that by (simp add: decode_manifest_stream_Inr_iff usize_limit_def)
  have val: "validate_manifest_chain constant_hashes [constant_record g] ''room-a'' = Inr (constant_record g)" for g
    by (simp add: validate_manifest_chain_eq manifest_chain_def constant_record_def manifest_belongs_to_room_def)
  have "mf_digest (constant_record 7) = mf_digest (constant_record 8)" "constant_record 7 \<noteq> constant_record 8"
    by (simp_all add: constant_record_def)
  with manifest_chain_tamper_evident [OF dec dec val val] show ?thesis by auto
qed

end
