(* ===== verification/Checkpoint.thy ===== *)
theory Checkpoint
  imports Manifest Frame
begin

text \<open>
  The record format of \<open>src/checkpoint.rs\<close>: the QLGC record with its snapshot and pending
  updates, its encoder and its decoder. The layout is specified once by \<open>checkpoint_layout\<close>
  and \<open>checkpoint_admitted\<close>. The construction of a record from a live document is in
  \<open>Checkpoint_Build\<close>.
\<close>

section \<open>Data\<close>

record checkpoint_limits =
  cl_max_record_bytes :: nat
  cl_max_snapshot_bytes :: nat
  cl_max_pending_updates :: nat
  cl_max_pending_update_bytes :: nat
  cl_max_pending_updates_bytes :: nat

definition default_checkpoint_limits :: checkpoint_limits where
  "default_checkpoint_limits =
     \<lparr>cl_max_record_bytes = 128 * 1024 * 1024, cl_max_snapshot_bytes = 64 * 1024 * 1024,
      cl_max_pending_updates = 4096, cl_max_pending_update_bytes = 32 * 1024 * 1024,
      cl_max_pending_updates_bytes = 64 * 1024 * 1024\<rparr>"

record checkpoint_record =
  cp_room_hash :: digest
  cp_checkpoint_generation :: u64
  cp_source_delta_generation :: u64
  cp_source_delta_end_offset :: u64
  cp_snapshot :: bytes
  cp_pending_updates :: "bytes list"
  cp_digest :: digest

datatype checkpoint_error =
    Truncated
  | UnsupportedVersion u16
  | Invalid string
  | ChecksumMismatch
  | DigestMismatch
  | LengthOverflow
  | LimitExceeded string nat nat

definition checkpoint_magic :: bytes where
  "checkpoint_magic = str_bytes ''QLGC''"

definition checkpoint_version :: u16 where
  "checkpoint_version = 1"

definition checkpoint_fixed_header :: nat where
  "checkpoint_fixed_header = 4 + 2 + 2 + 8 + 32 + 8 + 8 + 8 + 8 + 4"

definition checkpoint_fixed_suffix :: nat where
  "checkpoint_fixed_suffix = 32 + 4 + 8"

definition checkpoint_enforce_limit :: "string \<Rightarrow> nat \<Rightarrow> nat \<Rightarrow> checkpoint_error + unit" where
  "checkpoint_enforce_limit resource actual limit =
     (if actual > limit then Inl (LimitExceeded resource actual limit) else Inr ())"

definition checkpoint_digest :: "hashes \<Rightarrow> bytes \<Rightarrow> bytes list \<Rightarrow> digest" where
  "checkpoint_digest h snapshot pending =
     sha256 h (str_bytes ''quorum-loro-checkpoint-v1'' @ [0] @
       be64 (u64_saturating (length snapshot)) @ snapshot @ be64 (u64_saturating (length pending)) @
       concat (map (\<lambda>u. be64 (u64_saturating (length u)) @ u) pending))"

definition checkpoint_record_new ::
  "hashes \<Rightarrow> string \<Rightarrow> u64 \<Rightarrow> u64 \<Rightarrow> u64 \<Rightarrow> bytes \<Rightarrow> bytes list \<Rightarrow> checkpoint_record" where
  "checkpoint_record_new h room_id checkpoint_generation source_delta_generation
       source_delta_end_offset snapshot pending =
     \<lparr>cp_room_hash = room_hash h room_id, cp_checkpoint_generation = checkpoint_generation,
      cp_source_delta_generation = source_delta_generation,
      cp_source_delta_end_offset = source_delta_end_offset, cp_snapshot = snapshot,
      cp_pending_updates = pending, cp_digest = checkpoint_digest h snapshot pending\<rparr>"

definition checkpoint_belongs_to_room :: "hashes \<Rightarrow> checkpoint_record \<Rightarrow> string \<Rightarrow> bool" where
  "checkpoint_belongs_to_room h r room_id \<longleftrightarrow> cp_room_hash r = room_hash h room_id"

section \<open>The encoder\<close>

definition checkpoint_encode_with_limits ::
  "hashes \<Rightarrow> checkpoint_limits \<Rightarrow> checkpoint_record \<Rightarrow> checkpoint_error + bytes" where
  "checkpoint_encode_with_limits h limits r =
     (let snapshot = cp_snapshot r; pending = cp_pending_updates r in
      if snapshot = [] then Inl (Invalid ''checkpoint snapshot is empty'') else
      r_bind (checkpoint_enforce_limit ''checkpoint snapshot bytes'' (length snapshot)
                (cl_max_snapshot_bytes limits)) (\<lambda>_.
      r_bind (checkpoint_enforce_limit ''pending update count'' (length pending)
                (cl_max_pending_updates limits)) (\<lambda>_.
      r_bind (ok_or LengthOverflow (u64_of_usize (length snapshot))) (\<lambda>snapshot_len.
      r_bind (ok_or (Invalid ''too many pending updates'') (u32_of_usize (length pending)))
        (\<lambda>pending_count.
      r_bind (traverse (\<lambda>u.
                if u = [] then Inl (Invalid ''pending update is empty'') else
                r_bind (checkpoint_enforce_limit ''individual pending update bytes'' (length u)
                          (cl_max_pending_update_bytes limits)) (\<lambda>_.
                ok_or (Invalid ''pending update is too large'') (u32_of_usize (length u)))) pending)
        (\<lambda>lengths.
      r_bind (try_fold (\<lambda>sum u.
                r_bind (ok_or LengthOverflow (checked_add sum (length u))) (\<lambda>next.
                r_bind (checkpoint_enforce_limit ''aggregate pending update bytes'' next
                          (cl_max_pending_updates_bytes limits)) (\<lambda>_.
                Inr next))) 0 pending) (\<lambda>pending_len.
      r_bind (ok_or LengthOverflow (checked_mul (length lengths) 4)) (\<lambda>length_table_len.
      r_bind (ok_or LengthOverflow
                (Option.bind (checked_add checkpoint_fixed_header length_table_len) (\<lambda>v.
                 Option.bind (checked_add v (length snapshot)) (\<lambda>v.
                 Option.bind (checked_add v pending_len) (\<lambda>v.
                 checked_add v checkpoint_fixed_suffix))))) (\<lambda>total_len.
      r_bind (checkpoint_enforce_limit ''checkpoint record bytes'' total_len
                (cl_max_record_bytes limits)) (\<lambda>_.
      r_bind (ok_or LengthOverflow (u64_of_usize total_len)) (\<lambda>total_len_u64.
      if cp_digest r \<noteq> checkpoint_digest h snapshot pending then Inl DigestMismatch else
      let output = checkpoint_magic @ be16 checkpoint_version @ be16 0 @ be64 total_len_u64 @
            be256 (cp_room_hash r) @ be64 (cp_checkpoint_generation r) @
            be64 (cp_source_delta_generation r) @ be64 (cp_source_delta_end_offset r) @
            be64 snapshot_len @ be32 pending_count @ concat (map be32 lengths) @ snapshot @
            concat pending @ be256 (cp_digest r)
      in Inr (output @ be32 (crc32 h output) @ be64 total_len_u64))))))))))))"

definition checkpoint_encode :: "hashes \<Rightarrow> checkpoint_record \<Rightarrow> checkpoint_error + bytes" where
  "checkpoint_encode h r = checkpoint_encode_with_limits h default_checkpoint_limits r"

section \<open>The decoder\<close>

text \<open>
  \<open>checkpoint_decode_header\<close> is \<open>decode_exact\<close> up to the checksum; it returns the start of
  the checksum and the cursor.
\<close>

definition checkpoint_decode_header ::
  "hashes \<Rightarrow> checkpoint_limits \<Rightarrow> bytes \<Rightarrow> checkpoint_error + (nat \<times> nat)" where
  "checkpoint_decode_header h limits input =
     (if length input < checkpoint_fixed_header + checkpoint_fixed_suffix then Inl Truncated else
      if take 4 input \<noteq> checkpoint_magic then Inl (Invalid ''bad checkpoint magic'') else
      r_bind (read_u16 LengthOverflow Truncated input 4) (\<lambda>(version, cursor).
      if version \<noteq> checkpoint_version then Inl (UnsupportedVersion version) else
      r_bind (read_u16 LengthOverflow Truncated input cursor) (\<lambda>(flags, cursor).
      if flags \<noteq> 0 then Inl (Invalid ''unsupported checkpoint flags'') else
      r_bind (read_u64 LengthOverflow Truncated input cursor) (\<lambda>(total, cursor).
      r_bind (ok_or LengthOverflow (usize_of_u64 total)) (\<lambda>total_len.
      if total_len < checkpoint_fixed_header + checkpoint_fixed_suffix then Inl Truncated else
      r_bind (checkpoint_enforce_limit ''checkpoint record bytes'' total_len
                (cl_max_record_bytes limits)) (\<lambda>_.
      if length input < total_len then Inl Truncated else
      if length input \<noteq> total_len then Inl (Invalid ''trailing bytes after checkpoint record'') else
      r_bind (ok_or LengthOverflow (checked_sub total_len 8)) (\<lambda>trailer_start.
      r_bind (read_u64 LengthOverflow Truncated input trailer_start) (\<lambda>(trailer, _).
      r_bind (ok_or LengthOverflow (u64_of_usize total_len)) (\<lambda>expected_trailer.
      if trailer \<noteq> expected_trailer then Inl (Invalid ''checkpoint length trailer mismatch'') else
      r_bind (ok_or LengthOverflow (checked_sub total_len 12)) (\<lambda>crc_start.
      r_bind (read_u32 LengthOverflow Truncated input crc_start) (\<lambda>(expected_crc, _).
      if crc32 h (take crc_start input) \<noteq> expected_crc then Inl ChecksumMismatch else
      Inr (crc_start, cursor))))))))))))"

fun checkpoint_read_lengths ::
  "checkpoint_limits \<Rightarrow> bytes \<Rightarrow> nat \<Rightarrow> nat \<Rightarrow> nat \<Rightarrow> checkpoint_error + (nat list \<times> nat \<times> nat)" where
  "checkpoint_read_lengths limits input 0 pending_len cursor = Inr ([], pending_len, cursor)"
| "checkpoint_read_lengths limits input (Suc count) pending_len cursor =
     r_bind (read_u32 LengthOverflow Truncated input cursor) (\<lambda>(w, cursor).
     r_bind (ok_or LengthOverflow (usize_of_u32 w)) (\<lambda>len.
     if len = 0 then Inl (Invalid ''pending update is empty'') else
     r_bind (checkpoint_enforce_limit ''individual pending update bytes'' len
               (cl_max_pending_update_bytes limits)) (\<lambda>_.
     r_bind (ok_or LengthOverflow (checked_add pending_len len)) (\<lambda>pending_len.
     r_bind (checkpoint_enforce_limit ''aggregate pending update bytes'' pending_len
               (cl_max_pending_updates_bytes limits)) (\<lambda>_.
     r_bind (checkpoint_read_lengths limits input count pending_len cursor)
       (\<lambda>(lengths, pending_len, cursor).
     Inr (len # lengths, pending_len, cursor)))))))"

definition checkpoint_decode_body ::
  "hashes \<Rightarrow> checkpoint_limits \<Rightarrow> bytes \<Rightarrow> nat \<Rightarrow> nat \<Rightarrow> checkpoint_error + checkpoint_record" where
  "checkpoint_decode_body h limits input crc_start cursor =
     r_bind (ok_or Truncated (checked_sub crc_start 32)) (\<lambda>digest_start.
     r_bind (read_u256 LengthOverflow Truncated input cursor) (\<lambda>(room, cursor).
     r_bind (read_u64 LengthOverflow Truncated input cursor) (\<lambda>(checkpoint_generation, cursor).
     r_bind (read_u64 LengthOverflow Truncated input cursor) (\<lambda>(source_generation, cursor).
     r_bind (read_u64 LengthOverflow Truncated input cursor) (\<lambda>(source_end, cursor).
     r_bind (read_u64 LengthOverflow Truncated input cursor) (\<lambda>(w, cursor).
     r_bind (ok_or LengthOverflow (usize_of_u64 w)) (\<lambda>snapshot_len.
     r_bind (checkpoint_enforce_limit ''checkpoint snapshot bytes'' snapshot_len
               (cl_max_snapshot_bytes limits)) (\<lambda>_.
     if snapshot_len = 0 then Inl (Invalid ''checkpoint snapshot is empty'') else
     r_bind (read_u32 LengthOverflow Truncated input cursor) (\<lambda>(w, cursor).
     r_bind (ok_or LengthOverflow (usize_of_u32 w)) (\<lambda>pending_count.
     r_bind (checkpoint_enforce_limit ''pending update count'' pending_count
               (cl_max_pending_updates limits)) (\<lambda>_.
     r_bind (checkpoint_read_lengths limits input pending_count 0 cursor)
       (\<lambda>(lengths, pending_len, cursor).
     r_bind (ok_or LengthOverflow (checked_add snapshot_len pending_len)) (\<lambda>expected_payload_len.
     r_bind (ok_or Truncated (checked_sub digest_start cursor)) (\<lambda>declared_payload_len.
     if declared_payload_len \<noteq> expected_payload_len
     then Inl (Invalid ''checkpoint lengths do not consume payload'') else
     r_bind (take_until_slice LengthOverflow Truncated input cursor snapshot_len digest_start)
       (\<lambda>(snapshot, cursor).
     r_bind (take_updates LengthOverflow Truncated input digest_start lengths cursor)
       (\<lambda>(pending, cursor).
     if cursor \<noteq> digest_start
     then Inl (Invalid ''checkpoint lengths do not consume payload'') else
     r_bind (read_u256 LengthOverflow Truncated input cursor) (\<lambda>(digest, cursor).
     if digest \<noteq> checkpoint_digest h snapshot pending then Inl DigestMismatch else
     if cursor \<noteq> crc_start then Inl (Invalid ''checkpoint digest is misplaced'') else
     Inr \<lparr>cp_room_hash = room, cp_checkpoint_generation = checkpoint_generation,
          cp_source_delta_generation = source_generation, cp_source_delta_end_offset = source_end,
          cp_snapshot = snapshot, cp_pending_updates = pending, cp_digest = digest\<rparr>)))))))))))))))))"

definition checkpoint_decode_exact ::
  "hashes \<Rightarrow> checkpoint_limits \<Rightarrow> bytes \<Rightarrow> checkpoint_error + checkpoint_record" where
  "checkpoint_decode_exact h limits input =
     r_bind (checkpoint_decode_header h limits input) (\<lambda>(crc_start, cursor).
     checkpoint_decode_body h limits input crc_start cursor)"

section \<open>The layout\<close>

definition checkpoint_total :: "checkpoint_record \<Rightarrow> nat" where
  "checkpoint_total r = checkpoint_fixed_header + length (cp_pending_updates r) * 4 +
     length (cp_snapshot r) + length (concat (cp_pending_updates r)) + checkpoint_fixed_suffix"

definition checkpoint_head :: "checkpoint_record \<Rightarrow> bytes" where
  "checkpoint_head r = checkpoint_magic @ be16 checkpoint_version @ be16 0 @
     be64 (of_nat (checkpoint_total r))"

definition checkpoint_body :: "checkpoint_record \<Rightarrow> bytes" where
  "checkpoint_body r =
     be256 (cp_room_hash r) @ be64 (cp_checkpoint_generation r) @
     be64 (cp_source_delta_generation r) @ be64 (cp_source_delta_end_offset r) @
     be64 (of_nat (length (cp_snapshot r))) @ be32 (of_nat (length (cp_pending_updates r))) @
     length_table (cp_pending_updates r) @ cp_snapshot r @ concat (cp_pending_updates r) @
     be256 (cp_digest r)"

definition checkpoint_layout :: "hashes \<Rightarrow> checkpoint_record \<Rightarrow> bytes" where
  "checkpoint_layout h r = (checkpoint_head r @ checkpoint_body r) @
     be32 (crc32 h (checkpoint_head r @ checkpoint_body r)) @ be64 (of_nat (checkpoint_total r))"

definition checkpoint_admitted :: "hashes \<Rightarrow> checkpoint_limits \<Rightarrow> checkpoint_record \<Rightarrow> bool" where
  "checkpoint_admitted h limits r \<longleftrightarrow>
     cp_snapshot r \<noteq> [] \<and> length (cp_snapshot r) \<le> cl_max_snapshot_bytes limits \<and>
     length (cp_pending_updates r) < 2 ^ 32 \<and>
     length (cp_pending_updates r) \<le> cl_max_pending_updates limits \<and>
     (\<forall>u \<in> set (cp_pending_updates r).
        u \<noteq> [] \<and> length u < 2 ^ 32 \<and> length u \<le> cl_max_pending_update_bytes limits) \<and>
     length (concat (cp_pending_updates r)) \<le> cl_max_pending_updates_bytes limits \<and>
     checkpoint_total r < usize_limit \<and> checkpoint_total r \<le> cl_max_record_bytes limits \<and>
     cp_digest r = checkpoint_digest h (cp_snapshot r) (cp_pending_updates r)"

lemma length_checkpoint_magic [simp]: "length checkpoint_magic = 4"
  by (simp add: checkpoint_magic_def)

lemma length_checkpoint_head [simp]: "length (checkpoint_head r) = 16"
  by (simp add: checkpoint_head_def)

lemma length_checkpoint_body: "length (checkpoint_body r) + 28 = checkpoint_total r"
  by (simp add: checkpoint_body_def checkpoint_total_def checkpoint_fixed_header_def
      checkpoint_fixed_suffix_def)

lemma length_checkpoint_layout [simp]: "length (checkpoint_layout h r) = checkpoint_total r"
  using length_checkpoint_body [of r] by (simp add: checkpoint_layout_def)

lemma checkpoint_enforce_limit_Inr_iff [simp]:
  "checkpoint_enforce_limit r a l = Inr u \<longleftrightarrow> a \<le> l"
  by (auto simp: checkpoint_enforce_limit_def)

lemma checkpoint_enforce_limit_run [codec_simps]:
  "a \<le> l \<Longrightarrow> checkpoint_enforce_limit r a l = Inr ()"
  by (simp add: checkpoint_enforce_limit_def)

section \<open>The encoder meets the layout\<close>

lemma checkpoint_encode_lengths:
  "traverse (\<lambda>u. if u = [] then Inl e0 else r_bind (checkpoint_enforce_limit t (length u) m) (\<lambda>_.
       ok_or e (u32_of_usize (length u)))) us = Inr ls \<longleftrightarrow>
     (\<forall>u \<in> set us. u \<noteq> [] \<and> length u < 2 ^ 32 \<and> length u \<le> m) \<and> ls = map (\<lambda>u. of_nat (length u)) us"
  by (induction us arbitrary: ls) (auto simp: r_bind_Inr_iff u32_of_usize_Some_iff split: if_splits)

lemma checkpoint_encode_sum:
  "try_fold (\<lambda>sum u. r_bind (ok_or LengthOverflow (checked_add sum (length u))) (\<lambda>next.
       r_bind (checkpoint_enforce_limit t next m) (\<lambda>_. Inr next))) s us = Inr n \<longleftrightarrow>
     n = s + length (concat us) \<and> (us \<noteq> [] \<longrightarrow> n < usize_limit \<and> n \<le> m)"
proof (induction us arbitrary: s)
  case Nil
  then show ?case by auto
next
  case (Cons u us)
  define f where "f = (\<lambda>sum (u :: 'a list). r_bind (ok_or LengthOverflow (checked_add sum (length u))) (\<lambda>next.
       r_bind (checkpoint_enforce_limit t next m) (\<lambda>_. Inr next)))"
  have step: "f s u = Inr x \<longleftrightarrow> x = s + length u \<and> x < usize_limit \<and> x \<le> m" for x
    by (auto simp: f_def r_bind_Inr_iff)
  have "try_fold f s (u # us) = Inr n \<longleftrightarrow>
      s + length u < usize_limit \<and> s + length u \<le> m \<and> try_fold f (s + length u) us = Inr n"
    by (simp add: r_bind_Inr_iff step)
  also have "\<dots> \<longleftrightarrow> s + length u < usize_limit \<and> s + length u \<le> m \<and>
      n = s + length u + length (concat us) \<and> (us \<noteq> [] \<longrightarrow> n < usize_limit \<and> n \<le> m)"
    using Cons.IH [of "s + length u"] by (simp add: f_def)
  also have "\<dots> \<longleftrightarrow> n = s + length (concat (u # us)) \<and> (u # us \<noteq> [] \<longrightarrow> n < usize_limit \<and> n \<le> m)"
    by (cases "us = []") auto
  finally show ?case by (simp only: f_def)
qed

lemma checkpoint_encode_total:
  "(Option.bind (checked_add checkpoint_fixed_header (length (cp_pending_updates r) * 4)) (\<lambda>v.
    Option.bind (checked_add v (length (cp_snapshot r))) (\<lambda>v.
    Option.bind (checked_add v (length (concat (cp_pending_updates r)))) (\<lambda>v.
    checked_add v checkpoint_fixed_suffix)))) = Some t \<longleftrightarrow>
     t = checkpoint_total r \<and> checkpoint_total r < usize_limit"
  by (auto simp: Option.bind_eq_Some_conv checkpoint_total_def)

lemma checkpoint_encode_Inr_iff:
  "checkpoint_encode_with_limits h limits r = Inr out \<longleftrightarrow>
     checkpoint_admitted h limits r \<and> out = checkpoint_layout h r"
proof -
  let ?us = "cp_pending_updates r" and ?t = "checkpoint_total r"
  have t: "length ?us * 4 < usize_limit" "length (cp_snapshot r) < 2 ^ 64"
    "length (concat ?us) < usize_limit" "u64_of_usize ?t = Some (of_nat ?t)" if "?t < usize_limit"
    using that by (simp_all add: checkpoint_total_def usize_limit_def)
  have "checkpoint_encode_with_limits h limits r = Inr out \<longleftrightarrow>
      cp_snapshot r \<noteq> [] \<and> length (cp_snapshot r) \<le> cl_max_snapshot_bytes limits \<and>
      length ?us \<le> cl_max_pending_updates limits \<and> length (cp_snapshot r) < 2 ^ 64 \<and>
      length ?us < 2 ^ 32 \<and>
      (\<forall>u \<in> set ?us. u \<noteq> [] \<and> length u < 2 ^ 32 \<and> length u \<le> cl_max_pending_update_bytes limits) \<and>
      (?us \<noteq> [] \<longrightarrow> length (concat ?us) < usize_limit \<and>
         length (concat ?us) \<le> cl_max_pending_updates_bytes limits) \<and>
      length ?us * 4 < usize_limit \<and> ?t < usize_limit \<and> ?t \<le> cl_max_record_bytes limits \<and>
      u64_of_usize ?t = Some (of_nat ?t) \<and> cp_digest r = checkpoint_digest h (cp_snapshot r) ?us \<and>
      out = checkpoint_layout h r"
    unfolding checkpoint_encode_with_limits_def Let_def
    by (simp add: r_bind_Inr_iff checkpoint_encode_lengths checkpoint_encode_sum
        u32_of_usize_Some_iff u64_of_usize_Some_iff checkpoint_encode_total
        checkpoint_layout_def checkpoint_head_def checkpoint_body_def length_table_def comp_def
        cong: conj_cong if_cong) auto
  also have "\<dots> \<longleftrightarrow> checkpoint_admitted h limits r \<and> out = checkpoint_layout h r"
    unfolding checkpoint_admitted_def using t by auto
  finally show ?thesis .
qed

section \<open>The decoder accepts exactly the layout\<close>

lemma checkpoint_read_lengths_run:
  assumes "rest_at F c (length_table us @ r)"
    and "\<forall>u \<in> set us. u \<noteq> [] \<and> length u < 2 ^ 32 \<and> length u \<le> cl_max_pending_update_bytes limits"
    and "s + length (concat us) \<le> cl_max_pending_updates_bytes limits"
    and "s + length (concat us) < usize_limit" and "c + length us * 4 < usize_limit"
  shows "checkpoint_read_lengths limits F (length us) s c =
    Inr (map length us, s + length (concat us), c + length us * 4)"
  using assms
proof (induction us arbitrary: s c)
  case Nil
  then show ?case by simp
next
  case (Cons u us)
  have here: "rest_at F c (be32 (of_nat (length u)) @ length_table us @ r)"
    using Cons.prems(1) by simp
  then have "read_u32 LengthOverflow Truncated F c = Inr (of_nat (length u), c + 4)"
    using Cons.prems(5) by (intro rest_at_read_u32) auto
  moreover have "unat (of_nat (length u) :: u32) = length u"
    using Cons.prems(2) by (simp add: unat_of_nat)
  moreover have "checkpoint_read_lengths limits F (length us) (s + length u) (c + 4) =
      Inr (map length us, (s + length u) + length (concat us), (c + 4) + length us * 4)"
    using Cons.prems by (intro Cons.IH rest_at_next [OF here]) auto
  ultimately show ?case
    using Cons.prems by (simp add: codec_simps)
qed

lemma checkpoint_decode_body_run:
  assumes adm: "checkpoint_admitted h limits r" and F: "rest_at F 16 (checkpoint_body r @ z)"
  shows "checkpoint_decode_body h limits F (checkpoint_total r - 12) 16 = Inr r"
proof -
  let ?us = "cp_pending_updates r" and ?sn = "cp_snapshot r" and ?E = LengthOverflow and ?T = Truncated
  have lim: "128 + length ?us * 4 + length ?sn + length (concat ?us) < usize_limit"
    using adm by (simp add: checkpoint_admitted_def checkpoint_total_def checkpoint_fixed_header_def
        checkpoint_fixed_suffix_def)
  have crc: "checkpoint_total r - 12 = 116 + length ?us * 4 + length ?sn + length (concat ?us)"
    by (simp add: checkpoint_total_def checkpoint_fixed_header_def checkpoint_fixed_suffix_def)
  define m where "m = 84 + length ?us * 4"
  define d where "d = m + length ?sn"
  define e where "e = d + length (concat ?us)"
  have c0: "rest_at F 16 (be256 (cp_room_hash r) @ be64 (cp_checkpoint_generation r) @
      be64 (cp_source_delta_generation r) @ be64 (cp_source_delta_end_offset r) @
      be64 (of_nat (length ?sn)) @ be32 (of_nat (length ?us)) @ length_table ?us @ ?sn @ concat ?us @
      be256 (cp_digest r) @ z)"
    using F by (simp add: checkpoint_body_def)
  note c1 = rest_at_step [OF c0, of 48, simplified]
  note c2 = rest_at_step [OF c1, of 56, simplified]
  note c3 = rest_at_step [OF c2, of 64, simplified]
  note c4 = rest_at_step [OF c3, of 72, simplified]
  note c5 = rest_at_step [OF c4, of 80, simplified]
  note c6 = rest_at_step [OF c5, of 84, simplified]
  have c7: "rest_at F m (?sn @ concat ?us @ be256 (cp_digest r) @ z)"
    by (rule rest_at_step [OF c6]) (simp add: m_def)
  have c8: "rest_at F d (concat ?us @ be256 (cp_digest r) @ z)"
    by (rule rest_at_step [OF c7]) (simp add: d_def)
  have c9: "rest_at F e (be256 (cp_digest r) @ z)"
    by (rule rest_at_step [OF c8]) (simp add: e_def)
  have u: "n < usize_limit" if "n \<le> 128" for n
    using that lim by simp
  have bounds: "length ?sn < 2 ^ 64" "length ?us < 2 ^ 32"
    using lim adm by (simp_all add: usize_limit_def checkpoint_admitted_def)
  then have words: "unat (of_nat (length ?sn) :: u64) = length ?sn"
    "unat (of_nat (length ?us) :: u32) = length ?us"
    by (simp_all add: unat_of_nat)
  have r6: "checkpoint_read_lengths limits F (length ?us) 0 84 =
      Inr (map length ?us, length (concat ?us), m)"
    using checkpoint_read_lengths_run [OF c6, of limits 0] adm lim
    by (simp add: checkpoint_admitted_def m_def)
  have r7: "take_until_slice ?E ?T F m (length ?sn) e = Inr (?sn, d)"
    by (rule rest_at_take_until [OF c7]) (use lim in \<open>auto simp: m_def d_def e_def\<close>)
  have r8: "take_updates ?E ?T F e (map length ?us) d = Inr (?us, e)"
    using take_updates_run [OF c8, of e] lim by (simp add: m_def d_def e_def)
  have r9: "read_u256 ?E ?T F e = Inr (cp_digest r, e + 32)"
    by (rule rest_at_read_u256 [OF c9]) (use lim in \<open>auto simp: m_def d_def e_def\<close>)
  note reads = rest_at_read_u256 [OF c0 _ u, of 48] rest_at_read_u64 [OF c1 _ u, of 56]
    rest_at_read_u64 [OF c2 _ u, of 64] rest_at_read_u64 [OF c3 _ u, of 72]
    rest_at_read_u64 [OF c4 _ u, of 80] rest_at_read_u32 [OF c5 _ u, of 84] r6 r7 r8 r9
  have sizes: "checked_sub (checkpoint_total r - 12) 32 = Some e"
    "checked_add (length ?sn) (length (concat ?us)) = Some (length ?sn + length (concat ?us))"
    "checked_sub e m = Some (length ?sn + length (concat ?us))" "e + 32 = checkpoint_total r - 12"
    using lim by (auto simp: crc m_def d_def e_def)
  have guards: "checkpoint_enforce_limit t (length ?sn) (cl_max_snapshot_bytes limits) = Inr ()"
    "checkpoint_enforce_limit t' (length ?us) (cl_max_pending_updates limits) = Inr ()"
    "?sn \<noteq> []" "checkpoint_digest h ?sn ?us = cp_digest r" for t t'
    using adm by (auto simp: checkpoint_admitted_def codec_simps)
  have eta: "\<lparr>cp_room_hash = cp_room_hash r, cp_checkpoint_generation = cp_checkpoint_generation r,
      cp_source_delta_generation = cp_source_delta_generation r,
      cp_source_delta_end_offset = cp_source_delta_end_offset r, cp_snapshot = ?sn,
      cp_pending_updates = ?us, cp_digest = cp_digest r\<rparr> = r"
    by simp
  show ?thesis
    by (simp add: checkpoint_decode_body_def reads words guards sizes eta)
qed

lemma checkpoint_decode_header_run:
  assumes adm: "checkpoint_admitted h limits r"
  shows "checkpoint_decode_header h limits (checkpoint_layout h r) = Inr (checkpoint_total r - 12, 16)"
proof -
  let ?F = "checkpoint_layout h r" and ?t = "checkpoint_total r"
  let ?E = LengthOverflow and ?T = Truncated and ?crc = "crc32 h (checkpoint_head r @ checkpoint_body r)"
  have t: "128 \<le> ?t" "?t < usize_limit" "?t \<le> cl_max_record_bytes limits"
    using adm by (auto simp: checkpoint_admitted_def checkpoint_total_def checkpoint_fixed_header_def
        checkpoint_fixed_suffix_def)
  have body: "length (checkpoint_head r @ checkpoint_body r) = ?t - 12"
    using length_checkpoint_body [of r] by simp
  have c0: "rest_at ?F 4 (be16 checkpoint_version @ be16 0 @ be64 (of_nat ?t) @ drop 16 ?F)"
    using t by (simp add: rest_at_def checkpoint_layout_def checkpoint_head_def)
  note c1 = rest_at_step [OF c0, of 6, simplified]
  note c2 = rest_at_step [OF c1, of 8, simplified]
  have u: "n < usize_limit" if "n \<le> 128" for n
    using that t by simp
  have cr: "rest_at ?F (?t - 12) (be32 ?crc @ be64 (of_nat ?t) @ [])"
    using rest_at_append [of "checkpoint_head r @ checkpoint_body r"] unfolding body checkpoint_layout_def
    by simp
  have r3: "read_u32 ?E ?T ?F (?t - 12) = Inr (?crc, ?t - 8)"
    by (rule rest_at_read_u32 [OF cr]) (use t in auto)
  have "rest_at ?F (?t - 8) (be64 (of_nat ?t) @ [])"
    by (rule rest_at_step [OF cr]) (use t in auto)
  then have r4: "read_u64 ?E ?T ?F (?t - 8) = Inr (of_nat ?t, ?t)"
    by (rule rest_at_read_u64) (use t in auto)
  note reads = rest_at_read_u16 [OF c0 _ u, of 6] rest_at_read_u16 [OF c1 _ u, of 8]
    rest_at_read_u64 [OF c2 _ u, of 16] r3 r4
  have magic: "take 4 ?F = checkpoint_magic" "take (?t - 12) ?F = checkpoint_head r @ checkpoint_body r"
    using body by (simp_all add: checkpoint_layout_def checkpoint_head_def)
  have word: "unat (of_nat ?t :: u64) = ?t"
    using t by (simp add: unat_of_nat usize_limit_def)
  show ?thesis
    using t by (simp add: checkpoint_decode_header_def reads magic word codec_simps
        checkpoint_fixed_header_def checkpoint_fixed_suffix_def)
qed

lemma checkpoint_decode_run:
  assumes "checkpoint_admitted h limits r"
  shows "checkpoint_decode_exact h limits (checkpoint_layout h r) = Inr r"
proof -
  have "rest_at (checkpoint_layout h r) 16 (checkpoint_body r @
      be32 (crc32 h (checkpoint_head r @ checkpoint_body r)) @ be64 (of_nat (checkpoint_total r)))"
    using rest_at_append [of "checkpoint_head r"] by (simp add: checkpoint_layout_def)
  from checkpoint_decode_body_run [OF assms this] show ?thesis
    by (simp add: checkpoint_decode_exact_def checkpoint_decode_header_run [OF assms])
qed

lemma checkpoint_read_lengths_prefix:
  assumes "checkpoint_read_lengths limits F n s c = Inr (ls, t, c')"
  shows "length ls = n \<and> t = s + sum_list ls \<and> c' = c + n * 4 \<and>
    take c' F = take c F @ concat (map (\<lambda>l. be32 (of_nat l)) ls) \<and>
    (\<forall>l \<in> set ls. l \<noteq> 0 \<and> l < 2 ^ 32 \<and> l \<le> cl_max_pending_update_bytes limits) \<and>
    (n > 0 \<longrightarrow> t \<le> cl_max_pending_updates_bytes limits)"
  using assms
proof (induction n arbitrary: s c ls)
  case 0
  then show ?case by simp
next
  case (Suc n)
  from Suc.prems obtain w c1 ls' where
    r: "read_u32 LengthOverflow Truncated F c = Inr (w, c1)" and
    le: "unat w \<noteq> 0" "unat w \<le> cl_max_pending_update_bytes limits"
      "s + unat w \<le> cl_max_pending_updates_bytes limits" and
    rec: "checkpoint_read_lengths limits F n (s + unat w) c1 = Inr (ls', t, c')" and
    ls: "ls = unat w # ls'"
    by (auto elim!: r_bind_InrE split: if_splits)
  have "unat w < 2 ^ 32"
    using unat_bound [of w] by simp
  with Suc.IH [OF rec] read_u32_prefix [OF r] le ls show ?case
    by (cases n) auto
qed

lemma checkpoint_decode_body_prefix:
  assumes "checkpoint_decode_body h limits F crc_start 16 = Inr r"
  shows "take crc_start F = take 16 F @ checkpoint_body r \<and> crc_start + 12 = checkpoint_total r \<and>
    (checkpoint_total r < usize_limit \<longrightarrow> checkpoint_total r \<le> cl_max_record_bytes limits \<longrightarrow>
      checkpoint_admitted h limits r)"
proof -
  from assms obtain room c1 cg c2 sg c3 se c4 sl c5 cnt c6 ls tot c7 sn c8 us c9 dig where
    r: "read_u256 LengthOverflow Truncated F 16 = Inr (room, c1)"
      "read_u64 LengthOverflow Truncated F c1 = Inr (cg, c2)"
      "read_u64 LengthOverflow Truncated F c2 = Inr (sg, c3)"
      "read_u64 LengthOverflow Truncated F c3 = Inr (se, c4)"
      "read_u64 LengthOverflow Truncated F c4 = Inr (sl, c5)"
      "read_u32 LengthOverflow Truncated F c5 = Inr (cnt, c6)"
      "checkpoint_read_lengths limits F (unat cnt) 0 c6 = Inr (ls, tot, c7)"
      "take_until_slice LengthOverflow Truncated F c7 (unat sl) (crc_start - 32) = Inr (sn, c8)"
      "take_updates LengthOverflow Truncated F (crc_start - 32) ls c8 = Inr (us, c9)"
      "read_u256 LengthOverflow Truncated F (crc_start - 32) = Inr (dig, crc_start)"
    and g: "unat sl \<le> cl_max_snapshot_bytes limits" "unat sl \<noteq> 0"
      "unat cnt \<le> cl_max_pending_updates limits" "32 \<le> crc_start" "c9 = crc_start - 32"
      "dig = checkpoint_digest h sn us"
    and rec: "r = \<lparr>cp_room_hash = room, cp_checkpoint_generation = cg, cp_source_delta_generation = sg,
        cp_source_delta_end_offset = se, cp_snapshot = sn, cp_pending_updates = us, cp_digest = dig\<rparr>"
    by (auto simp: checkpoint_decode_body_def elim!: r_bind_InrE split: if_splits)
  note p = r(1) [THEN read_u256_prefix] r(2) [THEN read_u64_prefix] r(3) [THEN read_u64_prefix]
    r(4) [THEN read_u64_prefix] r(5) [THEN read_u64_prefix] r(6) [THEN read_u32_prefix]
    r(7) [THEN checkpoint_read_lengths_prefix] r(8) [THEN take_until_prefix]
    r(9) [THEN take_updates_prefix] r(10) [THEN read_u256_prefix]
  have ls: "ls = map length us" "length us = unat cnt" and sn: "length sn = unat sl"
    using p(7,8,9) by (auto simp flip: length_map [of length])
  have w: "of_nat (length sn) = sl" "of_nat (length us) = cnt"
    by (simp_all add: ls(2) sn)
  have table: "concat (map (\<lambda>l. be32 (of_nat l)) ls) = length_table us"
    by (simp add: ls length_table_def comp_def)
  have body: "checkpoint_body r = be256 room @ be64 cg @ be64 sg @ be64 se @ be64 sl @ be32 cnt @
      length_table us @ sn @ concat us @ be256 dig"
    by (simp add: rec checkpoint_body_def w)
  have t7: "take c7 F = take c6 F @ length_table us" and t9: "take c9 F = take c8 F @ concat us"
    using p(7,9) table by auto
  have t10: "take crc_start F = take c9 F @ be256 dig"
    using p(10) g(5) by simp
  have bytes: "take crc_start F = take 16 F @ checkpoint_body r"
    by (simp only: p(1-6,8) [THEN conjunct1] t7 t9 t10 body append_assoc)
  have sum: "sum_list (map length us) = length (concat us)"
    by (simp add: length_concat)
  have total: "crc_start + 12 = checkpoint_total r"
    using p [THEN conjunct2] g(4,5) ls sn sum
    by (simp add: rec checkpoint_total_def checkpoint_fixed_header_def checkpoint_fixed_suffix_def)
  have bound: "unat cnt < 2 ^ 32"
    using unat_bound [of cnt] by simp
  have pend: "length (concat us) \<le> cl_max_pending_updates_bytes limits"
    using p(7) ls sum by (cases "us = []") auto
  have "\<forall>u \<in> set us. u \<noteq> [] \<and> length u < 2 ^ 32 \<and> length u \<le> cl_max_pending_update_bytes limits"
    using p(7) ls(1) by auto
  with bytes total bound g sn ls(2) pend show ?thesis
    by (auto simp: checkpoint_admitted_def rec)
qed

lemma checkpoint_decode_header_prefix:
  assumes "checkpoint_decode_header h limits F = Inr (crc_start, c)"
  shows "c = 16 \<and> crc_start + 12 = length F \<and> length F < usize_limit \<and>
    length F \<le> cl_max_record_bytes limits \<and>
    take 16 F = checkpoint_magic @ be16 checkpoint_version @ be16 0 @ be64 (of_nat (length F)) \<and>
    F = take crc_start F @ be32 (crc32 h (take crc_start F)) @ be64 (of_nat (length F))"
proof -
  from assms obtain w trailer c1 c2 c' c'' where
    magic: "take 4 F = checkpoint_magic" and
    r: "read_u16 LengthOverflow Truncated F 4 = Inr (checkpoint_version, c1)"
      "read_u16 LengthOverflow Truncated F c1 = Inr (0, c2)"
      "read_u64 LengthOverflow Truncated F c2 = Inr (w, c)"
      "read_u64 LengthOverflow Truncated F (length F - 8) = Inr (trailer, c')"
      "read_u32 LengthOverflow Truncated F crc_start = Inr (crc32 h (take crc_start F), c'')"
    and t: "length F = unat w" "128 \<le> length F" "length F \<le> cl_max_record_bytes limits"
    and tr: "trailer = of_nat (length F)" and cs: "crc_start = length F - 12"
    by (auto simp: checkpoint_decode_header_def checkpoint_fixed_header_def checkpoint_fixed_suffix_def
        not_less elim!: r_bind_InrE split: if_splits)
  note p = r(1,2) [THEN read_u16_prefix] r(3,4) [THEN read_u64_prefix] r(5) [THEN read_u32_prefix]
  have w: "of_nat (length F) = w" and lim: "length F < usize_limit"
    by (simp_all add: t(1))
  have "take 16 F = checkpoint_magic @ be16 checkpoint_version @ be16 0 @ be64 (of_nat (length F))"
    using p(1-3) magic w by auto
  moreover have "F = take crc_start F @ be32 (crc32 h (take crc_start F)) @ be64 (of_nat (length F))"
  proof -
    have "crc_start + 4 = length F - 8" "length F - 8 + 8 = length F"
      using t(2) cs by auto
    then have "take (length F - 8) F = take crc_start F @ be32 (crc32 h (take crc_start F))"
      and "take (length F) F = take (length F - 8) F @ be64 (of_nat (length F))"
      using p(4,5) tr by auto
    then show ?thesis by simp
  qed
  ultimately show ?thesis
    using p(1-3) [THEN conjunct2] t lim cs by simp
qed

theorem checkpoint_decode_Inr_iff:
  "checkpoint_decode_exact h limits input = Inr r \<longleftrightarrow>
    checkpoint_admitted h limits r \<and> input = checkpoint_layout h r"
proof
  assume "checkpoint_decode_exact h limits input = Inr r"
  then obtain cs c where
    hd: "checkpoint_decode_header h limits input = Inr (cs, c)" and
    bd: "checkpoint_decode_body h limits input cs c = Inr r"
    by (auto simp: checkpoint_decode_exact_def elim!: r_bind_InrE)
  note ph = checkpoint_decode_header_prefix [OF hd]
  with bd have "checkpoint_decode_body h limits input cs 16 = Inr r" by simp
  note pb = checkpoint_decode_body_prefix [OF this]
  have len: "length input = checkpoint_total r"
    using ph pb by simp
  have "take 16 input = checkpoint_head r"
    using ph len by (simp add: checkpoint_head_def)
  then have "take cs input = checkpoint_head r @ checkpoint_body r"
    using pb by simp
  then have "input = checkpoint_layout h r"
    using ph len by (metis checkpoint_layout_def append_assoc)
  with pb ph len show "checkpoint_admitted h limits r \<and> input = checkpoint_layout h r" by simp
qed (use checkpoint_decode_run in blast)

section \<open>Properties\<close>

text \<open>
  C20. Encoding and exact decoding of checkpoint records are inverse, in both directions and
  under the same limits: an input decodes to a record exactly when it is the encoding of it.
\<close>

theorem checkpoint_codec_inverse:
  "checkpoint_decode_exact h limits input = Inr r \<longleftrightarrow>
     checkpoint_encode_with_limits h limits r = Inr input"
  by (auto simp: checkpoint_decode_Inr_iff checkpoint_encode_Inr_iff)

end
