(* ===== verification/Loro.thy ===== *)
theory Loro
  imports Prelude
begin

text \<open>
  The part of the \<open>loro\<close> crate the gateway calls, as a record of functions: documents,
  version vectors and deep values are type parameters, and an operation that mutates a
  document in place returns the new document. After a failed import the gateway always drops
  the document, so a failure carries only its message. Nothing is assumed of these functions
  here; what a theorem needs of them it says. A small document type at the end makes the
  development executable for the witnesses.
\<close>

section \<open>The interface\<close>

text \<open>\<open>EncodedBlobMode\<close>, as \<open>decode_import_blob_meta\<close> reports it.\<close>

datatype blob_mode =
    Snapshot
  | Updates
  | ShallowSnapshot
  | OutdatedSnapshot
  | OutdatedRle

record ('d, 'v, 'x) loro =
  lo_new :: 'd
  lo_from_snapshot :: "bytes \<Rightarrow> string + 'd"
  lo_export_snapshot :: "'d \<Rightarrow> string + bytes"
  lo_export_updates :: "'d \<Rightarrow> 'v \<Rightarrow> string + bytes"
  lo_import :: "'d \<Rightarrow> bytes \<Rightarrow> string + ('d \<times> bool)"
  lo_import_batch :: "'d \<Rightarrow> bytes list \<Rightarrow> string + ('d \<times> bool)"
  lo_blob_mode :: "bytes \<Rightarrow> string + blob_mode"
  lo_oplog_vv :: "'d \<Rightarrow> 'v"
  lo_vv_encode :: "'v \<Rightarrow> bytes"
  lo_vv_decode :: "bytes \<Rightarrow> string + 'v"
  lo_len_ops :: "'d \<Rightarrow> nat"
  lo_deep_value :: "'d \<Rightarrow> 'x"

text \<open>The observable state of a document: its value and its version.\<close>

definition same_document :: "('d, 'v, 'x) loro \<Rightarrow> 'd \<Rightarrow> 'd \<Rightarrow> bool" where
  "same_document lo d d' \<longleftrightarrow>
     lo_deep_value lo d = lo_deep_value lo d' \<and> lo_oplog_vv lo d = lo_oplog_vv lo d'"

lemma same_document_sym: "same_document lo d d' \<Longrightarrow> same_document lo d' d"
  by (simp add: same_document_def)

section \<open>A small document type\<close>

text \<open>
  A document is the list of the operations it holds, one byte each. A snapshot is the byte 1
  and the operations; an update is the byte 2 and operations, or the byte 3, the operation it
  depends on, and operations, which stay pending while the dependency is missing.
\<close>

definition toy_add :: "bytes \<Rightarrow> bytes \<Rightarrow> bytes" where
  "toy_add d ops = foldl (\<lambda>d x. if x \<in> set d then d else d @ [x]) d ops"

fun toy_import :: "bytes \<Rightarrow> bytes \<Rightarrow> string + (bytes \<times> bool)" where
  "toy_import d [] = Inl ''empty blob''"
| "toy_import d (tag # ops) =
     (if tag = 1 \<or> tag = 2 then Inr (toy_add d ops, False)
      else if tag = 3 then
        (case ops of
           [] \<Rightarrow> Inl ''no dependency''
         | dep # ops \<Rightarrow> if dep \<in> set d then Inr (toy_add d ops, False) else Inr (d, True))
      else Inl ''unknown blob'')"

fun toy_import_batch :: "bytes \<Rightarrow> bytes list \<Rightarrow> string + (bytes \<times> bool)" where
  "toy_import_batch d [] = Inr (d, False)"
| "toy_import_batch d (u # us) =
     r_bind (toy_import d u) (\<lambda>(d, p). r_bind (toy_import_batch d us) (\<lambda>(d, q). Inr (d, p \<or> q)))"

fun toy_from_snapshot :: "bytes \<Rightarrow> string + bytes" where
  "toy_from_snapshot [] = Inl ''empty snapshot''"
| "toy_from_snapshot (tag # ops) = (if tag = 1 then Inr (toy_add [] ops) else Inl ''not a snapshot'')"

fun toy_blob_mode :: "bytes \<Rightarrow> string + blob_mode" where
  "toy_blob_mode [] = Inl ''empty blob''"
| "toy_blob_mode (tag # ops) =
     (if tag = 1 then Inr Snapshot else if tag = 2 \<or> tag = 3 then Inr Updates
      else if tag = 4 then Inr ShallowSnapshot else Inl ''unknown blob'')"

definition toy_loro :: "(bytes, bytes, bytes) loro" where
  "toy_loro = \<lparr>lo_new = [], lo_from_snapshot = toy_from_snapshot,
     lo_export_snapshot = (\<lambda>d. Inr (1 # d)),
     lo_export_updates = (\<lambda>d v. Inr (2 # [x \<leftarrow> d. x \<notin> set v])),
     lo_import = toy_import, lo_import_batch = toy_import_batch, lo_blob_mode = toy_blob_mode,
     lo_oplog_vv = id, lo_vv_encode = id,
     lo_vv_decode = (\<lambda>bs. if 255 \<in> set bs then Inl ''bad version'' else Inr bs),
     lo_len_ops = length, lo_deep_value = id\<rparr>"

lemma toy_loro_sel [simp]:
  "lo_new toy_loro = []" "lo_from_snapshot toy_loro = toy_from_snapshot"
  "lo_export_snapshot toy_loro = (\<lambda>d. Inr (1 # d))"
  "lo_export_updates toy_loro = (\<lambda>d v. Inr (2 # [x \<leftarrow> d. x \<notin> set v]))"
  "lo_import toy_loro = toy_import" "lo_import_batch toy_loro = toy_import_batch"
  "lo_blob_mode toy_loro = toy_blob_mode" "lo_oplog_vv toy_loro = id" "lo_vv_encode toy_loro = id"
  "lo_vv_decode toy_loro = (\<lambda>bs. if 255 \<in> set bs then Inl ''bad version'' else Inr bs)"
  "lo_len_ops toy_loro = length" "lo_deep_value toy_loro = id"
  by (simp_all add: toy_loro_def)

end
