(* ===== verification/Checkpoint_Build.thy ===== *)
theory Checkpoint_Build
  imports Checkpoint Loro "HOL-Library.Sublist"
begin

text \<open>
  \<open>build_checkpoint_record\<close> of \<open>src/checkpoint.rs\<close>: a checkpoint of a live document is its
  snapshot and the retained updates that the snapshot leaves pending, and it is validated by
  restoring it before it is returned.
\<close>

datatype checkpoint_build_error =
    SnapshotExport string
  | SnapshotRestore string
  | HistoryImport string
  | Validation string

text \<open>The loop that keeps the updates a probe of the snapshot reports as pending.\<close>

fun checkpoint_pending ::
  "('d, 'v, 'x) loro \<Rightarrow> bytes \<Rightarrow> bytes list \<Rightarrow> checkpoint_build_error + bytes list" where
  "checkpoint_pending lo snapshot [] = Inr []"
| "checkpoint_pending lo snapshot (update # history) =
     r_bind (map_err SnapshotRestore (lo_from_snapshot lo snapshot)) (\<lambda>probe.
     r_bind (map_err HistoryImport (lo_import lo probe update)) (\<lambda>(_, pending).
     r_bind (checkpoint_pending lo snapshot history) (\<lambda>rest.
     Inr (if pending then update # rest else rest))))"

definition build_checkpoint_record ::
  "hashes \<Rightarrow> ('d, 'v, 'x) loro \<Rightarrow> string \<Rightarrow> u64 \<Rightarrow> u64 \<Rightarrow> u64 \<Rightarrow> 'd \<Rightarrow> bytes list \<Rightarrow>
   checkpoint_build_error + checkpoint_record" where
  "build_checkpoint_record h lo room_id checkpoint_generation source_delta_generation
       source_delta_end_offset doc history =
     r_bind (map_err SnapshotExport (lo_export_snapshot lo doc)) (\<lambda>snapshot.
     r_bind (checkpoint_pending lo snapshot history) (\<lambda>pending.
     r_bind (map_err SnapshotRestore (lo_from_snapshot lo snapshot)) (\<lambda>recovered.
     r_bind (if pending = [] then Inr recovered
             else map_err HistoryImport (r_bind (lo_import_batch lo recovered pending) (\<lambda>(d, _). Inr d)))
       (\<lambda>recovered.
     if lo_deep_value lo recovered \<noteq> lo_deep_value lo doc \<or>
        lo_oplog_vv lo recovered \<noteq> lo_oplog_vv lo doc
     then Inl (Validation ''snapshot plus retained updates does not reconstruct the live document'')
     else Inr (checkpoint_record_new h room_id checkpoint_generation source_delta_generation
                 source_delta_end_offset snapshot pending)))))"

text \<open>
  How recovery turns a checkpoint back into a document (\<open>recover_from_manifest\<close> in
  \<open>src/recovery.rs\<close>, between the link check and the replay of the active delta stream).
\<close>

definition restore_checkpoint :: "('d, 'v, 'x) loro \<Rightarrow> checkpoint_record \<Rightarrow> string + 'd" where
  "restore_checkpoint lo r =
     r_bind (lo_from_snapshot lo (cp_snapshot r)) (\<lambda>doc.
     if cp_pending_updates r = [] then Inr doc
     else r_bind (lo_import_batch lo doc (cp_pending_updates r)) (\<lambda>(d, _). Inr d))"

lemma checkpoint_pending_subseq:
  "checkpoint_pending lo snapshot history = Inr pending \<Longrightarrow>
     subseq pending history \<and>
     (\<forall>u \<in> set pending. \<exists>d d'. lo_from_snapshot lo snapshot = Inr d \<and> lo_import lo d u = Inr (d', True))"
  by (induction history arbitrary: pending) (fastforce elim!: r_bind_InrE split: if_splits)+

lemma build_checkpoint_Inr:
  assumes "build_checkpoint_record h lo room cg sg se doc history = Inr r"
  obtains snapshot pending d where "lo_export_snapshot lo doc = Inr snapshot"
    and "checkpoint_pending lo snapshot history = Inr pending"
    and "r = checkpoint_record_new h room cg sg se snapshot pending"
    and "restore_checkpoint lo r = Inr d" and "same_document lo d doc"
  using assms
  by (auto simp: build_checkpoint_record_def restore_checkpoint_def checkpoint_record_new_def
      same_document_def elim!: r_bind_InrE split: if_splits)

section \<open>Properties\<close>

text \<open>
  C21. A checkpoint that is built restores the live document: importing its pending updates
  into its snapshot, as recovery does, succeeds and yields a document with the same deep
  value and the same version as the one the checkpoint was built from. Its pending updates
  are retained updates in their original order, each one left pending by the snapshot alone,
  and it carries the room, the generations and the digest of its own contents.
\<close>

theorem checkpoint_build_restores:
  assumes "build_checkpoint_record h lo room cg sg se doc history = Inr r"
  shows "(\<exists>d. restore_checkpoint lo r = Inr d \<and> same_document lo d doc) \<and>
    subseq (cp_pending_updates r) history \<and>
    (\<forall>u \<in> set (cp_pending_updates r). \<exists>d d'. lo_from_snapshot lo (cp_snapshot r) = Inr d \<and>
       lo_import lo d u = Inr (d', True)) \<and>
    lo_export_snapshot lo doc = Inr (cp_snapshot r) \<and> checkpoint_belongs_to_room h r room \<and>
    cp_checkpoint_generation r = cg \<and> cp_source_delta_generation r = sg \<and>
    cp_source_delta_end_offset r = se \<and>
    cp_digest r = checkpoint_digest h (cp_snapshot r) (cp_pending_updates r)"
  using assms
proof (rule build_checkpoint_Inr)
  fix snapshot pending d
  assume snap: "lo_export_snapshot lo doc = Inr snapshot"
    and pend: "checkpoint_pending lo snapshot history = Inr pending"
    and r: "r = checkpoint_record_new h room cg sg se snapshot pending"
    and d: "restore_checkpoint lo r = Inr d" "same_document lo d doc"
  from checkpoint_pending_subseq [OF pend] snap d show ?thesis
    by (auto simp: r checkpoint_record_new_def checkpoint_belongs_to_room_def)
qed

lemma toy_build:
  "build_checkpoint_record sample_hashes toy_loro ''room-a'' 4 4 123 [5, 6] [[2, 5], [3, 9, 8], [2, 6]] =
     Inr (checkpoint_record_new sample_hashes ''room-a'' 4 4 123 [1, 5, 6] [[3, 9, 8]])"
  by (simp add: build_checkpoint_record_def toy_add_def)

theorem checkpoint_build_restores_witness:
  "\<exists>d. restore_checkpoint toy_loro
     (checkpoint_record_new sample_hashes ''room-a'' 4 4 123 [1, 5, 6] [[3, 9, 8]]) = Inr d \<and>
   same_document toy_loro d [5, 6]"
  using checkpoint_build_restores [OF toy_build] by blast

end
