(* ===== verification/Memory_Store.thy ===== *)
theory Memory_Store
  imports Store
begin

text \<open>
  The in-memory store of \<open>tests/gateway.rs\<close>, the provider of the store interface that the
  repository itself ships: streams, the last accepted record of every producer, and a script
  of behaviours that decides how the next append ends. It meets \<open>append_only_store\<close> for
  every script, and \<open>exclusive_store\<close> for every script that does not corrupt what it commits.
  A behaviour \<open>WaitFor\<close> commits once its gate opens; the model runs operations one after
  another, so the gate itself is not represented.
\<close>

section \<open>State\<close>

datatype behavior =
    Commit
  | Reject
  | AmbiguousOutcome
  | DuplicateAt u64
  | CommitThenAmbiguous
  | CommitCorruptThenAmbiguous
  | CommitThenReadsUnavailable
  | WaitFor

record producer_record =
  pr_sequence :: u64
  pr_next_offset :: u64

record memory_state =
  ms_streams :: "string \<rightharpoonup> bytes"
  ms_producers :: "string \<times> string \<rightharpoonup> producer_record"
  ms_behaviors :: "behavior list"
  ms_attempts :: "(producer_tuple \<times> bytes) list"
  ms_unavailable :: bool

definition memory_new :: memory_state where
  "memory_new = \<lparr>ms_streams = Map.empty, ms_producers = Map.empty, ms_behaviors = [],
     ms_attempts = [], ms_unavailable = False\<rparr>"

definition stream_bytes :: "memory_state \<Rightarrow> string \<Rightarrow> bytes" where
  "stream_bytes s stream = (case ms_streams s stream of None \<Rightarrow> [] | Some bs \<Rightarrow> bs)"

definition set_stream_bytes :: "string \<Rightarrow> bytes \<Rightarrow> memory_state \<Rightarrow> memory_state" where
  "set_stream_bytes stream bs s = s\<lparr>ms_streams := (ms_streams s)(stream \<mapsto> bs)\<rparr>"

section \<open>Operations\<close>

definition memory_commit ::
  "string \<Rightarrow> producer_tuple \<Rightarrow> bytes \<Rightarrow> memory_state \<Rightarrow> (store_error + u64) \<times> memory_state" where
  "memory_commit stream producer body s =
     (let bs = stream_bytes s stream @ body;
          s = set_stream_bytes stream bs s
      in case u64_of_usize (length bs) of
           None \<Rightarrow> (Inl (Integrity ''test stream is too large''), s)
         | Some next_offset \<Rightarrow>
             (Inr next_offset, s\<lparr>ms_producers := (ms_producers s)((stream, pt_id producer) \<mapsto>
                \<lparr>pr_sequence = pt_sequence producer, pr_next_offset = next_offset\<rparr>)\<rparr>))"

definition memory_ensure_stream ::
  "string \<Rightarrow> memory_state \<Rightarrow> (store_error + unit) \<times> memory_state" where
  "memory_ensure_stream stream s =
     (if ms_unavailable s then (Inl (Ambiguous ''test store unavailable''), s) else
      (Inr (), set_stream_bytes stream (stream_bytes s stream) s))"

definition memory_read_all :: "string \<Rightarrow> memory_state \<Rightarrow> (store_error + bytes) \<times> memory_state" where
  "memory_read_all stream s =
     (if ms_unavailable s then (Inl (Ambiguous ''test store unavailable''), s)
      else (Inr (stream_bytes s stream), s))"

definition memory_read_range ::
  "string \<Rightarrow> u64 \<Rightarrow> nat \<Rightarrow> memory_state \<Rightarrow> (store_error + bytes) \<times> memory_state" where
  "memory_read_range stream offset len s =
     (r_bind (ok_or (Integrity ''test offset is too large'') (usize_of_u64 offset)) (\<lambda>start.
      r_bind (ok_or (Integrity ''test range overflow'') (checked_add start len)) (\<lambda>stop.
      case ms_streams s stream of
        None \<Rightarrow> Inl (Integrity ''test range is absent'')
      | Some bs \<Rightarrow>
          if stop \<le> length bs then Inr (take len (drop start bs))
          else Inl (Integrity ''test range is absent''))), s)"

definition memory_admit ::
  "string \<Rightarrow> producer_tuple \<Rightarrow> memory_state \<Rightarrow> (store_error + append_outcome) option" where
  "memory_admit stream producer s =
     (case ms_producers s (stream, pt_id producer) of
        Some r \<Rightarrow>
          if pt_sequence producer \<le> pr_sequence r then Some (Inr (Duplicate (pr_next_offset r))) else
          if pt_sequence producer \<noteq> (if pr_sequence r = - 1 then - 1 else pr_sequence r + 1)
          then Some (Inl (Rejected Conflict ''test sequence gap'')) else None
      | None \<Rightarrow>
          if pt_sequence producer \<noteq> 0
          then Some (Inl (Rejected Conflict ''test producer must begin at zero'')) else None)"

definition pop_behavior :: "memory_state \<Rightarrow> behavior \<times> memory_state" where
  "pop_behavior s = (case ms_behaviors s of [] \<Rightarrow> (Commit, s) | b # bs \<Rightarrow> (b, s\<lparr>ms_behaviors := bs\<rparr>))"

definition corrupt_last :: "string \<Rightarrow> memory_state \<Rightarrow> memory_state" where
  "corrupt_last stream s =
     (let bs = stream_bytes s stream
      in if bs = [] then s else set_stream_bytes stream (butlast bs @ [last bs XOR 1]) s)"

fun memory_behave ::
  "behavior \<Rightarrow> string \<Rightarrow> producer_tuple \<Rightarrow> bytes \<Rightarrow> memory_state \<Rightarrow>
   (store_error + append_outcome) \<times> memory_state" where
  "memory_behave Reject stream p body s = (Inl (Rejected Conflict ''definite test rejection''), s)"
| "memory_behave AmbiguousOutcome stream p body s = (Inl (Ambiguous ''test outcome unknown''), s)"
| "memory_behave (DuplicateAt k) stream p body s = (Inr (Duplicate k), s)"
| "memory_behave WaitFor stream p body s =
     s_bind (memory_commit stream p body s) (\<lambda>k s. (Inr (Committed k), s))"
| "memory_behave CommitThenAmbiguous stream p body s =
     s_bind (memory_commit stream p body s) (\<lambda>_ s. (Inl (Ambiguous ''test response lost''), s))"
| "memory_behave CommitCorruptThenAmbiguous stream p body s =
     s_bind (memory_commit stream p body s) (\<lambda>_ s.
     (Inl (Ambiguous ''test response lost''), corrupt_last stream s))"
| "memory_behave CommitThenReadsUnavailable stream p body s =
     s_bind (memory_commit stream p body s) (\<lambda>k s. (Inr (Committed k), s\<lparr>ms_unavailable := True\<rparr>))"
| "memory_behave Commit stream p body s =
     s_bind (memory_commit stream p body s) (\<lambda>k s. (Inr (Committed k), s))"

definition memory_append ::
  "string \<Rightarrow> producer_tuple \<Rightarrow> bytes \<Rightarrow> memory_state \<Rightarrow>
   (store_error + append_outcome) \<times> memory_state" where
  "memory_append stream producer body s =
     (let s = s\<lparr>ms_attempts := ms_attempts s @ [(producer, body)]\<rparr>
      in case memory_admit stream producer s of
           Some outcome \<Rightarrow> (outcome, s)
         | None \<Rightarrow>
             let (b, s) = pop_behavior s in memory_behave b stream producer body s)"

definition memory_store :: "memory_state ursula_store" where
  "memory_store = \<lparr>us_ensure_stream = memory_ensure_stream, us_read_all = memory_read_all,
     us_read_all_observed = default_read_all_observed memory_read_all,
     us_read_range = memory_read_range, us_append = memory_append\<rparr>"

lemma memory_store_sel [simp]:
  "us_ensure_stream memory_store = memory_ensure_stream"
  "us_read_all memory_store = memory_read_all"
  "us_read_all_observed memory_store = default_read_all_observed memory_read_all"
  "us_read_range memory_store = memory_read_range"
  "us_append memory_store = memory_append"
  by (simp_all add: memory_store_def)

section \<open>The store meets the contracts\<close>

lemma stream_bytes_set [simp]:
  "stream_bytes (set_stream_bytes n bs s) m = (if m = n then bs else stream_bytes s m)"
  by (simp add: stream_bytes_def set_stream_bytes_def)

lemma stream_bytes_other [simp]:
  "stream_bytes (s\<lparr>ms_attempts := a\<rparr>) = stream_bytes s"
  "stream_bytes (s\<lparr>ms_behaviors := b\<rparr>) = stream_bytes s"
  "stream_bytes (s\<lparr>ms_unavailable := u\<rparr>) = stream_bytes s"
  "stream_bytes (s\<lparr>ms_producers := p\<rparr>) = stream_bytes s"
  by (simp_all add: stream_bytes_def fun_eq_iff)

definition memory_seen :: "memory_state \<Rightarrow> string \<Rightarrow> string \<Rightarrow> u64 option" where
  "memory_seen s n pid = map_option pr_sequence (ms_producers s (n, pid))"

definition memory_honest :: "memory_state \<Rightarrow> bool" where
  "memory_honest s \<longleftrightarrow> CommitCorruptThenAmbiguous \<notin> set (ms_behaviors s)"

lemma memory_seen_simps [simp]:
  "memory_seen (set_stream_bytes n bs s) = memory_seen s"
  "memory_seen (s\<lparr>ms_attempts := a\<rparr>) = memory_seen s"
  "memory_seen (s\<lparr>ms_behaviors := b\<rparr>) = memory_seen s"
  "memory_seen (s\<lparr>ms_unavailable := u\<rparr>) = memory_seen s"
  "memory_seen (s\<lparr>ms_producers := (ms_producers s')((n, pid) \<mapsto> r)\<rparr>) m =
     (if m = n then (memory_seen s' m)(pid \<mapsto> pr_sequence r) else memory_seen s' m)"
  by (auto simp: memory_seen_def set_stream_bytes_def fun_eq_iff)

lemma memory_honest_simps [simp]:
  "memory_honest (set_stream_bytes n bs s) = memory_honest s"
  "memory_honest (s\<lparr>ms_attempts := a\<rparr>) = memory_honest s"
  "memory_honest (s\<lparr>ms_unavailable := u\<rparr>) = memory_honest s"
  "memory_honest (s\<lparr>ms_producers := p\<rparr>) = memory_honest s"
  by (simp_all add: memory_honest_def set_stream_bytes_def)

lemma memory_commit_cases:
  assumes "memory_commit n p body s = (r, s')"
  shows "stream_bytes s' = (stream_bytes s)(n := stream_bytes s n @ body) \<and>
    memory_honest s' = memory_honest s \<and>
    (memory_seen s' = (memory_seen s)(n := (memory_seen s n)(pt_id p \<mapsto> pt_sequence p)) \<and>
       r = Inr (of_nat (length (stream_bytes s' n))) \<and>
       unat (of_nat (length (stream_bytes s' n)) :: u64) = length (stream_bytes s' n) \<or>
     memory_seen s' = memory_seen s \<and> (\<exists>e. r = Inl (Integrity e)))"
  using assms
  by (auto simp: memory_commit_def Let_def u64_of_usize_Some_iff unat_of_nat fun_eq_iff
      split: option.splits)

lemma corrupt_last_commit:
  assumes "stream_bytes s = (stream_bytes s0)(n := stream_bytes s0 n @ body)" and "body \<noteq> []"
  shows "prefix (stream_bytes s0 m) (stream_bytes (corrupt_last n s) m)"
  using assms by (auto simp: corrupt_last_def Let_def butlast_append)

lemma memory_behave_grows:
  assumes "memory_behave b n p body s = (r, s')" and "body \<noteq> []"
  shows "prefix (stream_bytes s m) (stream_bytes s' m) \<and>
    (\<forall>k. r = Inr (Committed k) \<longrightarrow> stored_at (stream_bytes s' n) k body)"
proof (cases "memory_commit n p body s")
  case (Pair c t)
  note commit = memory_commit_cases [OF Pair]
  have pre: "prefix (stream_bytes s m) (stream_bytes t m)"
    using commit by auto
  have st: "stored_at (stream_bytes t n) k body" if "c = Inr k" for k
    using commit that by (auto intro!: stored_at_end)
  have cor: "prefix (stream_bytes s m) (stream_bytes (corrupt_last n t) m)"
    by (rule corrupt_last_commit [OF conjunct1 [OF commit] assms(2)])
  show ?thesis
  proof (cases c)
    case (Inl e)
    with assms(1) pre Pair show ?thesis by (cases b) auto
  next
    case (Inr k)
    with assms(1) pre Pair st cor show ?thesis by (cases b) auto
  qed
qed

lemma memory_behave_exclusive:
  assumes "memory_behave b n p body s = (r, s')" and "b \<noteq> CommitCorruptThenAmbiguous"
    and "\<not> covered (memory_seen s n (pt_id p)) p"
  shows "memory_honest s' = memory_honest s \<and>
    (\<forall>m. m \<noteq> n \<longrightarrow> stream_bytes s' m = stream_bytes s m \<and> memory_seen s' m = memory_seen s m) \<and>
    (stream_bytes s' n = stream_bytes s n \<and> memory_seen s' n = memory_seen s n \<and> (\<forall>k. r \<noteq> Inr (Committed k)) \<or>
     stream_bytes s' n = stream_bytes s n @ body \<and>
       (memory_seen s' n = (memory_seen s n)(pt_id p \<mapsto> pt_sequence p) \<and>
          (r = Inr (Committed (of_nat (length (stream_bytes s' n)))) \<or> (\<exists>e. r = Inl (Ambiguous e))) \<or>
        (\<exists>e. r = Inl (Integrity e))))"
proof (cases "memory_commit n p body s")
  case (Pair c t)
  note commit = memory_commit_cases [OF Pair]
  show ?thesis
  proof (cases c)
    case (Inl e)
    with assms commit Pair show ?thesis by (cases b) auto
  next
    case (Inr k)
    with assms commit Pair show ?thesis by (cases b) auto
  qed
qed

lemma memory_admit_unseen:
  assumes "memory_admit n p s = None"
  shows "\<not> covered (memory_seen s n (pt_id p)) p"
  using assms by (auto simp: memory_admit_def covered_def memory_seen_def split: option.splits if_splits)

lemma memory_admit_outcome:
  "memory_admit n p s = Some r \<Longrightarrow> \<forall>k. r \<noteq> Inr (Committed k)"
  by (auto simp: memory_admit_def split: option.splits if_splits)

lemma pop_behavior_same:
  assumes "pop_behavior s = (b, s')"
  shows "stream_bytes s' = stream_bytes s" "memory_seen s' = memory_seen s"
    "memory_honest s \<Longrightarrow> memory_honest s' \<and> b \<noteq> CommitCorruptThenAmbiguous"
  using assms by (auto simp: pop_behavior_def memory_honest_def split: list.splits)

lemma memory_append_grows:
  assumes "memory_append n p body s = (r, s')" and "body \<noteq> []"
  shows "prefix (stream_bytes s m) (stream_bytes s' m) \<and>
    (\<forall>k. r = Inr (Committed k) \<longrightarrow> stored_at (stream_bytes s' n) k body)"
proof (cases "memory_admit n p (s\<lparr>ms_attempts := ms_attempts s @ [(p, body)]\<rparr>)")
  case (Some o1)
  with assms(1) memory_admit_outcome [OF Some] show ?thesis
    by (auto simp: memory_append_def Let_def)
next
  case None
  obtain b t where pop: "pop_behavior (s\<lparr>ms_attempts := ms_attempts s @ [(p, body)]\<rparr>) = (b, t)"
    by fastforce
  then have run: "memory_behave b n p body t = (r, s')"
    using assms(1) None by (simp add: memory_append_def Let_def)
  have "stream_bytes t = stream_bytes s"
    using pop_behavior_same(1) [OF pop] by simp
  with memory_behave_grows [OF run assms(2), of m] show ?thesis by simp
qed

lemma memory_append_exclusive:
  assumes "memory_append n p body s = (r, s')" and "memory_honest s"
  shows "memory_honest s' \<and>
    (\<forall>m. m \<noteq> n \<longrightarrow> stream_bytes s' m = stream_bytes s m \<and> memory_seen s' m = memory_seen s m) \<and>
    (stream_bytes s' n = stream_bytes s n \<and> memory_seen s' n = memory_seen s n \<and> (\<forall>k. r \<noteq> Inr (Committed k)) \<or>
     stream_bytes s' n = stream_bytes s n @ body \<and> \<not> covered (memory_seen s n (pt_id p)) p \<and>
       (memory_seen s' n = (memory_seen s n)(pt_id p \<mapsto> pt_sequence p) \<and>
          (r = Inr (Committed (of_nat (length (stream_bytes s' n)))) \<or> (\<exists>e. r = Inl (Ambiguous e))) \<or>
        (\<exists>e. r = Inl (Integrity e))))"
proof -
  let ?s = "s\<lparr>ms_attempts := ms_attempts s @ [(p, body)]\<rparr>"
  show ?thesis
  proof (cases "memory_admit n p ?s")
    case (Some o1)
    then have "r = o1" and "s' = ?s"
      using assms(1) by (simp_all add: memory_append_def Let_def)
    with memory_admit_outcome [OF Some] assms(2) show ?thesis by simp
  next
    case None
    obtain b t where pop: "pop_behavior ?s = (b, t)" by fastforce
    then have run: "memory_behave b n p body t = (r, s')"
      using assms(1) None by (simp add: memory_append_def Let_def)
    have same: "stream_bytes t = stream_bytes s" "memory_seen t = memory_seen s"
      "memory_honest t" "b \<noteq> CommitCorruptThenAmbiguous"
      using pop_behavior_same [OF pop] assms(2) by simp_all
    have "\<not> covered (memory_seen s n (pt_id p)) p"
      using memory_admit_unseen [OF None] by simp
    with memory_behave_exclusive [OF run same(4)] same assms(2) show ?thesis by simp
  qed
qed

interpretation memory: append_only_store memory_store stream_bytes "\<lambda>_. True"
proof
  fix s s' n m offset len p body
  show "True \<and> prefix (stream_bytes s m) (stream_bytes s' m)"
    if "us_ensure_stream memory_store n s = (re, s')" for re
    using that by (auto simp: memory_ensure_stream_def split: if_splits)
  show "True \<and> prefix (stream_bytes s m) (stream_bytes s' m) \<and>
      (\<forall>bs. ra = Inr bs \<longrightarrow> prefix bs (stream_bytes s' n))"
    if "us_read_all memory_store n s = (ra, s')" for ra
    using that by (auto simp: memory_read_all_def split: if_splits)
  show "True \<and> prefix (stream_bytes s m) (stream_bytes s' m) \<and>
      (\<forall>ob. ro = Inr ob \<longrightarrow> prefix (ro_bytes ob) (stream_bytes s' n))"
    if "us_read_all_observed memory_store n s = (ro, s')" for ro
    using that by (auto simp: default_read_all_observed_def memory_read_all_def split: if_splits)
  show "True \<and> prefix (stream_bytes s m) (stream_bytes s' m) \<and>
      (\<forall>bs. rr = Inr bs \<and> 0 < len \<longrightarrow> unat offset + len \<le> length (stream_bytes s' n) \<and>
        bs = take len (drop (unat offset) (stream_bytes s' n)))"
    if "us_read_range memory_store n offset len s = (rr, s')" for rr
    using that by (auto simp: memory_read_range_def stream_bytes_def elim!: r_bind_InrE
        split: option.splits if_splits)
  show "True \<and> prefix (stream_bytes s m) (stream_bytes s' m) \<and>
      (\<forall>k. rp = Inr (Committed k) \<longrightarrow> stored_at (stream_bytes s' n) k body)"
    if "body \<noteq> []" and "us_append memory_store n p body s = (rp, s')" for rp
    using memory_append_grows [of n p body s rp s' m] that by simp
qed

interpretation memory_exclusive: exclusive_store memory_store stream_bytes memory_honest memory_seen
proof
  fix s s' n m offset len p body
  assume s: "memory_honest s"
  show "memory_honest s' \<and> prefix (stream_bytes s m) (stream_bytes s' m)"
    if "us_ensure_stream memory_store n s = (re, s')" for re
    using that s by (auto simp: memory_ensure_stream_def split: if_splits)
  show "memory_honest s' \<and> prefix (stream_bytes s m) (stream_bytes s' m) \<and>
      (\<forall>bs. ra = Inr bs \<longrightarrow> prefix bs (stream_bytes s' n))"
    if "us_read_all memory_store n s = (ra, s')" for ra
    using that s memory.read_all_law [OF TrueI that] by (auto simp: memory_read_all_def split: if_splits)
  show "memory_honest s' \<and> prefix (stream_bytes s m) (stream_bytes s' m) \<and>
      (\<forall>ob. ro = Inr ob \<longrightarrow> prefix (ro_bytes ob) (stream_bytes s' n))"
    if "us_read_all_observed memory_store n s = (ro, s')" for ro
    using that s by (auto simp: default_read_all_observed_def memory_read_all_def split: if_splits)
  show "memory_honest s' \<and> prefix (stream_bytes s m) (stream_bytes s' m) \<and>
      (\<forall>bs. rr = Inr bs \<and> 0 < len \<longrightarrow> unat offset + len \<le> length (stream_bytes s' n) \<and>
        bs = take len (drop (unat offset) (stream_bytes s' n)))"
    if "us_read_range memory_store n offset len s = (rr, s')" for rr
    using that s memory.read_range_law [OF TrueI that] by (simp add: memory_read_range_def)
  have append: "memory_honest s' \<and>
      (\<forall>m. m \<noteq> n \<longrightarrow> stream_bytes s' m = stream_bytes s m \<and> memory_seen s' m = memory_seen s m) \<and>
      (stream_bytes s' n = stream_bytes s n \<and> memory_seen s' n = memory_seen s n \<and>
         (\<forall>k. rp \<noteq> Inr (Committed k)) \<or>
       stream_bytes s' n = stream_bytes s n @ body \<and> \<not> covered (memory_seen s n (pt_id p)) p \<and>
         (memory_seen s' n = (memory_seen s n)(pt_id p \<mapsto> pt_sequence p) \<and>
            (rp = Inr (Committed (of_nat (length (stream_bytes s' n)))) \<or> (\<exists>e. rp = Inl (Ambiguous e))) \<or>
          (\<exists>e. rp = Inl (Integrity e))))"
    if "us_append memory_store n p body s = (rp, s')" for rp
    by (rule memory_append_exclusive) (use that s in simp_all)
  show "memory_honest s' \<and> prefix (stream_bytes s m) (stream_bytes s' m) \<and>
      (\<forall>k. rp = Inr (Committed k) \<longrightarrow> stored_at (stream_bytes s' n) k body)"
    if "body \<noteq> []" and "us_append memory_store n p body s = (rp, s')" for rp
    using memory.append_law [OF TrueI that, of m] append [OF that(2)] by blast
  show "stream_bytes s' = stream_bytes s \<and> memory_seen s' = memory_seen s"
    if "us_ensure_stream memory_store n s = (re, s')" for re
    using that by (auto simp: memory_ensure_stream_def fun_eq_iff split: if_splits)
  show "stream_bytes s' = stream_bytes s \<and> memory_seen s' = memory_seen s \<and>
      (\<forall>bs. ra = Inr bs \<longrightarrow> bs = stream_bytes s n)"
    if "us_read_all memory_store n s = (ra, s')" for ra
    using that by (auto simp: memory_read_all_def split: if_splits)
  show "stream_bytes s' = stream_bytes s \<and> memory_seen s' = memory_seen s"
    if "us_read_range memory_store n offset len s = (rr, s')" for rr
    using that by (auto simp: memory_read_range_def)
  show "(\<forall>m. m \<noteq> n \<longrightarrow> stream_bytes s' m = stream_bytes s m \<and> memory_seen s' m = memory_seen s m) \<and>
      (stream_bytes s' n = stream_bytes s n \<and> memory_seen s' n = memory_seen s n \<and>
         (\<forall>k. rp \<noteq> Inr (Committed k)) \<or>
       stream_bytes s' n = stream_bytes s n @ body \<and> \<not> covered (memory_seen s n (pt_id p)) p \<and>
         (memory_seen s' n = (memory_seen s n)(pt_id p \<mapsto> pt_sequence p) \<and>
            (rp = Inr (Committed (of_nat (length (stream_bytes s' n)))) \<or> (\<exists>e. rp = Inl (Ambiguous e))) \<or>
          (\<exists>e. rp = Inl (Integrity e))))"
    if "us_append memory_store n p body s = (rp, s')" for rp
    using append [OF that] by blast
qed

end
