(* ===== verification/Exact_Append.thy ===== *)
theory Exact_Append
  imports Memory_Store
begin

text \<open>
  \<open>src/exact_append.rs\<close>: one append carried to a definite outcome. An ambiguous result is
  retried with the same producer tuple and the same bytes, a duplicate is believed only
  after its bytes were read back and compared.
\<close>

section \<open>The code\<close>

datatype exact_append_outcome =
    Committed (exact_offset: u64)
  | VerifiedDuplicate (exact_offset: u64)

definition exact_verify_duplicate_bytes ::
  "'s ursula_store \<Rightarrow> string \<Rightarrow> u64 \<Rightarrow> bytes \<Rightarrow> 's \<Rightarrow> (store_error + unit) \<times> 's" where
  "exact_verify_duplicate_bytes store stream next_offset expected s =
     s_bind (ok_or (Integrity ''exact append length does not fit u64'')
               (u64_of_usize (length expected)), s) (\<lambda>expected_len s.
     s_bind (ok_or (Integrity ''duplicate next offset is smaller than exact append body'')
               (u64_checked_sub next_offset expected_len), s) (\<lambda>start s.
     s_bind (us_read_range store stream start (length expected) s) (\<lambda>stored s.
     if length stored \<noteq> length expected
     then (Inl (Integrity (''duplicate exact append length mismatch: expected '' @
             show_nat (length expected) @ '', received '' @ show_nat (length stored))), s)
     else if stored \<noteq> expected
     then (Inl (Integrity ''duplicate producer tuple is bound to different bytes''), s)
     else (Inr (), s))))"

function append_exact_loop ::
  "'s ursula_store \<Rightarrow> string \<Rightarrow> producer_tuple \<Rightarrow> bytes \<Rightarrow> nat \<Rightarrow> nat \<Rightarrow> 's \<Rightarrow>
   (store_error + exact_append_outcome) \<times> 's" where
  "append_exact_loop store stream producer body max_ambiguous_retries retries s =
     (case us_append store stream producer body s of
        (Inr (append_outcome.Committed k), s) \<Rightarrow> (Inr (Committed k), s)
      | (Inr (Duplicate k), s) \<Rightarrow>
          s_bind (exact_verify_duplicate_bytes store stream k body s) (\<lambda>_ s.
          (Inr (VerifiedDuplicate k), s))
      | (Inl (Ambiguous m), s) \<Rightarrow>
          if retries < max_ambiguous_retries
          then append_exact_loop store stream producer body max_ambiguous_retries (retries + 1) s
          else (Inl (Ambiguous m), s)
      | (Inl e, s) \<Rightarrow> (Inl e, s))"
  by pat_completeness auto

termination
  by (relation "measure (\<lambda>(store, stream, producer, body, m, retries, s). m - retries)") auto

declare append_exact_loop.simps [simp del]

definition append_exact_with_retry ::
  "'s ursula_store \<Rightarrow> string \<Rightarrow> producer_tuple \<Rightarrow> bytes \<Rightarrow> nat \<Rightarrow> 's \<Rightarrow>
   (store_error + exact_append_outcome) \<times> 's" where
  "append_exact_with_retry store stream producer body max_ambiguous_retries s =
     (if body = [] then (Inl (Integrity ''exact append body is empty''), s)
      else append_exact_loop store stream producer body max_ambiguous_retries 0 s)"

section \<open>Under the contract with other writers\<close>

context append_only_store
begin

lemma exact_verify_run:
  assumes "valid s" and "exact_verify_duplicate_bytes store n k body s = (r, s')"
  shows "grows content valid s s' \<and> (r = Inr () \<and> body \<noteq> [] \<longrightarrow> stored_at (content s' n) k body)"
proof (cases "u64_of_usize (length body)")
  case None
  with assms show ?thesis
    by (auto simp: exact_verify_duplicate_bytes_def grows_refl)
next
  case (Some len)
  note len = this
  show ?thesis
  proof (cases "u64_checked_sub k len")
    case None
    with assms len show ?thesis
      by (auto simp: exact_verify_duplicate_bytes_def grows_refl)
  next
    case (Some start)
    obtain ro t where rd: "us_read_range store n start (length body) s = (ro, t)"
      by (cases "us_read_range store n start (length body) s") auto
    have t: "s' = t" and body: "r = Inr () \<Longrightarrow> ro = Inr body"
      using assms(2) len Some rd
      by (cases ro; auto simp: exact_verify_duplicate_bytes_def split: if_splits)+
    have "stored_at (content t n) k body" if "r = Inr ()" and "body \<noteq> []"
      using verified_range_stored [OF assms(1) _ that(2) len Some] rd body [OF that(1)] by simp
    with read_range_grows [OF assms(1) rd] show ?thesis by (simp add: t)
  qed
qed

text \<open>Every step of the loop keeps the contract's relation; success means stored bytes.\<close>

lemma exact_loop_run:
  assumes "valid s" and "body \<noteq> []" and "append_exact_loop store n p body m i s = (r, s')"
  shows "grows content valid s s' \<and>
    (\<forall>x. r = Inr x \<longrightarrow> stored_at (content s' n) (exact_offset x) body)"
  using assms
proof (induction "m - i" arbitrary: i s rule: less_induct)
  case less
  obtain ro t where ap: "us_append store n p body s = (ro, t)"
    by (cases "us_append store n p body s") auto
  have gt: "grows content valid s t" and vt: "valid t"
    using append_grows [OF less.prems(1,2) ap] by (auto dest: grows_inv)
  consider k where "ro = Inr (append_outcome.Committed k)" | k where "ro = Inr (Duplicate k)"
    | e where "ro = Inl (Ambiguous e)" "i < m"
    | e where "ro = Inl e" "\<nexists>e'. e = Ambiguous e' \<and> i < m"
    by (cases ro) (metis append_outcome.exhaust sum.exhaust)+
  then show ?case
  proof cases
    case (1 k)
    with less.prems(3) ap have "r = Inr (Committed k)" and "s' = t"
      by (simp_all add: append_exact_loop.simps)
    with append_committed [OF less.prems(1,2)] ap 1 gt show ?thesis by auto
  next
    case (2 k)
    obtain rv u where v: "exact_verify_duplicate_bytes store n k body t = (rv, u)"
      by (cases "exact_verify_duplicate_bytes store n k body t") auto
    have "s' = u" and "r = Inr x \<Longrightarrow> x = VerifiedDuplicate k \<and> rv = Inr ()" for x
      using less.prems(3) ap 2 v by (cases rv; auto simp: append_exact_loop.simps)+
    with exact_verify_run [OF vt v] gt less.prems(2) show ?thesis
      by (auto intro: grows_trans)
  next
    case (3 e)
    with less.prems(3) ap have "append_exact_loop store n p body m (i + 1) t = (r, s')"
      by (simp add: append_exact_loop.simps [of store n p body m i])
    with less.hyps [of "i + 1" t] 3 vt less.prems(2) gt show ?thesis
      by (auto intro: grows_trans)
  next
    case (4 e)
    with less.prems(3) ap have "r = Inl e" and "s' = t"
      by (cases e; simp add: append_exact_loop.simps)+
    with gt show ?thesis by simp
  qed
qed

lemma append_exact_run:
  assumes "valid s" and "append_exact_with_retry store n p body m s = (r, s')"
  shows "grows content valid s s' \<and>
    (\<forall>x. r = Inr x \<longrightarrow> body \<noteq> [] \<and> stored_at (content s' n) (exact_offset x) body)"
  using assms exact_loop_run [OF assms(1), of body n p m 0 r s']
  by (auto simp: append_exact_with_retry_def grows_refl split: if_splits)

lemma append_exact_step:
  "grows content valid s0 s \<Longrightarrow> grows content valid s0 (snd (append_exact_with_retry store n p body m s))"
  by (metis append_exact_run grows_inv grows_trans prod.collapse)

end

section \<open>Under the contract with a single writer\<close>

context exclusive_store
begin

lemma exact_verify_same:
  assumes "valid s" and "exact_verify_duplicate_bytes store n k body s = (r, s')"
  shows "content s' = content s \<and> seen s' = seen s"
proof (cases "u64_of_usize (length body)")
  case None
  with assms show ?thesis by (simp add: exact_verify_duplicate_bytes_def)
next
  case (Some len)
  note len = this
  show ?thesis
  proof (cases "u64_checked_sub k len")
    case None
    with assms len show ?thesis by (simp add: exact_verify_duplicate_bytes_def)
  next
    case (Some start)
    obtain ro t where rd: "us_read_range store n start (length body) s = (ro, t)"
      by (cases "us_read_range store n start (length body) s") auto
    have "s' = t"
      using assms(2) len Some rd
      by (cases ro) (auto simp: exact_verify_duplicate_bytes_def split: if_splits)
    with read_range_same [OF assms(1) rd] show ?thesis by simp
  qed
qed

text \<open>
  The body is appended at most once over all attempts: before the append happens the
  content is unchanged, and once it happened the tuple is covered and nothing changes.
\<close>

lemma exact_loop_once:
  assumes "valid s" and "body \<noteq> []" and "append_exact_loop store n p body m i s = (r, s')"
  shows "(\<forall>l. l \<noteq> n \<longrightarrow> content s' l = content s l) \<and>
    (content s' n = content s n \<and> (\<forall>k. r \<noteq> Inr (Committed k)) \<or>
     content s' n = content s n @ body \<and> \<not> covered (seen s n (pt_id p)) p)"
  using assms
proof (induction "m - i" arbitrary: i s rule: less_induct)
  case less
  obtain ro t where ap: "us_append store n p body s = (ro, t)"
    by (cases "us_append store n p body s") auto
  have vt: "valid t"
    using append_law [OF less.prems(1,2) ap] by simp
  have others: "content t l = content s l \<and> seen t l = seen s l" if "l \<noteq> n" for l
    using append_exclusive [OF less.prems(1,2) ap] that by simp
  have here: "content t n = content s n \<and> seen t n = seen s n \<and> (\<forall>k. ro \<noteq> Inr (append_outcome.Committed k)) \<or>
     content t n = content s n @ body \<and> \<not> covered (seen s n (pt_id p)) p \<and>
       (seen t n = (seen s n)(pt_id p \<mapsto> pt_sequence p) \<and> (\<forall>k. ro \<noteq> Inr (Duplicate k)) \<or>
        (\<exists>e. ro = Inl (Integrity e)))"
    using append_exclusive [OF less.prems(1,2) ap] by auto
  consider k where "ro = Inr (append_outcome.Committed k)" | k where "ro = Inr (Duplicate k)"
    | e where "ro = Inl (Ambiguous e)" "i < m"
    | e where "ro = Inl e" "\<nexists>e'. e = Ambiguous e' \<and> i < m"
    by (cases ro) (metis append_outcome.exhaust sum.exhaust)+
  then show ?case
  proof cases
    case (1 k)
    with less.prems(3) ap have "s' = t" by (simp add: append_exact_loop.simps)
    with here others 1 show ?thesis by auto
  next
    case (2 k)
    obtain rv u where v: "exact_verify_duplicate_bytes store n k body t = (rv, u)"
      by (cases "exact_verify_duplicate_bytes store n k body t") auto
    have "s' = u" and "\<forall>k. r \<noteq> Inr (Committed k)"
      using less.prems(3) ap 2 v by (cases rv; auto simp: append_exact_loop.simps)+
    with exact_verify_same [OF vt v] here others 2 show ?thesis by auto
  next
    case (3 e)
    with less.prems(3) ap have "append_exact_loop store n p body m (i + 1) t = (r, s')"
      by (simp add: append_exact_loop.simps [of store n p body m i])
    then have IH: "(\<forall>l. l \<noteq> n \<longrightarrow> content s' l = content t l) \<and>
        (content s' n = content t n \<and> (\<forall>k. r \<noteq> Inr (Committed k)) \<or>
         content s' n = content t n @ body \<and> \<not> covered (seen t n (pt_id p)) p)"
      using less.hyps [of "i + 1" t] 3 vt less.prems(2) by auto
    have "covered (seen t n (pt_id p)) p" if "content t n \<noteq> content s n"
      using here that 3 by (auto simp: covered_def)
    with IH here others 3 show ?thesis by metis
  next
    case (4 e)
    with less.prems(3) ap have "r = Inl e" and "s' = t"
      by (cases e; simp add: append_exact_loop.simps)+
    with here others 4 show ?thesis by auto
  qed
qed

lemma append_exact_once:
  assumes "valid s" and "append_exact_with_retry store n p body m s = (r, s')"
  shows "(\<forall>l. l \<noteq> n \<longrightarrow> content s' l = content s l) \<and>
    (content s' n = content s n \<and> (\<forall>k. r \<noteq> Inr (Committed k)) \<or>
     content s' n = content s n @ body \<and> \<not> covered (seen s n (pt_id p)) p)"
  using assms exact_loop_once [OF assms(1), of body n p m 0 r s']
  by (auto simp: append_exact_with_retry_def split: if_splits)

lemma touches_append_exact:
  assumes "only_touches content valid N s0 s" and "n \<in> N"
  shows "only_touches content valid N s0 (snd (append_exact_with_retry store n p body m s))"
proof (cases "append_exact_with_retry store n p body m s")
  case (Pair r t)
  with assms append_exact_once [OF _ Pair] append_exact_run [OF _ Pair] show ?thesis
    by (auto simp: only_touches_def grows_def)
qed

end

section \<open>The calls an exact append makes\<close>

text \<open>
  Any store, observed: every call that reaches it is written down with its arguments, an
  append with its answer as well.
\<close>

datatype store_call =
    EnsureCall string
  | ReadCall string
  | RangeCall string u64 nat
  | AppendCall string producer_tuple bytes "store_error + append_outcome"

definition observed :: "'s ursula_store \<Rightarrow> ('s \<times> store_call list) ursula_store" where
  "observed store =
     \<lparr>us_ensure_stream = (\<lambda>n (s, calls).
        let (r, s) = us_ensure_stream store n s in (r, (s, calls @ [EnsureCall n]))),
      us_read_all = (\<lambda>n (s, calls).
        let (r, s) = us_read_all store n s in (r, (s, calls @ [ReadCall n]))),
      us_read_all_observed = (\<lambda>n (s, calls).
        let (r, s) = us_read_all_observed store n s in (r, (s, calls @ [ReadCall n]))),
      us_read_range = (\<lambda>n offset len (s, calls).
        let (r, s) = us_read_range store n offset len s in (r, (s, calls @ [RangeCall n offset len]))),
      us_append = (\<lambda>n p body (s, calls).
        let (r, s) = us_append store n p body s in (r, (s, calls @ [AppendCall n p body r])))\<rparr>"

lemma observed_verify:
  assumes "exact_verify_duplicate_bytes (observed store) n k body (s, calls) = (r, (s', calls'))"
  shows "exact_verify_duplicate_bytes store n k body s = (r, s') \<and>
    (calls' = calls \<and> r \<noteq> Inr () \<or> (\<exists>start. calls' = calls @ [RangeCall n start (length body)] \<and> unat start + length body = unat k))"
proof (cases "u64_of_usize (length body)")
  case None
  with assms show ?thesis by (auto simp: exact_verify_duplicate_bytes_def)
next
  case (Some len)
  note len = this
  show ?thesis
  proof (cases "u64_checked_sub k len")
    case None
    with assms len show ?thesis by (auto simp: exact_verify_duplicate_bytes_def)
  next
    case (Some start)
    obtain ro t where rd: "us_read_range store n start (length body) s = (ro, t)" by fastforce
    then have "us_read_range (observed store) n start (length body) (s, calls) =
        (ro, (t, calls @ [RangeCall n start (length body)]))"
      by (simp add: observed_def)
    moreover have "unat start + length body = unat k"
      using u64_checked_sub_unat [OF Some] u64_of_usize_unat [OF len] by simp
    ultimately show ?thesis
      using assms len Some rd
      by (cases ro) (auto simp: exact_verify_duplicate_bytes_def split: if_splits)
  qed
qed

text \<open>The attempts of a list of lost answers: the same tuple and the same bytes every time.\<close>

abbreviation lost_attempts :: "string \<Rightarrow> producer_tuple \<Rightarrow> bytes \<Rightarrow> string list \<Rightarrow> store_call list" where
  "lost_attempts n p body \<equiv> map (\<lambda>e. AppendCall n p body (Inl (Ambiguous e)))"

definition exact_end :: "string \<Rightarrow> bytes \<Rightarrow> store_error + append_outcome \<Rightarrow> store_call list \<Rightarrow>
   store_error + exact_append_outcome \<Rightarrow> bool" where
  "exact_end n body answer reads r \<longleftrightarrow>
     (case answer of
        Inl e \<Rightarrow> reads = [] \<and> r = Inl e
      | Inr (append_outcome.Committed k) \<Rightarrow> reads = [] \<and> r = Inr (Committed k)
      | Inr (Duplicate k) \<Rightarrow>
          (reads = [] \<or> (\<exists>start. reads = [RangeCall n start (length body)] \<and> unat start + length body = unat k)) \<and>
          (\<forall>x. r = Inr x \<longrightarrow> x = VerifiedDuplicate k \<and> reads \<noteq> []))"

lemma observed_loop:
  assumes "append_exact_loop (observed store) n p body m i (s, calls) = (r, (s', calls'))"
  shows "append_exact_loop store n p body m i s = (r, s') \<and>
    (\<exists>es answer reads. calls' = calls @ lost_attempts n p body es @ AppendCall n p body answer # reads \<and>
      length es \<le> m - i \<and> (\<forall>e. answer = Inl (Ambiguous e) \<longrightarrow> length es = m - i) \<and> exact_end n body answer reads r)"
  using assms
proof (induction "m - i" arbitrary: i s calls rule: less_induct)
  case less
  obtain ro t where ap: "us_append store n p body s = (ro, t)" by fastforce
  then have oap: "us_append (observed store) n p body (s, calls) = (ro, (t, calls @ [AppendCall n p body ro]))"
    by (simp add: observed_def)
  note step = append_exact_loop.simps [of store n p body m i s] append_exact_loop.simps [of "observed store" n p body m i]
  show ?case
  proof (cases "\<exists>e. ro = Inl (Ambiguous e) \<and> i < m")
    case True
    then obtain e where e: "ro = Inl (Ambiguous e)" and lt: "m - (i + 1) < m - i" and i: "i < m" by auto
    have "append_exact_loop (observed store) n p body m (i + 1) (t, calls @ [AppendCall n p body ro]) = (r, (s', calls'))"
      using less.prems oap e i by (simp add: step)
    from less.hyps [OF lt this] obtain es answer reads where
      "append_exact_loop store n p body m (i + 1) t = (r, s')"
      "calls' = (calls @ [AppendCall n p body ro]) @ lost_attempts n p body es @ AppendCall n p body answer # reads"
      "length es \<le> m - (i + 1)" "\<forall>e. answer = Inl (Ambiguous e) \<longrightarrow> length es = m - (i + 1)" "exact_end n body answer reads r"
      by blast
    with ap e i show ?thesis
      by (intro conjI exI [of _ "e # es"] exI [of _ answer] exI [of _ reads]) (auto simp: step(1))
  next
    case False
    note no_retry = False
    show ?thesis
    proof (cases "\<exists>k. ro = Inr (Duplicate k)")
      case True
      then obtain k where k: "ro = Inr (Duplicate k)" by blast
      obtain rv u c where v: "exact_verify_duplicate_bytes (observed store) n k body
          (t, calls @ [AppendCall n p body ro]) = (rv, (u, c))" by (metis prod.collapse)
      with less.prems oap k have out: "s' = u" "calls' = c" "r = map_sum id (\<lambda>_. VerifiedDuplicate k) rv"
        by (cases rv; auto simp: step)+
      from observed_verify [OF v] obtain reads where
        vs: "exact_verify_duplicate_bytes store n k body t = (rv, u)"
        and c: "c = calls @ [AppendCall n p body ro] @ reads"
        and reads: "reads = [] \<and> rv \<noteq> Inr () \<or>
          (\<exists>start. reads = [RangeCall n start (length body)] \<and> unat start + length body = unat k)"
        by auto
      have "append_exact_loop store n p body m i s = (r, s')"
        using ap k vs out by (cases rv) (auto simp: step(1))
      moreover have "exact_end n body ro reads r"
        using reads out(3) k by (cases rv) (auto simp: exact_end_def)
      ultimately show ?thesis
        using c k out(2) by (intro conjI exI [of _ "[]"] exI [of _ ro] exI [of _ reads]) auto
    next
      case False
      with no_retry less.prems ap oap
      have "append_exact_loop store n p body m i s = (r, s') \<and> calls' = calls @ [AppendCall n p body ro] \<and>
          exact_end n body ro [] r"
        by (cases ro) (auto simp: step exact_end_def split: append_outcome.splits store_error.splits if_splits)
      with no_retry show ?thesis
        by (intro conjI exI [of _ "[]"] exI [of _ ro] exI [of _ "[]"]) auto
    qed
  qed
qed

text \<open>A first append of a producer on a store without a script commits at once.\<close>

lemma memory_fresh_append:
  assumes "body \<noteq> []" and "length (stream_bytes s n @ body) < 2 ^ 64" and "ms_behaviors s = []"
    and "ms_producers s (n, pt_id p) = None" and "pt_sequence p = 0"
  shows "append_exact_with_retry memory_store n p body m s =
    (Inr (Committed (of_nat (length (stream_bytes s n @ body)))),
     s\<lparr>ms_attempts := ms_attempts s @ [(p, body)],
       ms_streams := (ms_streams s)(n \<mapsto> stream_bytes s n @ body),
       ms_producers := (ms_producers s)((n, pt_id p) \<mapsto>
         \<lparr>pr_sequence = 0, pr_next_offset = of_nat (length (stream_bytes s n @ body))\<rparr>)\<rparr>)"
  using assms by (simp add: append_exact_with_retry_def append_exact_loop.simps memory_append_def
      memory_admit_def pop_behavior_def memory_commit_def u64_of_usize_def set_stream_bytes_def Let_def)

section \<open>Properties\<close>

text \<open>The state and script of the witnesses: the first commit's response is lost, once.\<close>

definition lossy_memory :: memory_state where
  "lossy_memory = memory_new\<lparr>ms_behaviors := [AmbiguousOutcome, CommitThenAmbiguous]\<rparr>"

definition sample_producer :: producer_tuple where
  "sample_producer = \<lparr>pt_id = ''p'', pt_epoch = 0, pt_sequence = 0\<rparr>"

lemmas memory_run = append_exact_with_retry_def append_exact_loop.simps memory_append_def
  memory_admit_def pop_behavior_def memory_commit_def stream_bytes_def set_stream_bytes_def
  exact_verify_duplicate_bytes_def memory_read_range_def memory_new_def lossy_memory_def
  sample_producer_def u64_of_usize_def u64_checked_sub_def checked_add_def usize_limit_def Let_def

lemma lossy_run:
  "append_exact_with_retry memory_store ''d'' sample_producer [1, 2, 3] 2 lossy_memory =
     (Inr (VerifiedDuplicate 3), snd (append_exact_with_retry memory_store ''d'' sample_producer [1, 2, 3] 2 lossy_memory))"
  by (simp add: memory_run)

text \<open>
  C22. A successful exact append is durable at the offset it reports, whatever other writers
  do and however often it was retried: on every store that meets the append-only contract,
  the stream holds exactly the submitted bytes below that offset, and no stream lost or
  changed a byte.
\<close>

theorem append_exact_durable:
  assumes "append_only_store store content valid" and "valid s"
    and "append_exact_with_retry store n p body m s = (r, s')"
  shows "(\<forall>l. prefix (content s l) (content s' l)) \<and>
    (\<forall>x. r = Inr x \<longrightarrow> body \<noteq> [] \<and> stored_at (content s' n) (exact_offset x) body)"
  using append_only_store.append_exact_run [OF assms] by (simp add: grows_def)

theorem append_exact_durable_witness:
  "stored_at (stream_bytes (snd (append_exact_with_retry memory_store ''d'' sample_producer [1, 2, 3] 2
      lossy_memory)) ''d'') 3 [1, 2, 3]"
  using append_exact_durable [OF memory.append_only_store_axioms TrueI lossy_run] by simp

text \<open>
  C23. Retrying never duplicates data. On a store that deduplicates producer tuples for its
  single writer and whose reads are fresh, all the attempts of one exact append together append the body at most once,
  whether the call succeeds or fails; they append it only if the tuple was new, they touch no
  other stream, and an outcome of \<open>Committed\<close> means it was appended.
\<close>

theorem append_exact_at_most_once:
  assumes "exclusive_store store content valid seen" and "valid s"
    and "append_exact_with_retry store n p body m s = (r, s')"
  shows "(\<forall>l. l \<noteq> n \<longrightarrow> content s' l = content s l) \<and>
    (content s' n = content s n \<and> (\<forall>k. r \<noteq> Inr (Committed k)) \<or>
     content s' n = content s n @ body \<and> \<not> covered (seen s n (pt_id p)) p)"
  using exclusive_store.append_exact_once [OF assms] .

lemma lossy_honest: "memory_honest lossy_memory"
  by (simp add: memory_honest_def lossy_memory_def memory_new_def)

theorem append_exact_at_most_once_witness:
  "stream_bytes (snd (append_exact_with_retry memory_store ''d'' sample_producer [1, 2, 3] 2
      lossy_memory)) ''d'' \<in> {[], [1, 2, 3]}"
  using append_exact_at_most_once [OF memory_exclusive.exclusive_store_axioms lossy_honest lossy_run]
  by (auto simp: lossy_memory_def memory_new_def stream_bytes_def)

text \<open>
  C24. What an exact append asks of a store, on any store whatsoever, the HTTP client
  included. It first makes at most \<open>max_ambiguous_retries\<close> attempts whose answers are lost,
  then one whose answer ends the call, every one with the same stream, tuple and bytes; the
  last answer is lost too only when the retries are used up. A commit or an error is passed on
  as it is, with no further call; a duplicate is followed by at most one read, of as many
  bytes as the body has, below the reported offset, without which the call does not succeed.
  So it makes at most \<open>max_ambiguous_retries + 2\<close> calls of the store.
\<close>

theorem append_exact_calls:
  assumes "append_exact_with_retry (observed store) n p body m (s, []) = (r, (s', calls))" and "body \<noteq> []"
  shows "append_exact_with_retry store n p body m s = (r, s') \<and> length calls \<le> m + 2 \<and>
    (\<exists>es answer reads. calls = map (\<lambda>e. AppendCall n p body (Inl (Ambiguous e))) es @ AppendCall n p body answer # reads \<and>
      length es \<le> m \<and> (\<forall>e. answer = Inl (Ambiguous e) \<longrightarrow> length es = m) \<and>
      (case answer of
         Inl e \<Rightarrow> reads = [] \<and> r = Inl e
       | Inr (append_outcome.Committed k) \<Rightarrow> reads = [] \<and> r = Inr (Committed k)
       | Inr (Duplicate k) \<Rightarrow>
           (reads = [] \<or> (\<exists>start. reads = [RangeCall n start (length body)] \<and> unat start + length body = unat k)) \<and>
           (\<forall>x. r = Inr x \<longrightarrow> x = VerifiedDuplicate k \<and> reads \<noteq> [])))"
proof -
  have "append_exact_loop (observed store) n p body m 0 (s, []) = (r, (s', calls))"
    using assms by (simp add: append_exact_with_retry_def)
  from observed_loop [OF this] obtain es answer reads where
    run: "append_exact_loop store n p body m 0 s = (r, s')"
    and calls: "calls = lost_attempts n p body es @ AppendCall n p body answer # reads"
    and len: "length es \<le> m" "\<forall>e. answer = Inl (Ambiguous e) \<longrightarrow> length es = m"
    and fin: "exact_end n body answer reads r"
    by auto
  have "length reads \<le> 1"
    using fin by (auto simp: exact_end_def split: sum.splits append_outcome.splits)
  then have "length calls \<le> m + 2"
    using len(1) by (simp add: calls)
  moreover have "append_exact_with_retry store n p body m s = (r, s')"
    using run assms(2) by (simp add: append_exact_with_retry_def)
  ultimately show ?thesis
    using calls len fin unfolding exact_end_def by blast
qed

text \<open>
  The first answer is lost before the commit, the second after it, and the third says duplicate:
  three attempts and the read that verifies the last answer.
\<close>

theorem append_exact_calls_witness:
  "\<exists>calls s. append_exact_with_retry (observed memory_store) ''d'' sample_producer [1, 2, 3] 2 (lossy_memory, []) =
      (Inr (VerifiedDuplicate 3), (s, calls)) \<and>
    append_exact_with_retry memory_store ''d'' sample_producer [1, 2, 3] 2 lossy_memory = (Inr (VerifiedDuplicate 3), s) \<and>
    length calls = 4"
proof -
  obtain s calls where run: "append_exact_with_retry (observed memory_store) ''d'' sample_producer [1, 2, 3] 2 (lossy_memory, []) =
      (Inr (VerifiedDuplicate 3), (s, calls))" and len: "length calls = 4"
    by (simp add: memory_run observed_def)
  from append_exact_calls [OF run] show ?thesis
    using run len by blast
qed

end
