(* ===== verification/Checkpoint_Store.thy ===== *)
theory Checkpoint_Store
  imports Exact_Append Checkpoint
begin

text \<open>
  \<open>src/checkpoint_store.rs\<close>: a checkpoint is written once to the stream of its generation and
  never replaced; a stream that already holds the same bytes is accepted as written.
\<close>

section \<open>The code\<close>

datatype checkpoint_write_outcome =
    Committed (cw_stream: string) (cw_next_offset: u64)
  | VerifiedDuplicate (cw_stream: string) (cw_next_offset: u64)
  | VerifiedExisting (cw_stream: string) (cw_next_offset: u64)

datatype checkpoint_write_error =
    Encode checkpoint_error
  | Store store_error
  | WrongRoom
  | GenerationMismatch u64 u64
  | ExistingBytesMismatch
  | UnexpectedEndOffset u64 u64
  | LengthOverflow

definition checkpoint_producer_id :: "hashes \<Rightarrow> string \<Rightarrow> generation_id \<Rightarrow> string" where
  "checkpoint_producer_id h room_id generation =
     ''qlg-checkpoint-'' @ document_hash h room_id @ ''-'' @ show_u64 (gen_value generation)"

definition persist_checkpoint ::
  "hashes \<Rightarrow> 's ursula_store \<Rightarrow> string \<Rightarrow> generation_id \<Rightarrow> checkpoint_record \<Rightarrow> nat \<Rightarrow> 's \<Rightarrow>
   (checkpoint_write_error + checkpoint_write_outcome) \<times> 's" where
  "persist_checkpoint h store room_id generation r max_ambiguous_retries s =
     (if \<not> checkpoint_belongs_to_room h r room_id then (Inl WrongRoom, s) else
      if cp_checkpoint_generation r \<noteq> gen_value generation
      then (Inl (GenerationMismatch (gen_value generation) (cp_checkpoint_generation r)), s) else
      s_bind (map_err Encode (checkpoint_encode h r), s) (\<lambda>bs s.
      let stream = physical (checkpoint_stream h room_id generation) in
      s_bind (s_err Store (us_ensure_stream store stream s)) (\<lambda>_ s.
      s_bind (s_err Store (us_read_all store stream s)) (\<lambda>existing s.
      if existing \<noteq> [] then
        (if existing \<noteq> bs then (Inl ExistingBytesMismatch, s) else
         s_bind (ok_or LengthOverflow (u64_of_usize (length existing)), s) (\<lambda>next_offset s.
         (Inr (VerifiedExisting stream next_offset), s)))
      else
        let producer = \<lparr>pt_id = checkpoint_producer_id h room_id generation, pt_epoch = 0,
              pt_sequence = 0\<rparr> in
        s_bind (s_err Store (append_exact_with_retry store stream producer bs
                               max_ambiguous_retries s)) (\<lambda>appended s.
        let next_offset = exact_offset appended in
        s_bind (ok_or LengthOverflow (u64_of_usize (length bs)), s) (\<lambda>expected_offset s.
        if next_offset \<noteq> expected_offset
        then (Inl (UnexpectedEndOffset expected_offset next_offset), s) else
        (Inr (case appended of
                exact_append_outcome.Committed _ \<Rightarrow> Committed stream next_offset
              | exact_append_outcome.VerifiedDuplicate _ \<Rightarrow> VerifiedDuplicate stream next_offset), s)))))))"

section \<open>What a write guarantees\<close>

lemma checkpoint_encode_nonempty:
  "checkpoint_encode h r = Inr bs \<Longrightarrow> bs \<noteq> [] \<and> length bs < 2 ^ 64"
  using length_checkpoint_layout [of h r]
  by (auto simp: checkpoint_encode_def checkpoint_encode_Inr_iff checkpoint_admitted_def usize_limit_def
      checkpoint_total_def checkpoint_fixed_header_def simp del: length_checkpoint_layout)

context append_only_store
begin

lemma persist_run:
  assumes v: "valid s" and run: "persist_checkpoint h store room g r m s = (res, s')"
  shows "grows content valid s s' \<and> (\<forall>x. res = Inr x \<longrightarrow>
    (\<exists>bs. checkpoint_encode h r = Inr bs \<and> prefix bs (content s' (physical (checkpoint_stream h room g))) \<and>
      cw_stream x = physical (checkpoint_stream h room g) \<and> cw_next_offset x = of_nat (length bs) \<and>
      checkpoint_belongs_to_room h r room \<and> cp_checkpoint_generation r = gen_value g))"
proof
  let ?n = "physical (checkpoint_stream h room g)"
  have "grows content valid s (snd (persist_checkpoint h store room g r m s))"
    unfolding persist_checkpoint_def Let_def
    by (auto intro!: store_steps append_exact_step grows_start [OF v])
  then show "grows content valid s s'"
    by (simp add: run)
  show "\<forall>x. res = Inr x \<longrightarrow> (\<exists>bs. checkpoint_encode h r = Inr bs \<and> prefix bs (content s' ?n) \<and>
      cw_stream x = ?n \<and> cw_next_offset x = of_nat (length bs) \<and>
      checkpoint_belongs_to_room h r room \<and> cp_checkpoint_generation r = gen_value g)"
  proof (intro allI impI)
    fix x
    assume res: "res = Inr x"
    show "\<exists>bs. checkpoint_encode h r = Inr bs \<and> prefix bs (content s' ?n) \<and> cw_stream x = ?n \<and>
        cw_next_offset x = of_nat (length bs) \<and> checkpoint_belongs_to_room h r room \<and>
        cp_checkpoint_generation r = gen_value g"
    proof -
      have meta: "checkpoint_belongs_to_room h r room" "cp_checkpoint_generation r = gen_value g"
        using run res by (auto simp: persist_checkpoint_def split: if_splits)
      from run res obtain bs s1 u existing s2 where enc: "checkpoint_encode h r = Inr bs"
        and ens: "us_ensure_stream store ?n s = (Inr u, s1)"
        and rd: "us_read_all store ?n s1 = (Inr existing, s2)"
        and tail: "existing = bs \<and> s2 = s' \<and> existing \<noteq> [] \<and>
              Some (cw_next_offset x) = u64_of_usize (length bs) \<and> cw_stream x = ?n \<or>
            (\<exists>y p. existing = [] \<and> append_exact_with_retry store ?n p bs m s2 = (Inr y, s') \<and>
              u64_of_usize (length bs) = Some (exact_offset y) \<and> cw_next_offset x = exact_offset y \<and>
              cw_stream x = ?n)"
        by (auto simp: persist_checkpoint_def Let_def elim!: s_bindE s_errE
            split: if_splits exact_append_outcome.splits) fastforce+
      have v1: "valid s1" and v2: "valid s2"
        using ensure_law [OF v ens] read_all_law [of s1 ?n "Inr existing" s2] rd by auto
      have len: "bs \<noteq> []" "length bs < 2 ^ 64"
        using checkpoint_encode_nonempty [OF enc] by auto
      from tail show ?thesis
      proof (elim disjE exE conjE)
        assume "existing = bs" "s2 = s'" "Some (cw_next_offset x) = u64_of_usize (length bs)" "cw_stream x = ?n"
        with read_all_prefix [OF v1 rd] enc meta show ?thesis
          by (auto simp: u64_of_usize_def split: if_splits)
      next
        fix y p
        assume ap: "append_exact_with_retry store ?n p bs m s2 = (Inr y, s')"
          and off: "u64_of_usize (length bs) = Some (exact_offset y)"
          and x: "cw_next_offset x = exact_offset y" "cw_stream x = ?n"
        have "stored_at (content s' ?n) (exact_offset y) bs"
          using append_exact_run [OF v2 ap] by simp
        then have "prefix ([] @ bs) (content s' ?n)"
          by (rule stored_at_extends) (use u64_of_usize_unat [OF off] in simp_all)
        with off x enc meta show ?thesis
          by (auto simp: u64_of_usize_Some_iff)
      qed
    qed
  qed
qed

end

context exclusive_store
begin

text \<open>
  With a single writer: no other stream changes, a stream that holds bytes is never written,
  and after a success the stream holds exactly the encoded record.
\<close>

lemma persist_exclusive:
  assumes v: "valid s" and run: "persist_checkpoint h store room g r m s = (res, s')"
  defines "n \<equiv> physical (checkpoint_stream h room g)"
  shows "(\<forall>l. l \<noteq> n \<longrightarrow> content s' l = content s l) \<and>
    (content s n \<noteq> [] \<longrightarrow> content s' n = content s n) \<and>
    (\<forall>x bs. res = Inr x \<longrightarrow> checkpoint_encode h r = Inr bs \<longrightarrow> content s' n = bs)"
proof (cases "checkpoint_belongs_to_room h r room \<and> cp_checkpoint_generation r = gen_value g")
  case False
  with run have "s' = s \<and> (\<exists>e. res = Inl e)"
    by (auto simp: persist_checkpoint_def split: if_splits)
  then show ?thesis by auto
next
  case True
  show ?thesis
  proof (cases "checkpoint_encode h r")
    case (Inl e)
    with run True show ?thesis by (auto simp: persist_checkpoint_def)
  next
    case (Inr bs)
    note enc = Inr
    obtain re t where ens: "us_ensure_stream store n s = (re, t)"
      by (cases "us_ensure_stream store n s") auto
    have t: "valid t" "content t = content s" "seen t = seen s"
      using ensure_law [OF v ens] ensure_same [OF v ens] by auto
    show ?thesis
    proof (cases re)
      case (Inl e)
      with run True enc ens t show ?thesis by (auto simp: persist_checkpoint_def n_def Let_def)
    next
      case (Inr unit)
      obtain ra u where rd: "us_read_all store n t = (ra, u)"
        by (cases "us_read_all store n t") auto
      have u: "valid u" "content u = content s" "seen u = seen s"
        using read_all_law [OF t(1) rd] read_all_fresh [OF t(1) rd] t by auto
      show ?thesis
      proof (cases ra)
        case (Inl e)
        with run True enc ens Inr rd u show ?thesis by (auto simp: persist_checkpoint_def n_def Let_def)
      next
        case existing: (Inr existing)
        then have ex: "existing = content s n"
          using read_all_fresh [OF t(1) rd] t by auto
        show ?thesis
        proof (cases "existing = []")
          case False
          with run True enc ens Inr rd existing u ex show ?thesis
            by (auto simp: persist_checkpoint_def n_def Let_def elim!: s_bindE split: if_splits)
        next
          case empty: True
          obtain ap w where app: "append_exact_with_retry store n
              \<lparr>pt_id = checkpoint_producer_id h room g, pt_epoch = 0, pt_sequence = 0\<rparr> bs m u = (ap, w)"
            by fastforce
          have s': "s' = w" and ok: "\<And>x. res = Inr x \<Longrightarrow> \<exists>y. ap = Inr y"
            using run True enc ens Inr rd existing empty app
            by (auto simp: persist_checkpoint_def n_def Let_def elim!: s_bindE s_errE split: if_splits)
          have once: "(\<forall>l. l \<noteq> n \<longrightarrow> content w l = content s l) \<and>
              (content w n = [] \<or> content w n = bs)"
            using append_exact_once [OF u(1) app] u ex empty by auto
          have "bs \<noteq> [] \<and> content w n \<noteq> []" if "ap = Inr y" for y
            using append_exact_run [OF u(1) app] that by (auto simp: stored_at_def)
          with once ok ex empty s' enc show ?thesis by auto
        qed
      qed
    qed
  qed
qed

end

section \<open>Properties\<close>

text \<open>A checkpoint of room \<open>room-a\<close> for the witnesses.\<close>

definition sample_checkpoint :: checkpoint_record where
  "sample_checkpoint = checkpoint_record_new sample_hashes ''room-a'' 4 4 123 [1, 5, 6] [[3, 9, 8]]"

lemma default_checkpoint_limits_sel [simp]:
  "cl_max_record_bytes default_checkpoint_limits = 134217728"
  "cl_max_snapshot_bytes default_checkpoint_limits = 67108864"
  "cl_max_pending_updates default_checkpoint_limits = 4096"
  "cl_max_pending_update_bytes default_checkpoint_limits = 33554432"
  "cl_max_pending_updates_bytes default_checkpoint_limits = 67108864"
  by (simp_all add: default_checkpoint_limits_def)

lemma sample_checkpoint_encode:
  "checkpoint_encode sample_hashes sample_checkpoint = Inr (checkpoint_layout sample_hashes sample_checkpoint)"
  by (simp add: checkpoint_encode_def checkpoint_encode_Inr_iff checkpoint_admitted_def sample_checkpoint_def
      checkpoint_record_new_def checkpoint_total_def checkpoint_fixed_header_def
      checkpoint_fixed_suffix_def usize_limit_def)

text \<open>
  C25. A checkpoint reported as written is durable, with other writers on the stream too: on
  every store that meets the append-only contract, success means that the record belongs to
  the room and generation, that the stream of that generation begins with exactly its
  encoding, and that the reported offset is the length of it. No stream loses a byte.
\<close>

theorem persist_checkpoint_durable:
  assumes "append_only_store store content valid" and "valid s"
    and "persist_checkpoint h store room g r m s = (res, s')"
  shows "(\<forall>l. prefix (content s l) (content s' l)) \<and> (\<forall>x. res = Inr x \<longrightarrow>
    (\<exists>bs. checkpoint_encode h r = Inr bs \<and> prefix bs (content s' (physical (checkpoint_stream h room g))) \<and>
      cw_stream x = physical (checkpoint_stream h room g) \<and> cw_next_offset x = of_nat (length bs) \<and>
      checkpoint_belongs_to_room h r room \<and> cp_checkpoint_generation r = gen_value g))"
  using append_only_store.persist_run [OF assms] by (auto simp: grows_def)

text \<open>
  C26. A stored checkpoint is never replaced. With a single writer and fresh reads, writing a
  checkpoint changes no stream but the one of its generation, changes nothing at all if that stream
  already holds bytes, and after a success that stream holds exactly the encoded record.
\<close>

theorem persist_checkpoint_immutable:
  assumes "exclusive_store store content valid seen" and "valid s"
    and "persist_checkpoint h store room g r m s = (res, s')"
  shows "(\<forall>l. l \<noteq> physical (checkpoint_stream h room g) \<longrightarrow> content s' l = content s l) \<and>
    (content s (physical (checkpoint_stream h room g)) \<noteq> [] \<longrightarrow>
       content s' (physical (checkpoint_stream h room g)) = content s (physical (checkpoint_stream h room g))) \<and>
    (\<forall>x bs. res = Inr x \<longrightarrow> checkpoint_encode h r = Inr bs \<longrightarrow>
       content s' (physical (checkpoint_stream h room g)) = bs)"
  using exclusive_store.persist_exclusive [OF assms] .

lemma sample_persist:
  "persist_checkpoint sample_hashes memory_store ''room-a'' (GenerationId 4) sample_checkpoint 1 memory_new =
     (Inr (Committed (physical (checkpoint_stream sample_hashes ''room-a'' (GenerationId 4))) 138),
      snd (persist_checkpoint sample_hashes memory_store ''room-a'' (GenerationId 4) sample_checkpoint 1 memory_new))"
proof -
  define n where "n = physical (checkpoint_stream sample_hashes ''room-a'' (GenerationId 4))"
  define bs where "bs = checkpoint_layout sample_hashes sample_checkpoint"
  have len: "length bs = 138"
    by (simp add: bs_def checkpoint_total_def sample_checkpoint_def checkpoint_record_new_def
        checkpoint_fixed_header_def checkpoint_fixed_suffix_def)
  then have ne: "bs \<noteq> []" by auto
  have room: "checkpoint_belongs_to_room sample_hashes sample_checkpoint ''room-a''"
    "cp_checkpoint_generation sample_checkpoint = 4"
    by (simp_all add: sample_checkpoint_def checkpoint_record_new_def checkpoint_belongs_to_room_def)
  show ?thesis
    using len ne by (simp add: persist_checkpoint_def Let_def room sample_checkpoint_encode
        memory_ensure_stream_def memory_read_all_def memory_new_def set_stream_bytes_def stream_bytes_def
        memory_fresh_append u64_of_usize_def flip: n_def bs_def)
qed

theorem persist_checkpoint_durable_witness:
  "prefix (checkpoint_layout sample_hashes sample_checkpoint)
     (stream_bytes (snd (persist_checkpoint sample_hashes memory_store ''room-a'' (GenerationId 4)
        sample_checkpoint 1 memory_new)) (physical (checkpoint_stream sample_hashes ''room-a'' (GenerationId 4))))"
  using persist_checkpoint_durable [OF memory.append_only_store_axioms TrueI sample_persist]
  by (simp add: sample_checkpoint_encode)

theorem persist_checkpoint_immutable_witness:
  "stream_bytes (snd (persist_checkpoint sample_hashes memory_store ''room-a'' (GenerationId 4)
      sample_checkpoint 1 memory_new)) (physical (checkpoint_stream sample_hashes ''room-a'' (GenerationId 4))) =
   checkpoint_layout sample_hashes sample_checkpoint"
proof -
  have "memory_honest memory_new"
    by (simp add: memory_honest_def memory_new_def)
  from persist_checkpoint_immutable [OF memory_exclusive.exclusive_store_axioms this sample_persist]
  show ?thesis by (simp add: sample_checkpoint_encode)
qed

end
