(* ===== verification/Manifest_Store.thy ===== *)
theory Manifest_Store
  imports Exact_Append Manifest
begin

text \<open>
  \<open>src/manifest_store.rs\<close>: a manifest record is published by validating the stored chain
  extended by it and appending it at the end of the manifest stream.
\<close>

section \<open>The code\<close>

datatype manifest_write_outcome =
    Committed (mw_stream: string) (mw_next_offset: u64)
  | VerifiedDuplicate (mw_stream: string) (mw_next_offset: u64)
  | VerifiedExisting (mw_stream: string) (mw_next_offset: u64)

datatype manifest_write_error =
    ManifestFailed manifest_error
  | Store store_error
  | WrongRoom
  | UnexpectedRevision u64 u64
  | PreviousDigestMismatch
  | RevisionOverflow
  | LengthOverflow
  | UnexpectedEndOffset u64 u64

definition manifest_producer_id :: "hashes \<Rightarrow> string \<Rightarrow> string" where
  "manifest_producer_id h room_id = ''qlg-manifest-'' @ document_hash h room_id"

text \<open>\<open>ends_with\<close> of a byte slice.\<close>

definition ends_with :: "bytes \<Rightarrow> bytes \<Rightarrow> bool" where
  "ends_with bs tail \<longleftrightarrow> length tail \<le> length bs \<and> drop (length bs - length tail) bs = tail"

text \<open>
  The part of \<open>publish_manifest_record\<close> that looks at the stored bytes: \<open>None\<close> when the
  record is already the last one, otherwise the records of the extended chain.
\<close>

definition manifest_extend ::
  "hashes \<Rightarrow> string \<Rightarrow> manifest_record \<Rightarrow> bytes \<Rightarrow> bytes \<Rightarrow>
   manifest_write_error + manifest_record list option" where
  "manifest_extend h room_id r encoded existing =
     (if existing = [] then
        (if mf_revision r \<noteq> 0 then Inl (UnexpectedRevision 0 (mf_revision r)) else
         if mf_previous_record_digest r \<noteq> genesis_digest then Inl PreviousDigestMismatch else
         Inr (Some []))
      else
        r_bind (map_err ManifestFailed (decode_manifest_stream h default_manifest_limits existing))
          (\<lambda>records.
        r_bind (map_err ManifestFailed (validate_manifest_chain h records room_id)) (\<lambda>latest.
        if latest = r \<and> ends_with existing encoded then Inr None else
        r_bind (ok_or RevisionOverflow (u64_checked_add (mf_revision latest) 1)) (\<lambda>expected_revision.
        if mf_revision r \<noteq> expected_revision
        then Inl (UnexpectedRevision expected_revision (mf_revision r)) else
        if mf_previous_record_digest r \<noteq> mf_digest latest then Inl PreviousDigestMismatch else
        Inr (Some records)))))"

definition publish_manifest_record ::
  "hashes \<Rightarrow> 's ursula_store \<Rightarrow> string \<Rightarrow> manifest_record \<Rightarrow> nat \<Rightarrow> 's \<Rightarrow>
   (manifest_write_error + manifest_write_outcome) \<times> 's" where
  "publish_manifest_record h store room_id r max_ambiguous_retries s =
     (if \<not> manifest_belongs_to_room h r room_id then (Inl WrongRoom, s) else
      s_bind (map_err ManifestFailed (manifest_encode h r), s) (\<lambda>encoded s.
      let stream = physical (manifest_stream h room_id) in
      s_bind (s_err Store (us_ensure_stream store stream s)) (\<lambda>_ s.
      s_bind (s_err Store (us_read_all store stream s)) (\<lambda>existing s.
      s_bind (ok_or LengthOverflow (u64_of_usize (length existing)), s) (\<lambda>existing_len s.
      s_bind (manifest_extend h room_id r encoded existing, s) (\<lambda>extended s.
      case extended of
        None \<Rightarrow> (Inr (VerifiedExisting stream existing_len), s)
      | Some records \<Rightarrow>
          s_bind (map_err ManifestFailed (validate_manifest_chain h (records @ [r]) room_id), s)
            (\<lambda>_ s.
          let producer = \<lparr>pt_id = manifest_producer_id h room_id, pt_epoch = 0,
                pt_sequence = mf_revision r\<rparr> in
          s_bind (s_err Store (append_exact_with_retry store stream producer encoded
                                 max_ambiguous_retries s)) (\<lambda>appended s.
          s_bind (ok_or LengthOverflow (u64_of_usize (length encoded)), s) (\<lambda>encoded_len s.
          s_bind (ok_or LengthOverflow (u64_checked_add existing_len encoded_len), s)
            (\<lambda>expected_end s.
          let next_offset = exact_offset appended in
          if next_offset \<noteq> expected_end
          then (Inl (UnexpectedEndOffset expected_end next_offset), s) else
          (Inr (case appended of
                  exact_append_outcome.Committed _ \<Rightarrow> Committed stream next_offset
                | exact_append_outcome.VerifiedDuplicate _ \<Rightarrow>
                    VerifiedDuplicate stream next_offset), s)))))))))))"

section \<open>What a publication guarantees\<close>

text \<open>The bytes hold a valid chain of the room that ends in the record.\<close>

definition chain_with_head :: "hashes \<Rightarrow> string \<Rightarrow> bytes \<Rightarrow> manifest_record \<Rightarrow> bool" where
  "chain_with_head h room bs r \<longleftrightarrow>
     (\<exists>rs. bs = concat (map (manifest_layout h) (rs @ [r])) \<and>
       (\<forall>x \<in> set (rs @ [r]). manifest_admitted h default_manifest_limits x) \<and>
       manifest_chain h room (rs @ [r]))"

lemma manifest_encode_layout:
  "manifest_encode h r = Inr bs \<longleftrightarrow>
     manifest_admitted h default_manifest_limits r \<and> bs = manifest_layout h r"
  by (simp add: manifest_encode_def manifest_encode_Inr_iff)

lemma manifest_extend_Some:
  assumes "manifest_extend h room r encoded existing = Inr (Some records)" and "length existing < usize_limit"
    and "validate_manifest_chain h (records @ [r]) room = Inr r'" and "manifest_encode h r = Inr encoded"
  shows "chain_with_head h room (existing @ encoded) r"
proof -
  have "existing = concat (map (manifest_layout h) records) \<and>
      (\<forall>x \<in> set records. manifest_admitted h default_manifest_limits x)"
    using assms(1,2) by (auto simp: manifest_extend_def decode_manifest_stream_Inr_iff
        elim!: r_bind_InrE split: if_splits)
  with assms(3,4) show ?thesis
    by (auto simp: chain_with_head_def manifest_encode_layout validate_manifest_chain_eq intro!: exI [of _ records])
qed

lemma manifest_extend_None:
  assumes "manifest_extend h room r encoded existing = Inr None" and "length existing < usize_limit"
  shows "chain_with_head h room existing r"
proof -
  from assms obtain records where
    dec: "decode_manifest_stream h default_manifest_limits existing = Inr records" and
    val: "validate_manifest_chain h records room = Inr r"
    by (auto simp: manifest_extend_def elim!: r_bind_InrE split: if_splits)
  from val have chain: "manifest_chain h room records" and r: "r = last records"
    by (auto simp: validate_manifest_chain_eq)
  then have "records = butlast records @ [r]"
    by (simp add: manifest_chain_def)
  with dec chain show ?thesis
    unfolding chain_with_head_def
    by (intro exI [of _ "butlast records"]) (simp add: decode_manifest_stream_Inr_iff [OF assms(2)])
qed

text \<open>The calls a successful publication makes.\<close>

lemma publish_success:
  assumes "publish_manifest_record h store room r m s = (Inr x, s')"
  defines "n \<equiv> physical (manifest_stream h room)"
  obtains enc s1 existing s2 el ext where "manifest_encode h r = Inr enc"
    and "us_ensure_stream store n s = (Inr (), s1)" and "us_read_all store n s1 = (Inr existing, s2)"
    and "u64_of_usize (length existing) = Some el" and "manifest_extend h room r enc existing = Inr ext"
    and "mw_stream x = n"
    and "ext = None \<and> s' = s2 \<and> mw_next_offset x = el \<or>
      (\<exists>records r' p y nl. ext = Some records \<and> validate_manifest_chain h (records @ [r]) room = Inr r' \<and>
        append_exact_with_retry store n p enc m s2 = (Inr y, s') \<and>
        u64_of_usize (length enc) = Some nl \<and> u64_checked_add el nl = Some (exact_offset y) \<and>
        mw_next_offset x = exact_offset y)"
  using assms(1) unfolding n_def
  by (auto simp: publish_manifest_record_def Let_def elim!: s_bindE s_errE
      split: if_splits option.splits exact_append_outcome.splits) fastforce+

context append_only_store
begin

lemma publish_run:
  assumes v: "valid s" and run: "publish_manifest_record h store room r m s = (res, s')"
  shows "grows content valid s s' \<and> (\<forall>x. res = Inr x \<longrightarrow>
    (\<exists>bs. prefix bs (content s' (physical (manifest_stream h room))) \<and> chain_with_head h room bs r \<and>
      mw_stream x = physical (manifest_stream h room) \<and> mw_next_offset x = of_nat (length bs)))"
proof
  let ?n = "physical (manifest_stream h room)"
  have "grows content valid s (snd (publish_manifest_record h store room r m s))"
    unfolding publish_manifest_record_def Let_def
    by (auto intro!: store_steps append_exact_step grows_start [OF v] split: option.splits)
  then show "grows content valid s s'"
    by (simp add: run)
  show "\<forall>x. res = Inr x \<longrightarrow> (\<exists>bs. prefix bs (content s' ?n) \<and> chain_with_head h room bs r \<and>
      mw_stream x = ?n \<and> mw_next_offset x = of_nat (length bs))"
  proof (intro allI impI)
    fix x
    assume res: "res = Inr x"
    from publish_success [OF run [unfolded res]] obtain enc s1 existing s2 el ext where
      enc: "manifest_encode h r = Inr enc" and
      ens: "us_ensure_stream store ?n s = (Inr (), s1)" and
      rd: "us_read_all store ?n s1 = (Inr existing, s2)" and
      el: "u64_of_usize (length existing) = Some el" and
      ext: "manifest_extend h room r enc existing = Inr ext" and
      mw: "mw_stream x = ?n" and
      tail: "ext = None \<and> s' = s2 \<and> mw_next_offset x = el \<or>
        (\<exists>records r' p y nl. ext = Some records \<and> validate_manifest_chain h (records @ [r]) room = Inr r' \<and>
          append_exact_with_retry store ?n p enc m s2 = (Inr y, s') \<and>
          u64_of_usize (length enc) = Some nl \<and> u64_checked_add el nl = Some (exact_offset y) \<and>
          mw_next_offset x = exact_offset y)" .
    have v1: "valid s1" and v2: "valid s2"
      using ensure_law [OF v ens] read_all_law [of s1 ?n "Inr existing" s2] rd by auto
    have elen: "length existing < usize_limit" "of_nat (length existing) = el"
      using el by (auto simp: u64_of_usize_Some_iff usize_limit_def)
    from tail show "\<exists>bs. prefix bs (content s' ?n) \<and> chain_with_head h room bs r \<and>
        mw_stream x = ?n \<and> mw_next_offset x = of_nat (length bs)"
    proof (elim disjE exE conjE)
      assume "ext = None" "s' = s2" "mw_next_offset x = el"
      with mw manifest_extend_None [of h room r enc existing] ext elen read_all_prefix [OF v1 rd]
      show ?thesis by auto
    next
      fix records r' p y nl
      assume a: "ext = Some records" "validate_manifest_chain h (records @ [r]) room = Inr r'"
        and ap: "append_exact_with_retry store ?n p enc m s2 = (Inr y, s')"
        and nl: "u64_of_usize (length enc) = Some nl" "u64_checked_add el nl = Some (exact_offset y)"
        and x: "mw_next_offset x = exact_offset y"
      have off: "unat (exact_offset y) = length existing + length enc"
        using u64_checked_add_unat [OF nl(2)] u64_of_usize_unat [OF nl(1)] u64_of_usize_unat [OF el] by simp
      have "prefix existing (content s' ?n)"
        using read_all_prefix [OF v1 rd] append_exact_run [OF v2 ap]
        by (auto simp: grows_def intro: prefix_order.order_trans)
      then have "prefix (existing @ enc) (content s' ?n)"
        using stored_at_extends append_exact_run [OF v2 ap] off by blast
      moreover have "chain_with_head h room (existing @ enc) r"
        using manifest_extend_Some [OF _ elen(1) a(2) enc] ext a(1) by simp
      moreover have "exact_offset y = of_nat (length (existing @ enc))"
        using off by (metis length_append of_nat_unat ucast_id)
      ultimately show ?thesis using x mw by auto
    qed
  qed
qed

end

context exclusive_store
begin

lemma publish_touches:
  assumes "valid s" and "publish_manifest_record h store room r m s = (res, s')"
  shows "only_touches content valid {physical (manifest_stream h room)} s s'"
proof -
  have "only_touches content valid {physical (manifest_stream h room)} s
      (snd (publish_manifest_record h store room r m s))"
    unfolding publish_manifest_record_def Let_def
    by (auto intro!: store_touches touches_append_exact touches_start assms(1) split: option.splits)
  then show ?thesis by (simp add: assms(2))
qed

text \<open>After a success the whole manifest stream is a valid chain with the record at its head.\<close>

lemma publish_exclusive:
  assumes v: "valid s" and run: "publish_manifest_record h store room r m s = (Inr x, s')"
  defines "n \<equiv> physical (manifest_stream h room)"
  shows "chain_with_head h room (content s' n) r \<and>
    (content s' n = content s n \<or>
     content s' n = content s n @ manifest_layout h r)"
proof -
  from publish_success [OF run, folded n_def] obtain enc s1 existing s2 el ext where
    enc: "manifest_encode h r = Inr enc" and
    ens: "us_ensure_stream store n s = (Inr (), s1)" and
    rd: "us_read_all store n s1 = (Inr existing, s2)" and
    el: "u64_of_usize (length existing) = Some el" and
    ext: "manifest_extend h room r enc existing = Inr ext" and
    tail: "ext = None \<and> s' = s2 \<and> mw_next_offset x = el \<or>
      (\<exists>records r' p y nl. ext = Some records \<and> validate_manifest_chain h (records @ [r]) room = Inr r' \<and>
        append_exact_with_retry store n p enc m s2 = (Inr y, s') \<and>
        u64_of_usize (length enc) = Some nl \<and> u64_checked_add el nl = Some (exact_offset y) \<and>
        mw_next_offset x = exact_offset y)" .
  have v1: "valid s1" "content s1 = content s" and v2: "valid s2" "content s2 = content s"
    and ex: "existing = content s n"
    using ensure_law [OF v ens] ensure_same [OF v ens] read_all_law [of s1 n "Inr existing" s2]
      read_all_fresh [of s1 n "Inr existing" s2] rd by auto
  have elen: "length existing < usize_limit"
    using el by (auto simp: u64_of_usize_Some_iff usize_limit_def)
  from tail show ?thesis
  proof (elim disjE exE conjE)
    assume "ext = None" "s' = s2"
    with manifest_extend_None [of h room r enc existing] ext elen v2 ex show ?thesis by auto
  next
    fix records r' p y nl
    assume a: "ext = Some records" "validate_manifest_chain h (records @ [r]) room = Inr r'"
      and ap: "append_exact_with_retry store n p enc m s2 = (Inr y, s')"
      and nl: "u64_of_usize (length enc) = Some nl" "u64_checked_add el nl = Some (exact_offset y)"
    have off: "unat (exact_offset y) = length existing + length enc"
      using u64_checked_add_unat [OF nl(2)] u64_of_usize_unat [OF nl(1)] u64_of_usize_unat [OF el] by simp
    have "stored_at (content s' n) (exact_offset y) enc" and "enc \<noteq> []"
      using append_exact_run [OF v2(1) ap] by auto
    then have "length (content s' n) \<ge> length existing + length enc"
      using off by (simp add: stored_at_def)
    with \<open>enc \<noteq> []\<close> append_exact_once [OF v2(1) ap] v2(2) ex
    have "content s' n = existing @ enc" by auto
    moreover have "chain_with_head h room (existing @ enc) r"
      using manifest_extend_Some [OF _ elen a(2) enc] ext a(1) by simp
    ultimately show ?thesis
      using ex enc by (auto simp: manifest_encode_layout)
  qed
qed

end

section \<open>Properties\<close>

text \<open>
  C27. A published manifest record is durable at the head of a valid chain. On every store
  that meets the append-only contract, success means that the manifest stream of the room
  begins with the encodings of a chain that passes validation and ends in the record, and
  that the reported offset is the end of that chain. No stream loses a byte.
\<close>

theorem publish_manifest_durable:
  assumes "append_only_store store content valid" and "valid s"
    and "publish_manifest_record h store room r m s = (res, s')"
  shows "(\<forall>l. prefix (content s l) (content s' l)) \<and> (\<forall>x. res = Inr x \<longrightarrow>
    (\<exists>bs rs. prefix bs (content s' (physical (manifest_stream h room))) \<and>
      bs = concat (map (manifest_layout h) (rs @ [r])) \<and>
      traverse (manifest_encode h) (rs @ [r]) = Inr (map (manifest_layout h) (rs @ [r])) \<and>
      validate_manifest_chain h (rs @ [r]) room = Inr r \<and>
      mw_stream x = physical (manifest_stream h room) \<and> mw_next_offset x = of_nat (length bs)))"
proof -
  have "\<exists>rs. bs = concat (map (manifest_layout h) (rs @ [r])) \<and>
      traverse (manifest_encode h) (rs @ [r]) = Inr (map (manifest_layout h) (rs @ [r])) \<and>
      validate_manifest_chain h (rs @ [r]) room = Inr r" if chain: "chain_with_head h room bs r" for bs
  proof -
    from chain obtain rs where "bs = concat (map (manifest_layout h) (rs @ [r]))"
      and "\<forall>x \<in> set (rs @ [r]). manifest_admitted h default_manifest_limits x"
      and "manifest_chain h room (rs @ [r])"
      by (auto simp: chain_with_head_def)
    then show ?thesis
      by (intro exI [of _ rs] conjI traverse_map)
        (auto simp: validate_manifest_chain_eq manifest_encode_layout)
  qed
  with append_only_store.publish_run [OF assms] show ?thesis
    unfolding grows_def by blast
qed

lemma sample_publish:
  "publish_manifest_record sample_hashes memory_store ''room-a'' (hd sample_chain) 1 memory_new =
     (Inr (Committed (physical (manifest_stream sample_hashes ''room-a'')) 188),
      snd (publish_manifest_record sample_hashes memory_store ''room-a'' (hd sample_chain) 1 memory_new))"
proof -
  define n where "n = physical (manifest_stream sample_hashes ''room-a'')"
  define bs where "bs = manifest_layout sample_hashes (hd sample_chain)"
  have enc: "manifest_encode sample_hashes (hd sample_chain) = Inr bs"
    by (simp add: bs_def manifest_encode_layout sample_manifest_admitted)
  have len: "length bs = 188" and ne: "bs \<noteq> []"
    by (auto simp: bs_def simp flip: length_greater_0_conv)
  have fields: "manifest_belongs_to_room sample_hashes (hd sample_chain) ''room-a''"
    "mf_revision (hd sample_chain) = 0" "mf_previous_record_digest (hd sample_chain) = genesis_digest"
    by (simp_all add: sample_chain_def sample_manifest_def manifest_belongs_to_room_def)
  then have chain: "validate_manifest_chain sample_hashes [hd sample_chain] ''room-a'' = Inr (hd sample_chain)"
    by (simp add: validate_manifest_chain_eq manifest_chain_single)
  show ?thesis
    using len ne by (simp add: publish_manifest_record_def manifest_extend_def Let_def enc fields chain
        memory_ensure_stream_def memory_read_all_def memory_new_def set_stream_bytes_def stream_bytes_def
        memory_fresh_append u64_of_usize_def u64_checked_add_def flip: n_def)
qed

theorem publish_manifest_durable_witness:
  "\<exists>rs. prefix (concat (map (manifest_layout sample_hashes) (rs @ [hd sample_chain])))
     (stream_bytes (snd (publish_manifest_record sample_hashes memory_store ''room-a'' (hd sample_chain) 1
        memory_new)) (physical (manifest_stream sample_hashes ''room-a'')))"
  using publish_manifest_durable [OF memory.append_only_store_axioms TrueI sample_publish] by blast

end
