(* ===== verification/Error_Text.thy ===== *)
theory Error_Text
  imports Frame Manifest Checkpoint_Build Checkpoint_Store Manifest_Store
begin

text \<open>
  The \<open>Display\<close> form of the error types, as the derive macro of the sources writes it: the
  room's status and its replies carry these texts.
\<close>

definition limit_text :: "string \<Rightarrow> nat \<Rightarrow> nat \<Rightarrow> string" where
  "limit_text resource actual limit =
     resource @ '' exceeds limit: '' @ show_nat actual @ '' > '' @ show_nat limit"

fun frame_error_text :: "frame_error \<Rightarrow> string" where
  "frame_error_text frame_error.Truncated = ''truncated frame''"
| "frame_error_text frame_error.LengthOverflow = ''frame length overflow''"
| "frame_error_text (frame_error.UnsupportedVersion v) =
     ''unsupported frame version '' @ show_nat (unat v)"
| "frame_error_text frame_error.ChecksumMismatch = ''frame checksum mismatch''"
| "frame_error_text frame_error.DigestMismatch = ''frame update digest mismatch''"
| "frame_error_text (frame_error.LimitExceeded resource actual limit) =
     resource @ '' exceeds limit '' @ show_nat limit @ '': '' @ show_nat actual"
| "frame_error_text (AtOffset offset source) =
     ''frame decode failed at stream offset '' @ show_u64 offset @ '': '' @ frame_error_text source"
| "frame_error_text (frame_error.Invalid m) = ''invalid frame: '' @ m"

fun manifest_error_text :: "manifest_error \<Rightarrow> string" where
  "manifest_error_text manifest_error.Truncated = ''manifest record is truncated''"
| "manifest_error_text EmptyStream = ''manifest stream is empty''"
| "manifest_error_text manifest_error.WrongRoom = ''manifest record belongs to a different room''"
| "manifest_error_text (manifest_error.UnsupportedVersion v) =
     ''unsupported manifest version '' @ show_nat (unat v)"
| "manifest_error_text (manifest_error.Invalid m) = ''invalid manifest record: '' @ m"
| "manifest_error_text manifest_error.ChecksumMismatch = ''manifest checksum mismatch''"
| "manifest_error_text manifest_error.DigestMismatch = ''manifest digest mismatch''"
| "manifest_error_text manifest_error.LengthOverflow = ''manifest length overflow''"
| "manifest_error_text (manifest_error.LimitExceeded resource actual limit) =
     limit_text resource actual limit"

fun checkpoint_error_text :: "checkpoint_error \<Rightarrow> string" where
  "checkpoint_error_text checkpoint_error.Truncated = ''checkpoint record is truncated''"
| "checkpoint_error_text (checkpoint_error.UnsupportedVersion v) =
     ''unsupported checkpoint version '' @ show_nat (unat v)"
| "checkpoint_error_text (checkpoint_error.Invalid m) = ''invalid checkpoint record: '' @ m"
| "checkpoint_error_text checkpoint_error.ChecksumMismatch = ''checkpoint checksum mismatch''"
| "checkpoint_error_text checkpoint_error.DigestMismatch = ''checkpoint digest mismatch''"
| "checkpoint_error_text checkpoint_error.LengthOverflow = ''checkpoint length overflow''"
| "checkpoint_error_text (checkpoint_error.LimitExceeded resource actual limit) =
     limit_text resource actual limit"

fun checkpoint_build_error_text :: "checkpoint_build_error \<Rightarrow> string" where
  "checkpoint_build_error_text (SnapshotExport m) = ''failed to export checkpoint snapshot: '' @ m"
| "checkpoint_build_error_text (SnapshotRestore m) = ''failed to restore checkpoint snapshot: '' @ m"
| "checkpoint_build_error_text (HistoryImport m) =
     ''failed to import historical update while building checkpoint: '' @ m"
| "checkpoint_build_error_text (Validation m) =
     ''checkpoint construction validation failed: '' @ m"

fun checkpoint_write_error_text :: "checkpoint_write_error \<Rightarrow> string" where
  "checkpoint_write_error_text (Encode e) =
     ''failed to encode checkpoint: '' @ checkpoint_error_text e"
| "checkpoint_write_error_text (checkpoint_write_error.Store e) =
     ''checkpoint store operation failed: '' @ store_error_text e"
| "checkpoint_write_error_text checkpoint_write_error.WrongRoom =
     ''checkpoint record belongs to a different room''"
| "checkpoint_write_error_text (GenerationMismatch expected actual) =
     ''checkpoint generation mismatch: expected '' @ show_u64 expected @ '', found '' @ show_u64 actual"
| "checkpoint_write_error_text ExistingBytesMismatch =
     ''checkpoint stream already contains different bytes''"
| "checkpoint_write_error_text (checkpoint_write_error.UnexpectedEndOffset expected actual) =
     ''checkpoint append ended at unexpected offset: expected '' @ show_u64 expected @
     '', found '' @ show_u64 actual"
| "checkpoint_write_error_text checkpoint_write_error.LengthOverflow =
     ''checkpoint length does not fit u64''"

fun manifest_write_error_text :: "manifest_write_error \<Rightarrow> string" where
  "manifest_write_error_text (ManifestFailed e) =
     ''failed to encode or validate manifest: '' @ manifest_error_text e"
| "manifest_write_error_text (manifest_write_error.Store e) =
     ''manifest store operation failed: '' @ store_error_text e"
| "manifest_write_error_text manifest_write_error.WrongRoom =
     ''manifest record belongs to a different room''"
| "manifest_write_error_text (UnexpectedRevision expected actual) =
     ''unexpected manifest revision: expected '' @ show_u64 expected @ '', found '' @ show_u64 actual"
| "manifest_write_error_text PreviousDigestMismatch =
     ''manifest previous-record digest does not match''"
| "manifest_write_error_text RevisionOverflow = ''manifest revision overflow''"
| "manifest_write_error_text manifest_write_error.LengthOverflow =
     ''manifest length does not fit or overflows u64''"
| "manifest_write_error_text (manifest_write_error.UnexpectedEndOffset expected actual) =
     ''manifest append ended at unexpected offset: expected '' @ show_u64 expected @
     '', found '' @ show_u64 actual"

end
