(* ===== verification/Recovery.thy ===== *)
theory Recovery
  imports Error_Text
begin

text \<open>
  \<open>src/recovery.rs\<close>: a room is recovered from the head of its manifest chain, the checkpoint
  the head binds, and the active delta stream after it. \<open>recovery_of\<close> is the same computation
  as a function of what the streams hold; it serves the proofs, as the value the code computes
  when reads are fresh, and is not a translation of any source.
\<close>

section \<open>The code\<close>

record 'd manifest_recovery =
  rv_doc :: 'd
  rv_history :: "bytes list"
  rv_checkpoint_generation :: generation_id
  rv_active_delta_generation :: generation_id
  rv_active_delta_stream :: string
  rv_active_delta_end_offset :: u64
  rv_recovered_checkpoint_bytes :: nat
  rv_recovered_delta_bytes :: nat

datatype recovery_error =
    Store store_error
  | Manifest manifest_error
  | Checkpoint checkpoint_error
  | Frame frame_error
  | MissingCheckpoint u64
  | CheckpointManifestMismatch
  | WrongCheckpointRoom
  | CheckpointGenerationMismatch u64 u64
  | CheckpointSourceMismatch u64 u64
  | ActiveDeltaGenerationMismatch u64 u64
  | GenerationOverflow
  | LengthOverflow
  | HistoryRange
  | Loro string

fun recovery_error_text :: "recovery_error \<Rightarrow> string" where
  "recovery_error_text (Store e) = ''recovery store operation failed: '' @ store_error_text e"
| "recovery_error_text (Manifest e) = ''manifest recovery failed: '' @ manifest_error_text e"
| "recovery_error_text (Checkpoint e) = ''checkpoint recovery failed: '' @ checkpoint_error_text e"
| "recovery_error_text (Frame e) = ''active delta recovery failed: '' @ frame_error_text e"
| "recovery_error_text (MissingCheckpoint g) =
     ''manifest references missing checkpoint generation '' @ show_u64 g"
| "recovery_error_text CheckpointManifestMismatch =
     ''manifest checkpoint digest or length does not match stored bytes''"
| "recovery_error_text WrongCheckpointRoom = ''checkpoint belongs to a different room''"
| "recovery_error_text (CheckpointGenerationMismatch m c) =
     ''checkpoint generation mismatch: manifest '' @ show_u64 m @ '', checkpoint '' @ show_u64 c"
| "recovery_error_text (CheckpointSourceMismatch c d) =
     ''checkpoint source mismatch: checkpoint generation '' @ show_u64 c @
     '', source delta '' @ show_u64 d"
| "recovery_error_text (ActiveDeltaGenerationMismatch e a) =
     ''active delta generation mismatch: expected '' @ show_u64 e @ '', found '' @ show_u64 a"
| "recovery_error_text GenerationOverflow = ''generation overflow during recovery''"
| "recovery_error_text LengthOverflow = ''recovered stream length does not fit u64''"
| "recovery_error_text HistoryRange = ''recovered history range is invalid''"
| "recovery_error_text (Loro m) = ''Loro recovery failed: '' @ m"

definition validate_checkpoint_link ::
  "hashes \<Rightarrow> string \<Rightarrow> u64 \<Rightarrow> u64 \<Rightarrow> checkpoint_record \<Rightarrow> recovery_error + unit" where
  "validate_checkpoint_link h room_id manifest_checkpoint_generation
       manifest_active_delta_generation checkpoint =
     (if \<not> checkpoint_belongs_to_room h checkpoint room_id then Inl WrongCheckpointRoom else
      if cp_checkpoint_generation checkpoint \<noteq> manifest_checkpoint_generation
      then Inl (CheckpointGenerationMismatch manifest_checkpoint_generation
                  (cp_checkpoint_generation checkpoint)) else
      if cp_source_delta_generation checkpoint \<noteq> cp_checkpoint_generation checkpoint
      then Inl (CheckpointSourceMismatch (cp_checkpoint_generation checkpoint)
                  (cp_source_delta_generation checkpoint)) else
      r_bind (ok_or GenerationOverflow (u64_checked_add (cp_checkpoint_generation checkpoint) 1))
        (\<lambda>expected_active.
      if manifest_active_delta_generation \<noteq> expected_active
      then Inl (ActiveDeltaGenerationMismatch expected_active manifest_active_delta_generation)
      else Inr ()))"

text \<open>The head of the manifest stream's bytes.\<close>

definition manifest_head_of ::
  "hashes \<Rightarrow> string \<Rightarrow> bytes \<Rightarrow> recovery_error + manifest_record" where
  "manifest_head_of h room_id manifest_bytes =
     r_bind (map_err Manifest (decode_manifest_stream h default_manifest_limits manifest_bytes))
       (\<lambda>records.
     map_err Manifest (validate_manifest_chain h records room_id))"

text \<open>The checkpoint the head binds, verified, decoded, linked and restored.\<close>

definition recover_checkpoint ::
  "hashes \<Rightarrow> ('d, 'v, 'x) loro \<Rightarrow> string \<Rightarrow> manifest_record \<Rightarrow> bytes \<Rightarrow>
   recovery_error + (checkpoint_record \<times> 'd)" where
  "recover_checkpoint h lo room_id latest checkpoint_bytes =
     (if checkpoint_bytes = [] then Inl (MissingCheckpoint (mf_checkpoint_generation latest)) else
      if \<not> verifies_checkpoint_bytes h latest checkpoint_bytes
      then Inl CheckpointManifestMismatch else
      r_bind (map_err Checkpoint
                (checkpoint_decode_exact h default_checkpoint_limits checkpoint_bytes)) (\<lambda>checkpoint.
      r_bind (validate_checkpoint_link h room_id (mf_checkpoint_generation latest)
                (mf_active_delta_generation latest) checkpoint) (\<lambda>_.
      r_bind (map_err Loro (restore_checkpoint lo checkpoint)) (\<lambda>doc.
      Inr (checkpoint, doc)))))"

text \<open>The replay of the active delta stream on top of the restored checkpoint.\<close>

definition recover_delta ::
  "hashes \<Rightarrow> ('d, 'v, 'x) loro \<Rightarrow> frame_limits \<Rightarrow> checkpoint_record \<Rightarrow> 'd \<Rightarrow> bytes \<Rightarrow>
   recovery_error + ('d \<times> bytes list \<times> u64)" where
  "recover_delta h lo frame_limits checkpoint doc delta_bytes =
     r_bind (map_err Frame (frame_decode_all_with_limits h frame_limits delta_bytes)) (\<lambda>frames.
     let history = cp_pending_updates checkpoint @ concat (map fr_updates frames) in
     r_bind (if history = [] then Inr doc else
             let snapshot_pending_count = length (cp_pending_updates checkpoint) in
             if snapshot_pending_count > length history then Inl HistoryRange else
             let active_updates = drop snapshot_pending_count history in
             if active_updates = [] then Inr doc else
             map_err Loro (r_bind (lo_import_batch lo doc active_updates) (\<lambda>(d, _). Inr d))) (\<lambda>doc.
     r_bind (ok_or LengthOverflow (u64_of_usize (length delta_bytes))) (\<lambda>active_delta_end_offset.
     Inr (doc, history, active_delta_end_offset))))"

definition recover_from_manifest ::
  "hashes \<Rightarrow> ('d, 'v, 'x) loro \<Rightarrow> 's ursula_store \<Rightarrow> string \<Rightarrow> frame_limits \<Rightarrow> 's \<Rightarrow>
   (recovery_error + 'd manifest_recovery option) \<times> 's" where
  "recover_from_manifest h lo store room_id frame_limits s =
     (let manifest_name = physical (manifest_stream h room_id) in
      s_bind (s_err Store (us_ensure_stream store manifest_name s)) (\<lambda>_ s.
      s_bind (s_err Store (us_read_all store manifest_name s)) (\<lambda>manifest_bytes s.
      if manifest_bytes = [] then (Inr None, s) else
      s_bind (manifest_head_of h room_id manifest_bytes, s) (\<lambda>latest s.
      let checkpoint_generation = GenerationId (mf_checkpoint_generation latest);
          checkpoint_name = physical (checkpoint_stream h room_id checkpoint_generation) in
      s_bind (s_err Store (us_read_all store checkpoint_name s)) (\<lambda>checkpoint_bytes s.
      s_bind (recover_checkpoint h lo room_id latest checkpoint_bytes, s) (\<lambda>(checkpoint, doc) s.
      let active_delta_generation = GenerationId (mf_active_delta_generation latest);
          active_delta_stream =
            physical (delta_stream_for_generation h room_id active_delta_generation) in
      s_bind (s_err Store (us_read_all store active_delta_stream s)) (\<lambda>delta_bytes s.
      s_bind (recover_delta h lo frame_limits checkpoint doc delta_bytes, s)
        (\<lambda>(doc, history, active_delta_end_offset) s.
      (Inr (Some \<lparr>rv_doc = doc, rv_history = history,
              rv_checkpoint_generation = checkpoint_generation,
              rv_active_delta_generation = active_delta_generation,
              rv_active_delta_stream = active_delta_stream,
              rv_active_delta_end_offset = active_delta_end_offset,
              rv_recovered_checkpoint_bytes = length checkpoint_bytes,
              rv_recovered_delta_bytes = length delta_bytes\<rparr>), s)))))))))"

section \<open>Recovery as a function of the streams\<close>

definition recovery_of ::
  "hashes \<Rightarrow> ('d, 'v, 'x) loro \<Rightarrow> string \<Rightarrow> frame_limits \<Rightarrow> (string \<Rightarrow> bytes) \<Rightarrow>
   recovery_error + 'd manifest_recovery option" where
  "recovery_of h lo room frame_limits held =
     (let manifest_bytes = held (physical (manifest_stream h room)) in
      if manifest_bytes = [] then Inr None else
      r_bind (manifest_head_of h room manifest_bytes) (\<lambda>latest.
      let cg = GenerationId (mf_checkpoint_generation latest);
          ag = GenerationId (mf_active_delta_generation latest);
          checkpoint_bytes = held (physical (checkpoint_stream h room cg));
          active = physical (delta_stream_for_generation h room ag) in
      r_bind (recover_checkpoint h lo room latest checkpoint_bytes) (\<lambda>(checkpoint, doc).
      r_bind (recover_delta h lo frame_limits checkpoint doc (held active)) (\<lambda>(doc, history, end_offset).
      Inr (Some \<lparr>rv_doc = doc, rv_history = history, rv_checkpoint_generation = cg,
             rv_active_delta_generation = ag, rv_active_delta_stream = active,
             rv_active_delta_end_offset = end_offset,
             rv_recovered_checkpoint_bytes = length checkpoint_bytes,
             rv_recovered_delta_bytes = length (held active)\<rparr>)))))"

lemma recovery_of_None: "recovery_of h lo room l held = Inr None \<longleftrightarrow> held (physical (manifest_stream h room)) = []"
  by (auto simp: recovery_of_def Let_def r_bind_Inr_iff)

context append_only_store
begin

lemma recover_step:
  "grows content valid s0 s \<Longrightarrow> grows content valid s0 (snd (recover_from_manifest h lo store room l s))"
  unfolding recover_from_manifest_def Let_def
  by (auto intro!: store_steps split: prod.splits)

text \<open>
  What a recovery makes of a room when reads may lag behind: a room recovered from some prefix
  of the manifest, of the checkpoint stream and of the delta stream.
\<close>

lemma recover_prefixes:
  assumes v: "valid s" and run: "recover_from_manifest h lo store room l s = (r, s')"
  shows "\<exists>held. (\<forall>n. prefix (held n) (content s' n)) \<and>
    (\<forall>x. r = Inr x \<longrightarrow> recovery_of h lo room l held = Inr x)"
proof -
  let ?m = "physical (manifest_stream h room)"
  obtain re s1 where ens: "us_ensure_stream store ?m s = (re, s1)" by fastforce
  have v1: "valid s1" using ensure_law [OF v ens] by simp
  obtain rm s2 where rdm: "us_read_all store ?m s1 = (rm, s2)" by fastforce
  have v2: "valid s2" and pm: "\<And>ms. rm = Inr ms \<Longrightarrow> prefix ms (content s2 ?m)"
    using read_all_law [OF v1 rdm] by auto
  have final: ?thesis if "r = recovery_of h lo room l held \<or> (\<exists>e. r = Inl e)" "\<forall>n. prefix (held n) (content s' n)" for held
    using that by (intro exI [of _ held]) auto
  show ?thesis
  proof (cases "re = Inr () \<and> (\<exists>ms. rm = Inr ms \<and> ms \<noteq> [] \<and> (\<exists>m. manifest_head_of h room ms = Inr m))")
    case False
    with run ens rdm have "r = Inr None \<or> (\<exists>e. r = Inl e)"
      by (cases re; cases rm)
        (auto simp: recover_from_manifest_def Let_def split: if_splits sum.splits elim!: s_bindE)
    moreover have "recovery_of h lo room l (\<lambda>_. []) = Inr None"
      by (simp add: recovery_of_None)
    ultimately show ?thesis by (intro exI [of _ "\<lambda>_. []"]) auto
  next
    case True
    then obtain ms m where ms: "re = Inr ()" "rm = Inr ms" "ms \<noteq> []" "manifest_head_of h room ms = Inr m" by blast
    let ?c = "physical (checkpoint_stream h room (GenerationId (mf_checkpoint_generation m)))"
    let ?d = "physical (delta_stream_for_generation h room (GenerationId (mf_active_delta_generation m)))"
    obtain rc s3 where rdc: "us_read_all store ?c s2 = (rc, s3)" by fastforce
    have v3: "valid s3" and g3: "prefix (content s2 n) (content s3 n)"
      and pc: "\<And>cs. rc = Inr cs \<Longrightarrow> prefix cs (content s3 ?c)" for n
      using read_all_law [OF v2 rdc] by auto
    obtain rd s4 where rdd: "us_read_all store ?d s3 = (rd, s4)" by fastforce
    have g4: "prefix (content s3 n) (content s4 n)" and pd: "\<And>ds. rd = Inr ds \<Longrightarrow> prefix ds (content s4 ?d)" for n
      using read_all_law [OF v3 rdd] by auto
    show ?thesis
    proof (cases "(\<exists>cs x. rc = Inr cs \<and> recover_checkpoint h lo room m cs = Inr x) \<and> (\<exists>ds. rd = Inr ds)")
      case False
      with run ens rdm rdc rdd ms have "\<exists>e. r = Inl e"
        by (cases rc; cases rd)
          (auto simp: recover_from_manifest_def Let_def split: if_splits sum.splits elim!: s_bindE)
      then show ?thesis by (intro exI [of _ "\<lambda>_. []"]) auto
    next
      case True
      then obtain cs cp d ds where cs: "rc = Inr cs" "recover_checkpoint h lo room m cs = Inr (cp, d)" "rd = Inr ds"
        by auto
      define held where "held = (\<lambda>_. [])(?m := ms, ?c := cs, ?d := ds)"
      have apart: "?m \<noteq> ?c" "?m \<noteq> ?d" "?c \<noteq> ?d" by simp_all
      have "s' = s4" and r: "r = recovery_of h lo room l held"
        using run ens rdm rdc rdd ms cs apart
        by (auto simp: recover_from_manifest_def recovery_of_def held_def Let_def s_bind_def r_bind_def
            split: sum.splits)
      moreover have "prefix (held n) (content s4 n)" for n
      proof -
        have "prefix ms (content s4 ?m)" "prefix cs (content s4 ?c)" "prefix ds (content s4 ?d)"
          using pm [OF ms(2)] pc [OF cs(1)] pd [OF cs(3)] g3 g4 by (meson prefix_order.order_trans)+
        then show ?thesis by (simp add: held_def)
      qed
      ultimately show ?thesis using final by blast
    qed
  qed
qed

end

context exclusive_store
begin

text \<open>
  A run of recovery changes nothing in the store, and unless one of its store calls fails it
  computes \<open>recovery_of\<close> of what the streams hold.
\<close>

lemma recover_refines:
  assumes v: "valid s" and run: "recover_from_manifest h lo store room l s = (r, s')"
  shows "valid s' \<and> content s' = content s \<and> seen s' = seen s \<and>
    (r = recovery_of h lo room l (content s) \<or> (\<exists>e. r = Inl (Store e)))"
proof -
  have ens: "valid t \<and> content t = content s \<and> seen t = seen s"
    if "us_ensure_stream store n s = (re, t)" for n re t
    using ensure_law [OF v that] ensure_same [OF v that] by auto
  have rd: "valid u \<and> content u = content s \<and> seen u = seen s \<and> (\<forall>bs. ra = Inr bs \<longrightarrow> bs = content s n)"
    if "us_read_all store n t = (ra, u)" and "valid t \<and> content t = content s \<and> seen t = seen s" for n ra t u
    using read_all_law [OF _ that(1)] read_all_fresh [OF _ that(1)] that(2) by auto
  show ?thesis
    using run unfolding recover_from_manifest_def recovery_of_def Let_def
    by (auto elim!: s_bindE s_errE split: if_splits prod.splits dest!: ens rd simp: map_err_Inl_iff)
qed

end

section \<open>What a successful recovery has checked\<close>

lemma manifest_head_of_Inr:
  assumes "manifest_head_of h room bs = Inr m"
  shows "chain_with_head h room bs m \<and> length bs < usize_limit"
proof -
  from assms obtain rs where dec: "decode_manifest_stream h default_manifest_limits bs = Inr rs"
    and val: "validate_manifest_chain h rs room = Inr m"
    by (auto simp: manifest_head_of_def elim!: r_bind_InrE)
  have len: "length bs < usize_limit"
    using dec by (auto simp: decode_manifest_stream_def usize_limit_def elim!: r_bind_InrE)
  from val have chain: "manifest_chain h room rs" and m: "m = last rs"
    by (auto simp: validate_manifest_chain_eq)
  then have rs: "rs = butlast rs @ [m]"
    by (simp add: manifest_chain_def)
  from dec have "bs = concat (map (manifest_layout h) rs)"
    and "\<forall>x \<in> set rs. manifest_admitted h default_manifest_limits x"
    by (auto simp: decode_manifest_stream_Inr_iff [OF len])
  with chain rs len show ?thesis
    unfolding chain_with_head_def by (metis (no_types, lifting))
qed

lemma manifest_head_length:
  assumes "manifest_head_of h room bs = Inr m"
  shows "length bs \<le> 65536 * 188"
proof -
  from assms obtain rs where dec: "decode_manifest_stream h default_manifest_limits bs = Inr rs"
    by (auto simp: manifest_head_of_def elim!: r_bind_InrE)
  have len: "length bs < usize_limit"
    using manifest_head_of_Inr [OF assms] by simp
  have "length (concat (map (manifest_layout h) xs)) = length xs * 188" for xs
    by (induction xs) auto
  with dec show ?thesis
    by (cases "rs = []") (auto simp: decode_manifest_stream_Inr_iff [OF len])
qed

lemma manifest_head_of_run:
  assumes "chain_with_head h room bs m" and "length bs \<le> 65536 * 188"
  shows "manifest_head_of h room bs = Inr m"
proof -
  from assms(1) obtain rs where bs: "bs = concat (map (manifest_layout h) (rs @ [m]))"
    and adm: "\<forall>x \<in> set (rs @ [m]). manifest_admitted h default_manifest_limits x"
    and chain: "manifest_chain h room (rs @ [m])"
    by (auto simp: chain_with_head_def)
  have len: "length (concat (map (manifest_layout h) xs)) = length xs * 188" for xs
    by (induction xs) auto
  have "length (rs @ [m]) \<le> 65536"
    using assms(2) unfolding bs len by simp
  then have "decode_manifest_stream h default_manifest_limits bs = Inr (rs @ [m])"
    using assms(2) adm bs by (simp add: decode_manifest_stream_Inr_iff usize_limit_def)
  with chain show ?thesis
    by (simp add: manifest_head_of_def validate_manifest_chain_eq)
qed

lemma recover_checkpoint_Inr:
  assumes "recover_checkpoint h lo room m bs = Inr (cp, d)"
  shows "verifies_checkpoint_bytes h m bs \<and> checkpoint_encode h cp = Inr bs \<and>
    checkpoint_belongs_to_room h cp room \<and> cp_checkpoint_generation cp = mf_checkpoint_generation m \<and>
    cp_source_delta_generation cp = mf_checkpoint_generation m \<and>
    unat (mf_active_delta_generation m) = Suc (unat (mf_checkpoint_generation m)) \<and>
    restore_checkpoint lo cp = Inr d"
  using assms
  by (auto simp: recover_checkpoint_def validate_checkpoint_link_def checkpoint_decode_Inr_iff
      checkpoint_encode_def checkpoint_encode_Inr_iff u64_checked_succ_iff
      elim!: r_bind_InrE split: if_splits)

lemma recover_checkpoint_run:
  assumes "verifies_checkpoint_bytes h m bs" and "checkpoint_encode h cp = Inr bs"
    and "checkpoint_belongs_to_room h cp room" and "cp_checkpoint_generation cp = mf_checkpoint_generation m"
    and "cp_source_delta_generation cp = mf_checkpoint_generation m"
    and "unat (mf_active_delta_generation m) = Suc (unat (mf_checkpoint_generation m))"
    and "restore_checkpoint lo cp = Inr d"
  shows "recover_checkpoint h lo room m bs = Inr (cp, d)"
proof -
  have "bs \<noteq> []"
    using checkpoint_encode_nonempty [OF assms(2)] by simp
  moreover have "checkpoint_decode_exact h default_checkpoint_limits bs = Inr cp"
    using assms(2) by (simp add: checkpoint_encode_def checkpoint_encode_Inr_iff checkpoint_decode_Inr_iff)
  moreover have "u64_checked_add (mf_checkpoint_generation m) 1 = Some (mf_active_delta_generation m)"
    using assms(6) by (simp add: u64_checked_succ_iff)
  ultimately show ?thesis
    using assms by (simp add: recover_checkpoint_def validate_checkpoint_link_def)
qed

text \<open>The document after the updates of the active stream.\<close>

definition replay_updates :: "('d, 'v, 'x) loro \<Rightarrow> 'd \<Rightarrow> bytes list \<Rightarrow> string + 'd" where
  "replay_updates lo d us =
     (if us = [] then Inr d else r_bind (lo_import_batch lo d us) (\<lambda>(d, _). Inr d))"

lemma recover_delta_Inr_iff:
  "recover_delta h lo l cp d bs = Inr (d', hist, n) \<longleftrightarrow>
    (\<exists>fs. frame_decode_all_with_limits h l bs = Inr fs \<and>
      hist = cp_pending_updates cp @ concat (map fr_updates fs) \<and>
      replay_updates lo d (concat (map fr_updates fs)) = Inr d' \<and> length bs < usize_limit \<and>
      n = of_nat (length bs))"
  by (auto simp: recover_delta_def replay_updates_def Let_def r_bind_Inr_iff u64_of_usize_Some_iff
      usize_limit_def split: if_splits)

text \<open>What a recovered room was recovered from.\<close>

lemma recovery_of_Some:
  assumes "recovery_of h lo room l held = Inr (Some rv)"
  obtains m cp d fs where
    "manifest_head_of h room (held (physical (manifest_stream h room))) = Inr m"
    and "recover_checkpoint h lo room m
      (held (physical (checkpoint_stream h room (GenerationId (mf_checkpoint_generation m))))) = Inr (cp, d)"
    and "rv_checkpoint_generation rv = GenerationId (mf_checkpoint_generation m)"
    and "rv_active_delta_generation rv = GenerationId (mf_active_delta_generation m)"
    and "rv_active_delta_stream rv = physical (delta_stream_for_generation h room (rv_active_delta_generation rv))"
    and "frame_decode_all_with_limits h l (held (rv_active_delta_stream rv)) = Inr fs"
    and "rv_history rv = cp_pending_updates cp @ concat (map fr_updates fs)"
    and "replay_updates lo d (concat (map fr_updates fs)) = Inr (rv_doc rv)"
    and "length (held (rv_active_delta_stream rv)) < usize_limit"
    and "rv_active_delta_end_offset rv = of_nat (length (held (rv_active_delta_stream rv)))"
  using assms
  by (auto simp: recovery_of_def Let_def recover_delta_Inr_iff elim!: r_bind_InrE split: if_splits)

text \<open>Streams that satisfy all the checks are recovered.\<close>

lemma recovery_of_run:
  assumes head: "chain_with_head h room (held (physical (manifest_stream h room))) m"
    "length (held (physical (manifest_stream h room))) \<le> 65536 * 188"
    and ck: "recover_checkpoint h lo room m
      (held (physical (checkpoint_stream h room (GenerationId (mf_checkpoint_generation m))))) = Inr (cp, d)"
    and dl: "recover_delta h lo l cp d
      (held (physical (delta_stream_for_generation h room (GenerationId (mf_active_delta_generation m))))) =
      Inr (d', hist, n)"
  shows "recovery_of h lo room l held = Inr (Some
    \<lparr>rv_doc = d', rv_history = hist, rv_checkpoint_generation = GenerationId (mf_checkpoint_generation m),
     rv_active_delta_generation = GenerationId (mf_active_delta_generation m),
     rv_active_delta_stream =
       physical (delta_stream_for_generation h room (GenerationId (mf_active_delta_generation m))),
     rv_active_delta_end_offset = n,
     rv_recovered_checkpoint_bytes =
       length (held (physical (checkpoint_stream h room (GenerationId (mf_checkpoint_generation m))))),
     rv_recovered_delta_bytes = length (held (physical (delta_stream_for_generation h room
       (GenerationId (mf_active_delta_generation m)))))\<rparr>)"
proof -
  have "held (physical (manifest_stream h room)) \<noteq> []"
    using head(1) manifest_codec.layout_nonempty by (auto simp: chain_with_head_def)
  then show ?thesis
    using ck dl by (simp add: recovery_of_def Let_def manifest_head_of_run [OF head])
qed

text \<open>On the in-memory store, reads do not fail while it is available.\<close>

lemma memory_recover:
  assumes "\<not> ms_unavailable s"
  shows "recover_from_manifest h lo memory_store room l s =
    (recovery_of h lo room l (stream_bytes s),
     set_stream_bytes (physical (manifest_stream h room)) (stream_bytes s (physical (manifest_stream h room))) s)"
proof -
  let ?m = "physical (manifest_stream h room)"
  let ?t = "set_stream_bytes ?m (stream_bytes s ?m) s"
  have t: "\<not> ms_unavailable ?t" "stream_bytes ?t = stream_bytes s"
    using assms by (auto simp: set_stream_bytes_def stream_bytes_def fun_eq_iff)
  then have rd: "memory_read_all n ?t = (Inr (stream_bytes s n), ?t)" for n
    by (simp add: memory_read_all_def)
  show ?thesis
    using assms by (simp add: recover_from_manifest_def recovery_of_def Let_def memory_ensure_stream_def rd
        s_bind_def r_bind_def split: sum.splits prod.splits)
qed

section \<open>Properties\<close>

text \<open>
  C30. Recovery fails closed. When a room is recovered from its manifest on a store with
  fresh reads, the manifest stream holds exactly the encodings of a valid chain of the room,
  the checkpoint stream of its head holds exactly a checkpoint the head binds by length and
  digest, of that room and generation and of the delta generation just before the active one,
  and the active stream holds exactly the frames whose updates were replayed on the restored
  checkpoint. Anything else ends in an error. The store is left as it was.
\<close>

theorem recovery_fails_closed:
  assumes "exclusive_store store content valid seen" and "valid s"
    and "recover_from_manifest h lo store room l s = (Inr (Some rv), s')"
  shows "content s' = content s \<and> (\<exists>rs m cp d fs.
    content s (physical (manifest_stream h room)) = concat (map (manifest_layout h) (rs @ [m])) \<and>
    validate_manifest_chain h (rs @ [m]) room = Inr m \<and>
    rv_checkpoint_generation rv = GenerationId (mf_checkpoint_generation m) \<and>
    verifies_checkpoint_bytes h m
      (content s (physical (checkpoint_stream h room (rv_checkpoint_generation rv)))) \<and>
    checkpoint_encode h cp =
      Inr (content s (physical (checkpoint_stream h room (rv_checkpoint_generation rv)))) \<and>
    checkpoint_belongs_to_room h cp room \<and>
    cp_checkpoint_generation cp = mf_checkpoint_generation m \<and>
    cp_source_delta_generation cp = mf_checkpoint_generation m \<and>
    checked_next (rv_checkpoint_generation rv) = Some (rv_active_delta_generation rv) \<and>
    restore_checkpoint lo cp = Inr d \<and>
    rv_active_delta_stream rv =
      physical (delta_stream_for_generation h room (rv_active_delta_generation rv)) \<and>
    content s (rv_active_delta_stream rv) = concat (map (frame_bytes h) fs) \<and>
    replay_updates lo d (concat (map fr_updates fs)) = Inr (rv_doc rv) \<and>
    rv_history rv = cp_pending_updates cp @ concat (map fr_updates fs) \<and>
    unat (rv_active_delta_end_offset rv) = length (content s (rv_active_delta_stream rv)))"
proof -
  from exclusive_store.recover_refines [OF assms]
  have same: "content s' = content s" and rv: "recovery_of h lo room l (content s) = Inr (Some rv)"
    by auto
  from rv show ?thesis
  proof (rule recovery_of_Some)
    fix m cp d fs
    assume head: "manifest_head_of h room (content s (physical (manifest_stream h room))) = Inr m"
      and ck: "recover_checkpoint h lo room m
        (content s (physical (checkpoint_stream h room (GenerationId (mf_checkpoint_generation m))))) = Inr (cp, d)"
      and gens: "rv_checkpoint_generation rv = GenerationId (mf_checkpoint_generation m)"
        "rv_active_delta_generation rv = GenerationId (mf_active_delta_generation m)"
      and stream: "rv_active_delta_stream rv =
        physical (delta_stream_for_generation h room (rv_active_delta_generation rv))"
      and dec: "frame_decode_all_with_limits h l (content s (rv_active_delta_stream rv)) = Inr fs"
      and hist: "rv_history rv = cp_pending_updates cp @ concat (map fr_updates fs)"
        "replay_updates lo d (concat (map fr_updates fs)) = Inr (rv_doc rv)"
      and len: "length (content s (rv_active_delta_stream rv)) < usize_limit"
      and off: "rv_active_delta_end_offset rv = of_nat (length (content s (rv_active_delta_stream rv)))"
    from manifest_head_of_Inr [OF head] obtain rs where
      rs: "content s (physical (manifest_stream h room)) = concat (map (manifest_layout h) (rs @ [m]))"
        "validate_manifest_chain h (rs @ [m]) room = Inr m"
      by (auto simp: chain_with_head_def validate_manifest_chain_eq)
    have bytes: "content s (rv_active_delta_stream rv) = concat (map (frame_bytes h) fs)"
      using frame_decode_all_Inr [OF dec] by simp
    have end_offset: "unat (rv_active_delta_end_offset rv) = length (content s (rv_active_delta_stream rv))"
      using len by (simp add: off unat_of_nat usize_limit_def)
    note ck' = recover_checkpoint_Inr [OF ck]
    have succ: "checked_next (rv_checkpoint_generation rv) = Some (rv_active_delta_generation rv)"
      using ck' by (auto simp: checked_next_def gens u64_checked_succ_iff)
    show ?thesis
      using same rs ck' succ hist bytes end_offset stream by (intro conjI exI) (simp_all add: gens)
  qed
qed

text \<open>A recoverable room for the witnesses.\<close>

definition sample_room_checkpoint :: checkpoint_record where
  "sample_room_checkpoint = checkpoint_record_new sample_hashes ''room-a'' 0 0 91 [1, 5, 6] [[3, 9, 8]]"

definition sample_room_manifest :: manifest_record where
  "sample_room_manifest =
     sample_manifest 0 genesis_digest 0 (checkpoint_layout sample_hashes sample_room_checkpoint)"

definition sample_room_streams :: memory_state where
  "sample_room_streams =
     set_stream_bytes (physical (manifest_stream sample_hashes ''room-a''))
       (manifest_layout sample_hashes sample_room_manifest)
     (set_stream_bytes (physical (checkpoint_stream sample_hashes ''room-a'' (GenerationId 0)))
       (checkpoint_layout sample_hashes sample_room_checkpoint)
     (set_stream_bytes (physical (delta_stream_for_generation sample_hashes ''room-a'' (GenerationId 1)))
       (frame_bytes sample_hashes sample_frame) memory_new))"

lemma sample_room_checkpoint_encode:
  "checkpoint_encode sample_hashes sample_room_checkpoint =
     Inr (checkpoint_layout sample_hashes sample_room_checkpoint)"
  by (simp add: checkpoint_encode_def checkpoint_encode_Inr_iff checkpoint_admitted_def
      sample_room_checkpoint_def checkpoint_record_new_def checkpoint_total_def
      checkpoint_fixed_header_def checkpoint_fixed_suffix_def usize_limit_def)

lemma length_sample_room_checkpoint [simp]:
  "checkpoint_total sample_room_checkpoint = 138"
  by (simp add: sample_room_checkpoint_def checkpoint_record_new_def checkpoint_total_def
      checkpoint_fixed_header_def checkpoint_fixed_suffix_def)

lemma sample_room_streams_held:
  "stream_bytes sample_room_streams (physical (manifest_stream sample_hashes ''room-a'')) =
     manifest_layout sample_hashes sample_room_manifest"
  "stream_bytes sample_room_streams (physical (checkpoint_stream sample_hashes ''room-a'' (GenerationId 0))) =
     checkpoint_layout sample_hashes sample_room_checkpoint"
  "stream_bytes sample_room_streams
     (physical (delta_stream_for_generation sample_hashes ''room-a'' (GenerationId 1))) =
     frame_bytes sample_hashes sample_frame"
  "\<not> ms_unavailable sample_room_streams" "memory_honest sample_room_streams"
  by (simp_all add: sample_room_streams_def)
    (simp_all add: set_stream_bytes_def memory_new_def memory_honest_def)

lemma sample_room_manifest_sound:
  "manifest_admitted sample_hashes default_manifest_limits sample_room_manifest"
  "manifest_chain sample_hashes ''room-a'' [sample_room_manifest]"
  "mf_checkpoint_generation sample_room_manifest = 0" "mf_active_delta_generation sample_room_manifest = 1"
  by (simp_all add: manifest_chain_single manifest_admitted_def manifest_fields_ok_def
      sample_room_manifest_def sample_manifest_def manifest_belongs_to_room_def record_digest_def)

lemma sample_room_checkpoint_sound:
  "verifies_checkpoint_bytes sample_hashes sample_room_manifest (checkpoint_layout sample_hashes sample_room_checkpoint)"
  "checkpoint_belongs_to_room sample_hashes sample_room_checkpoint ''room-a''"
  "cp_checkpoint_generation sample_room_checkpoint = 0" "cp_source_delta_generation sample_room_checkpoint = 0"
  "restore_checkpoint toy_loro sample_room_checkpoint = Inr [5, 6]"
  by (simp add: sample_room_manifest_def sample_manifest_def verifies_checkpoint_bytes_def u64_saturating_def u64_of_usize_def)
    (simp_all add: sample_room_checkpoint_def checkpoint_record_new_def checkpoint_belongs_to_room_def
      restore_checkpoint_def toy_add_def)

lemma sample_frame_replays: "\<exists>d'. replay_updates toy_loro [5, 6] (fr_updates sample_frame) = Inr d'"
  by (simp add: replay_updates_def sample_frame_def delta_frame_new_def toy_add_def)

lemma sample_room_recovery:
  "\<exists>rv. recover_from_manifest sample_hashes toy_loro memory_store ''room-a'' default_frame_limits
     sample_room_streams = (Inr (Some rv), snd (recover_from_manifest sample_hashes toy_loro memory_store
       ''room-a'' default_frame_limits sample_room_streams))"
proof -
  note gens = sample_room_manifest_sound(3,4)
  have chain: "chain_with_head sample_hashes ''room-a'' (manifest_layout sample_hashes sample_room_manifest)
      sample_room_manifest"
    unfolding chain_with_head_def
    by (intro exI [of _ "[]"]) (simp add: sample_room_manifest_sound(1,2))
  have ck: "recover_checkpoint sample_hashes toy_loro ''room-a'' sample_room_manifest
      (checkpoint_layout sample_hashes sample_room_checkpoint) = Inr (sample_room_checkpoint, [5, 6])"
    by (rule recover_checkpoint_run [OF _ sample_room_checkpoint_encode])
      (simp_all add: sample_room_checkpoint_sound gens)
  have "frame_decode_all_with_limits sample_hashes default_frame_limits (frame_bytes sample_hashes sample_frame) =
      Inr [sample_frame]"
    using frame_decode_loop_run [of "[sample_frame]" sample_hashes default_frame_limits 0]
    by (simp add: frame_decode_all_with_limits_def codec_simps)
  then have "\<exists>d' hist n. recover_delta sample_hashes toy_loro default_frame_limits sample_room_checkpoint
      [5, 6] (frame_bytes sample_hashes sample_frame) = Inr (d', hist, n)"
    by (simp add: recover_delta_Inr_iff replay_updates_def sample_frame_def delta_frame_new_def toy_add_def
        usize_limit_def frame_total_def frame_fixed_prefix_def frame_fixed_suffix_def)
  then obtain d' hist n where dl: "recover_delta sample_hashes toy_loro default_frame_limits
      sample_room_checkpoint [5, 6] (frame_bytes sample_hashes sample_frame) = Inr (d', hist, n)" by blast
  let ?held = "stream_bytes sample_room_streams"
  have head: "chain_with_head sample_hashes ''room-a'' (?held (physical (manifest_stream sample_hashes ''room-a'')))
      sample_room_manifest"
    "length (?held (physical (manifest_stream sample_hashes ''room-a''))) \<le> 65536 * 188"
    by (simp_all add: sample_room_streams_held chain)
  have "recover_checkpoint sample_hashes toy_loro ''room-a'' sample_room_manifest
      (?held (physical (checkpoint_stream sample_hashes ''room-a''
        (GenerationId (mf_checkpoint_generation sample_room_manifest))))) = Inr (sample_room_checkpoint, [5, 6])"
    by (simp add: sample_room_streams_held ck gens)
  moreover have "recover_delta sample_hashes toy_loro default_frame_limits sample_room_checkpoint [5, 6]
      (?held (physical (delta_stream_for_generation sample_hashes ''room-a''
        (GenerationId (mf_active_delta_generation sample_room_manifest))))) = Inr (d', hist, n)"
    by (simp add: sample_room_streams_held dl gens)
  ultimately have "\<exists>rv. recovery_of sample_hashes toy_loro ''room-a'' default_frame_limits ?held = Inr (Some rv)"
    using recovery_of_run [where held = ?held, OF head] by (intro exI)
  then show ?thesis
    by (simp add: memory_recover sample_room_streams_held(4))
qed

theorem recovery_fails_closed_witness:
  "\<exists>rs. stream_bytes sample_room_streams (physical (manifest_stream sample_hashes ''room-a'')) =
     concat (map (manifest_layout sample_hashes) rs) \<and> rs \<noteq> []"
proof -
  obtain rv where "recover_from_manifest sample_hashes toy_loro memory_store ''room-a'' default_frame_limits
     sample_room_streams = (Inr (Some rv), snd (recover_from_manifest sample_hashes toy_loro memory_store
       ''room-a'' default_frame_limits sample_room_streams))"
    using sample_room_recovery by blast
  from recovery_fails_closed [OF memory_exclusive.exclusive_store_axioms sample_room_streams_held(5) this]
  show ?thesis by (metis append_is_Nil_conv list.distinct(1))
qed

text \<open>
  C31. Recovery takes what it is given. If the streams of a room are sound, that is, the
  manifest stream holds the encodings of a valid chain, the checkpoint stream of its head the
  encoding of a checkpoint the head binds, of that room and generation, and the active stream
  the encodings of admissible frames whose updates the document library imports into the
  restored checkpoint, and the limits of the decoders are kept, then a recovery on a store
  with fresh reads gives the room with exactly that document and history, unless one of its
  store calls fails. This is the converse of the property before.
\<close>

theorem recovery_accepts:
  assumes "exclusive_store store content valid seen" and "valid s"
    and "recover_from_manifest h lo store room l s = (r, s')"
    and "content s (physical (manifest_stream h room)) = concat (map (manifest_layout h) (rs @ [m]))"
    and "\<forall>x \<in> set (rs @ [m]). manifest_encode h x = Inr (manifest_layout h x)"
    and "validate_manifest_chain h (rs @ [m]) room = Inr m"
    and "length (rs @ [m]) \<le> ml_max_records default_manifest_limits"
    and "checkpoint_encode h cp =
      Inr (content s (physical (checkpoint_stream h room (GenerationId (mf_checkpoint_generation m)))))"
    and "verifies_checkpoint_bytes h m
      (content s (physical (checkpoint_stream h room (GenerationId (mf_checkpoint_generation m)))))"
    and "checkpoint_belongs_to_room h cp room"
    and "cp_checkpoint_generation cp = mf_checkpoint_generation m"
    and "cp_source_delta_generation cp = mf_checkpoint_generation m"
    and "restore_checkpoint lo cp = Inr d"
    and "content s (physical (delta_stream_for_generation h room (GenerationId (mf_active_delta_generation m)))) =
      concat (map (frame_bytes h) fs)"
    and "\<forall>f \<in> set fs. frame_wf h f \<and> frame_encode_with_limits h l f = Inr (frame_bytes h f)"
    and "length (concat (map (frame_bytes h) fs)) \<le> fl_max_stream_bytes l"
    and "length (concat (map (frame_bytes h) fs)) < 2 ^ 64"
    and "replay_updates lo d (concat (map fr_updates fs)) = Inr d'"
  shows "(\<exists>e. r = Inl (Store e)) \<or>
    (\<exists>rv. r = Inr (Some rv) \<and> rv_doc rv = d' \<and>
      rv_history rv = cp_pending_updates cp @ concat (map fr_updates fs) \<and>
      rv_checkpoint_generation rv = GenerationId (mf_checkpoint_generation m) \<and>
      rv_active_delta_generation rv = GenerationId (mf_active_delta_generation m) \<and>
      unat (rv_active_delta_end_offset rv) = length (concat (map (frame_bytes h) fs)))"
proof -
  have adm: "\<forall>x \<in> set (rs @ [m]). manifest_admitted h default_manifest_limits x"
    using assms(5) by (auto simp: manifest_encode_layout)
  have chain: "chain_with_head h room (content s (physical (manifest_stream h room))) m"
    using assms(4,6) adm unfolding chain_with_head_def by (auto simp: validate_manifest_chain_eq)
  have "length (concat (map (manifest_layout h) xs)) = length xs * 188" for xs
    by (induction xs) auto
  then have len: "length (content s (physical (manifest_stream h room))) \<le> 65536 * 188"
    using assms(7) unfolding assms(4) by (metis default_manifest_limits_sel(2) mult_le_mono1)
  have next_active: "unat (mf_active_delta_generation m) = Suc (unat (mf_checkpoint_generation m))"
    using adm by (simp add: manifest_admitted_def manifest_fields_ok_def)
  note ck = recover_checkpoint_run [OF assms(9,8,10,11,12) next_active assms(13)]
  have "frame_decode_all_with_limits h l (concat (map (frame_bytes h) fs)) = Inr fs"
    using assms(15-17) by (intro frames_decode) (auto simp: frame_encode_Inr_iff)
  then have "recover_delta h lo l cp d (content s (physical (delta_stream_for_generation h room
      (GenerationId (mf_active_delta_generation m))))) =
      Inr (d', cp_pending_updates cp @ concat (map fr_updates fs), of_nat (length (concat (map (frame_bytes h) fs))))"
    using assms(14,17,18) by (simp add: recover_delta_Inr_iff usize_limit_def del: length_concat)
  from recovery_of_run [where held = "content s", OF chain len ck this]
    exclusive_store.recover_refines [OF assms(1-3)] assms(17)
  show ?thesis by (auto simp: unat_of_nat simp del: length_concat)
qed

text \<open>The sample room again: checkpoint, one frame, and the document both make.\<close>

theorem recovery_accepts_witness:
  "\<exists>rv. fst (recover_from_manifest sample_hashes toy_loro memory_store ''room-a'' default_frame_limits
      sample_room_streams) = Inr (Some rv) \<and>
    rv_history rv = cp_pending_updates sample_room_checkpoint @ fr_updates sample_frame"
proof -
  obtain rv where run: "recover_from_manifest sample_hashes toy_loro memory_store ''room-a'' default_frame_limits
     sample_room_streams = (Inr (Some rv), snd (recover_from_manifest sample_hashes toy_loro memory_store
       ''room-a'' default_frame_limits sample_room_streams))"
    using sample_room_recovery by blast
  obtain d' where rep: "replay_updates toy_loro [5, 6] (concat (map fr_updates [sample_frame])) = Inr d'"
    using sample_frame_replays by auto
  have "manifest_encode sample_hashes sample_room_manifest = Inr (manifest_layout sample_hashes sample_room_manifest)"
    using sample_room_manifest_sound(1) by (simp add: manifest_encode_layout)
  with recovery_accepts [OF memory_exclusive.exclusive_store_axioms sample_room_streams_held(5) run,
      of "[]" sample_room_manifest sample_room_checkpoint "[5, 6]" "[sample_frame]" d'] rep
  have "rv_history rv = cp_pending_updates sample_room_checkpoint @ fr_updates sample_frame"
    by (simp add: sample_room_streams_held sample_room_manifest_sound sample_room_checkpoint_sound
        sample_room_checkpoint_encode validate_manifest_chain_eq sample_frame_ok frame_encode_Inr_iff)
  with run show ?thesis by (metis fst_conv)
qed

end
