(* ===== verification/Rotation.thy ===== *)
theory Rotation
  imports Recovery
begin

text \<open>
  \<open>src/rotation.rs\<close>: the document of a room is written as the checkpoint of its current delta
  generation, and a manifest record then makes the checkpoint and the empty next delta stream
  the room's head.
\<close>

section \<open>The code\<close>

record rotation_result =
  rt_checkpoint :: checkpoint_record
  rt_manifest :: manifest_record
  rt_next_delta_generation :: generation_id
  rt_next_delta_stream :: string
  rt_retained_history :: "bytes list"

datatype rotation_error =
    CheckpointBuild checkpoint_build_error
  | CheckpointEncode checkpoint_error
  | CheckpointWrite checkpoint_write_error
  | Manifest manifest_error
  | ManifestWrite manifest_write_error
  | Store store_error
  | GenerationOverflow
  | RevisionOverflow
  | NextDeltaNotEmpty u64
  | ManifestActiveGenerationMismatch "u64 option" u64

text \<open>The derived \<open>Debug\<close> form of an optional number.\<close>

fun debug_option_u64 :: "u64 option \<Rightarrow> string" where
  "debug_option_u64 None = ''None''"
| "debug_option_u64 (Some w) = ''Some('' @ show_u64 w @ '')''"

fun rotation_error_text :: "rotation_error \<Rightarrow> string" where
  "rotation_error_text (CheckpointBuild e) =
     ''checkpoint construction failed: '' @ checkpoint_build_error_text e"
| "rotation_error_text (CheckpointEncode e) =
     ''checkpoint encoding failed: '' @ checkpoint_error_text e"
| "rotation_error_text (CheckpointWrite e) =
     ''checkpoint persistence failed: '' @ checkpoint_write_error_text e"
| "rotation_error_text (rotation_error.Manifest e) =
     ''manifest construction or validation failed: '' @ manifest_error_text e"
| "rotation_error_text (ManifestWrite e) =
     ''manifest publication failed: '' @ manifest_write_error_text e"
| "rotation_error_text (rotation_error.Store e) =
     ''rotation store operation failed: '' @ store_error_text e"
| "rotation_error_text rotation_error.GenerationOverflow = ''delta generation overflow''"
| "rotation_error_text rotation_error.RevisionOverflow = ''manifest revision overflow''"
| "rotation_error_text (NextDeltaNotEmpty g) =
     ''next delta generation '' @ show_u64 g @ '' already contains bytes''"
| "rotation_error_text (ManifestActiveGenerationMismatch m a) =
     ''manifest active generation mismatch: manifest '' @ debug_option_u64 m @
     '', actor '' @ show_u64 a"

definition next_manifest_position ::
  "hashes \<Rightarrow> 's ursula_store \<Rightarrow> string \<Rightarrow> generation_id \<Rightarrow> 's \<Rightarrow>
   (rotation_error + (u64 \<times> digest)) \<times> 's" where
  "next_manifest_position h store room_id current s =
     (let stream = physical (manifest_stream h room_id) in
      s_bind (s_err rotation_error.Store (us_ensure_stream store stream s)) (\<lambda>_ s.
      s_bind (s_err rotation_error.Store (us_read_all store stream s)) (\<lambda>bs s.
      if bs = [] then
        (if current \<noteq> gen_zero
         then (Inl (ManifestActiveGenerationMismatch None (gen_value current)), s)
         else (Inr (0, genesis_digest), s))
      else
        s_bind (map_err rotation_error.Manifest
                  (decode_manifest_stream h default_manifest_limits bs), s) (\<lambda>records s.
        s_bind (map_err rotation_error.Manifest (validate_manifest_chain h records room_id), s)
          (\<lambda>latest s.
        if mf_active_delta_generation latest \<noteq> gen_value current
        then (Inl (ManifestActiveGenerationMismatch (Some (mf_active_delta_generation latest))
                     (gen_value current)), s) else
        s_bind (ok_or rotation_error.RevisionOverflow (u64_checked_add (mf_revision latest) 1), s)
          (\<lambda>revision s.
        (Inr (revision, mf_digest latest), s)))))))"

definition rotate_room ::
  "hashes \<Rightarrow> ('d, 'v, 'x) loro \<Rightarrow> 's ursula_store \<Rightarrow> string \<Rightarrow> generation_id \<Rightarrow> u64 \<Rightarrow> 'd \<Rightarrow>
   bytes list \<Rightarrow> nat \<Rightarrow> 's \<Rightarrow> (rotation_error + rotation_result) \<times> 's" where
  "rotate_room h lo store room_id current current_delta_end_offset doc history
       max_ambiguous_retries s =
     s_bind (ok_or rotation_error.GenerationOverflow (checked_next current), s)
       (\<lambda>next_delta_generation s.
     s_bind (map_err CheckpointBuild (build_checkpoint_record h lo room_id (gen_value current)
               (gen_value current) current_delta_end_offset doc history), s) (\<lambda>checkpoint s.
     s_bind (map_err CheckpointEncode (checkpoint_encode h checkpoint), s) (\<lambda>checkpoint_bytes s.
     s_bind (s_err CheckpointWrite
               (persist_checkpoint h store room_id current checkpoint max_ambiguous_retries s))
       (\<lambda>_ s.
     let next_delta_stream = physical (delta_stream_for_generation h room_id next_delta_generation) in
     s_bind (s_err rotation_error.Store (us_ensure_stream store next_delta_stream s)) (\<lambda>_ s.
     s_bind (s_err rotation_error.Store (us_read_all store next_delta_stream s)) (\<lambda>next_delta_bytes s.
     if next_delta_bytes \<noteq> []
     then (Inl (NextDeltaNotEmpty (gen_value next_delta_generation)), s) else
     s_bind (next_manifest_position h store room_id current s)
       (\<lambda>(revision, previous_record_digest) s.
     s_bind (map_err rotation_error.Manifest (manifest_record_new h room_id revision
               previous_record_digest (gen_value current) checkpoint_bytes
               (gen_value next_delta_generation)), s) (\<lambda>manifest s.
     s_bind (s_err ManifestWrite
               (publish_manifest_record h store room_id manifest max_ambiguous_retries s))
       (\<lambda>_ s.
     (Inr \<lparr>rt_checkpoint = checkpoint, rt_manifest = manifest,
           rt_next_delta_generation = next_delta_generation,
           rt_next_delta_stream = next_delta_stream,
           rt_retained_history = cp_pending_updates checkpoint\<rparr>, s))))))))))"

section \<open>What a rotation guarantees\<close>

lemma frame_decode_empty: "frame_decode_all_with_limits h l [] = Inr []"
  by (simp add: frame_decode_all_with_limits_def frame_decode_loop.simps frame_enforce_limit_def)

lemma manifest_record_new_Inr:
  assumes "manifest_record_new h room revn prev cg bs ag = Inr m"
  shows "manifest_belongs_to_room h m room \<and> mf_revision m = revn \<and> mf_previous_record_digest m = prev \<and>
    mf_checkpoint_generation m = cg \<and> mf_active_delta_generation m = ag \<and> verifies_checkpoint_bytes h m bs"
  using assms
  by (auto simp: manifest_record_new_def manifest_belongs_to_room_def verifies_checkpoint_bytes_def
      u64_saturating_def Let_def u64_of_usize_def elim!: r_bind_InrE split: if_splits)

text \<open>The calls a successful rotation makes.\<close>

lemma rotate_success:
  assumes "rotate_room h lo store room g off doc history m s = (Inr x, s')"
  obtains bs o1 s1 s2 s3 s4 revn prev o2 where
    "checked_next g = Some (rt_next_delta_generation x)"
    and "build_checkpoint_record h lo room (gen_value g) (gen_value g) off doc history = Inr (rt_checkpoint x)"
    and "checkpoint_encode h (rt_checkpoint x) = Inr bs"
    and "persist_checkpoint h store room g (rt_checkpoint x) m s = (Inr o1, s1)"
    and "us_ensure_stream store (rt_next_delta_stream x) s1 = (Inr (), s2)"
    and "us_read_all store (rt_next_delta_stream x) s2 = (Inr [], s3)"
    and "next_manifest_position h store room g s3 = (Inr (revn, prev), s4)"
    and "manifest_record_new h room revn prev (gen_value g) bs (gen_value (rt_next_delta_generation x)) =
      Inr (rt_manifest x)"
    and "publish_manifest_record h store room (rt_manifest x) m s4 = (Inr o2, s')"
    and "rt_next_delta_stream x = physical (delta_stream_for_generation h room (rt_next_delta_generation x))"
    and "rt_retained_history x = cp_pending_updates (rt_checkpoint x)"
  using assms
  by (auto simp: rotate_room_def Let_def elim!: s_bindE s_errE split: if_splits prod.splits)

context append_only_store
begin

lemma next_position_step:
  "grows content valid s0 s \<Longrightarrow> grows content valid s0 (snd (next_manifest_position h store room g s))"
  unfolding next_manifest_position_def Let_def by (auto intro!: store_steps)

lemma persist_step:
  assumes "grows content valid s0 s"
  shows "grows content valid s0 (snd (persist_checkpoint h store room g r m s))"
proof (cases "persist_checkpoint h store room g r m s")
  case (Pair res t)
  have "grows content valid s t"
    using persist_run [OF grows_inv [OF assms] Pair] by simp
  with grows_trans [OF assms] Pair show ?thesis by simp
qed

lemma publish_step:
  assumes "grows content valid s0 s"
  shows "grows content valid s0 (snd (publish_manifest_record h store room r m s))"
proof (cases "publish_manifest_record h store room r m s")
  case (Pair res t)
  have "grows content valid s t"
    using publish_run [OF grows_inv [OF assms] Pair] by simp
  with grows_trans [OF assms] Pair show ?thesis by simp
qed

lemma rotate_step:
  "grows content valid s0 s \<Longrightarrow>
    grows content valid s0 (snd (rotate_room h lo store room g off doc history m s))"
  unfolding rotate_room_def Let_def
  by (auto intro!: store_steps next_position_step persist_step publish_step split: prod.splits)

text \<open>
  After a successful rotation the checkpoint stream begins with the checkpoint of the
  document, and the manifest stream with a valid chain whose head binds it.
\<close>

lemma rotate_run:
  assumes v: "valid s" and run: "rotate_room h lo store room g off doc history m s = (res, s')"
  shows "grows content valid s s' \<and> (\<forall>x. res = Inr x \<longrightarrow>
    (\<exists>bs ms. build_checkpoint_record h lo room (gen_value g) (gen_value g) off doc history = Inr (rt_checkpoint x) \<and>
      checkpoint_encode h (rt_checkpoint x) = Inr bs \<and>
      prefix bs (content s' (physical (checkpoint_stream h room g))) \<and>
      prefix ms (content s' (physical (manifest_stream h room))) \<and>
      chain_with_head h room ms (rt_manifest x) \<and>
      verifies_checkpoint_bytes h (rt_manifest x) bs \<and>
      mf_checkpoint_generation (rt_manifest x) = gen_value g \<and>
      mf_active_delta_generation (rt_manifest x) = gen_value (rt_next_delta_generation x) \<and>
      checked_next g = Some (rt_next_delta_generation x) \<and>
      rt_next_delta_stream x = physical (delta_stream_for_generation h room (rt_next_delta_generation x)) \<and>
      rt_retained_history x = cp_pending_updates (rt_checkpoint x)))"
proof (intro conjI allI impI)
  show "grows content valid s s'"
    using rotate_step [OF grows_start [OF v], of h lo room g off doc history m] by (simp add: run)
  fix x
  assume "res = Inr x"
  with run have "rotate_room h lo store room g off doc history m s = (Inr x, s')" by simp
  then obtain bs o1 s1 s2 s3 s4 revn prev o2 where
    g: "checked_next g = Some (rt_next_delta_generation x)"
    and build: "build_checkpoint_record h lo room (gen_value g) (gen_value g) off doc history = Inr (rt_checkpoint x)"
    and enc: "checkpoint_encode h (rt_checkpoint x) = Inr bs"
    and per: "persist_checkpoint h store room g (rt_checkpoint x) m s = (Inr o1, s1)"
    and ens: "us_ensure_stream store (rt_next_delta_stream x) s1 = (Inr (), s2)"
    and rd: "us_read_all store (rt_next_delta_stream x) s2 = (Inr [], s3)"
    and pos: "next_manifest_position h store room g s3 = (Inr (revn, prev), s4)"
    and new: "manifest_record_new h room revn prev (gen_value g) bs (gen_value (rt_next_delta_generation x)) =
      Inr (rt_manifest x)"
    and pub: "publish_manifest_record h store room (rt_manifest x) m s4 = (Inr o2, s')"
    and rest: "rt_next_delta_stream x = physical (delta_stream_for_generation h room (rt_next_delta_generation x))"
      "rt_retained_history x = cp_pending_updates (rt_checkpoint x)"
    by (rule rotate_success)
  have v1: "valid s1" and pre: "prefix bs (content s1 (physical (checkpoint_stream h room g)))"
    using persist_run [OF v per] enc by (auto simp: grows_def)
  have "grows content valid s1 (snd (next_manifest_position h store room g (snd (us_read_all store
      (rt_next_delta_stream x) (snd (us_ensure_stream store (rt_next_delta_stream x) s1))))))"
    by (intro next_position_step read_all_step ensure_step grows_start v1)
  then have g4: "grows content valid s1 s4"
    by (simp add: ens rd pos)
  have pr: "grows content valid s4 s' \<and> (\<exists>ms. prefix ms (content s' (physical (manifest_stream h room))) \<and>
      chain_with_head h room ms (rt_manifest x))"
    using publish_run [OF grows_inv [OF g4] pub] by auto
  then have "prefix bs (content s' (physical (checkpoint_stream h room g)))"
    using pre g4 unfolding grows_def by (meson prefix_order.order_trans)
  with g build enc manifest_record_new_Inr [OF new] pr rest
  show "\<exists>bs ms. build_checkpoint_record h lo room (gen_value g) (gen_value g) off doc history = Inr (rt_checkpoint x) \<and>
      checkpoint_encode h (rt_checkpoint x) = Inr bs \<and>
      prefix bs (content s' (physical (checkpoint_stream h room g))) \<and>
      prefix ms (content s' (physical (manifest_stream h room))) \<and>
      chain_with_head h room ms (rt_manifest x) \<and>
      verifies_checkpoint_bytes h (rt_manifest x) bs \<and>
      mf_checkpoint_generation (rt_manifest x) = gen_value g \<and>
      mf_active_delta_generation (rt_manifest x) = gen_value (rt_next_delta_generation x) \<and>
      checked_next g = Some (rt_next_delta_generation x) \<and>
      rt_next_delta_stream x = physical (delta_stream_for_generation h room (rt_next_delta_generation x)) \<and>
      rt_retained_history x = cp_pending_updates (rt_checkpoint x)"
    by auto
qed

end

context exclusive_store
begin

lemma next_position_same:
  assumes "valid s" and "next_manifest_position h store room g s = (r, t)"
  shows "valid t \<and> content t = content s"
proof -
  have "only_touches content valid {} s (snd (next_manifest_position h store room g s))"
    unfolding next_manifest_position_def Let_def by (auto intro!: store_touches touches_start assms(1))
  then show ?thesis by (auto simp: assms(2) only_touches_def fun_eq_iff)
qed

text \<open>Whatever its outcome, a rotation writes to the checkpoint of its generation and to the manifest only.\<close>

lemma touches_persist:
  assumes "only_touches content valid N s0 s" and "physical (checkpoint_stream h room g) \<in> N"
  shows "only_touches content valid N s0 (snd (persist_checkpoint h store room g r m s))"
proof (cases "persist_checkpoint h store room g r m s")
  case (Pair x t)
  have "valid s" using assms(1) by (simp add: only_touches_def)
  from persist_run [OF this Pair] have "valid t"
    by (simp add: grows_def)
  moreover have "l \<noteq> physical (checkpoint_stream h room g)" if "l \<notin> N" for l
    using assms(2) that by blast
  ultimately show ?thesis
    using assms(1) conjunct1 [OF persist_exclusive [OF \<open>valid s\<close> Pair]] by (simp add: only_touches_def Pair)
qed

lemma touches_publish:
  assumes "only_touches content valid N s0 s" and "physical (manifest_stream h room) \<in> N"
  shows "only_touches content valid N s0 (snd (publish_manifest_record h store room r m s))"
proof (cases "publish_manifest_record h store room r m s")
  case (Pair x t)
  have "l \<noteq> physical (manifest_stream h room)" if "l \<notin> N" for l
    using assms(2) that by blast
  with assms(1) publish_touches [OF _ Pair] show ?thesis
    by (simp add: only_touches_def Pair)
qed

lemma touches_next_position:
  assumes "only_touches content valid N s0 s"
  shows "only_touches content valid N s0 (snd (next_manifest_position h store room g s))"
proof (cases "next_manifest_position h store room g s")
  case (Pair x t)
  with assms next_position_same [OF _ Pair] show ?thesis
    by (simp add: only_touches_def)
qed

lemma rotate_touches:
  assumes "valid s" and "rotate_room h lo store room g off doc history m s = (r, s')"
  shows "only_touches content valid {physical (checkpoint_stream h room g), physical (manifest_stream h room)} s s'"
proof -
  have "only_touches content valid {physical (checkpoint_stream h room g), physical (manifest_stream h room)} s
      (snd (rotate_room h lo store room g off doc history m s))"
    unfolding rotate_room_def Let_def
    by (auto intro!: store_touches touches_persist touches_publish touches_next_position touches_start assms(1)
        split: prod.splits)
  then show ?thesis by (simp add: assms(2))
qed

text \<open>What the streams of the room hold after a successful rotation.\<close>

lemma rotate_exclusive:
  assumes v: "valid s" and run: "rotate_room h lo store room g off doc history m s = (Inr x, s')"
  shows "valid s' \<and>
    checkpoint_encode h (rt_checkpoint x) = Inr (content s' (physical (checkpoint_stream h room g))) \<and>
    content s' (rt_next_delta_stream x) = [] \<and>
    chain_with_head h room (content s' (physical (manifest_stream h room))) (rt_manifest x) \<and>
    (\<forall>l. l \<noteq> physical (checkpoint_stream h room g) \<longrightarrow> l \<noteq> physical (manifest_stream h room) \<longrightarrow>
       content s' l = content s l)"
proof -
  from rotate_success [OF run] obtain bs o1 s1 s2 s3 s4 revn prev o2 where
    enc: "checkpoint_encode h (rt_checkpoint x) = Inr bs"
    and per: "persist_checkpoint h store room g (rt_checkpoint x) m s = (Inr o1, s1)"
    and ens: "us_ensure_stream store (rt_next_delta_stream x) s1 = (Inr (), s2)"
    and rd: "us_read_all store (rt_next_delta_stream x) s2 = (Inr [], s3)"
    and pos: "next_manifest_position h store room g s3 = (Inr (revn, prev), s4)"
    and pub: "publish_manifest_record h store room (rt_manifest x) m s4 = (Inr o2, s')"
    and next_stream: "rt_next_delta_stream x =
      physical (delta_stream_for_generation h room (rt_next_delta_generation x))"
    by metis
  have v1: "valid s1"
    using persist_run [OF v per] by (simp add: grows_def)
  note p = persist_exclusive [OF v per]
  have s3: "valid s3" "content s3 = content s1" "content s1 (rt_next_delta_stream x) = []"
    using ensure_law [OF v1 ens] ensure_same [OF v1 ens] read_all_law [OF _ rd] read_all_fresh [OF _ rd] by auto
  have s4: "valid s4" "content s4 = content s1"
    using next_position_same [OF s3(1) pos] s3 by auto
  have t: "valid s'" "\<And>l. l \<noteq> physical (manifest_stream h room) \<Longrightarrow> content s' l = content s1 l"
    using publish_touches [OF s4(1) pub] s4(2) by (auto simp: only_touches_def)
  show ?thesis
    using publish_exclusive [OF s4(1) pub] p enc s3(3) t by (simp add: next_stream)
qed

text \<open>What the streams hold after a rotation is recovered: the head's checkpoint restores the document.\<close>

lemma rotate_recoverable:
  assumes v: "valid s" and run: "rotate_room h lo store room g off doc history m s = (Inr x, s')"
  shows "\<exists>d. recover_checkpoint h lo room (rt_manifest x) (content s' (physical (checkpoint_stream h room g))) =
      Inr (rt_checkpoint x, d) \<and> same_document lo d doc"
    and "mf_checkpoint_generation (rt_manifest x) = gen_value g"
    and "mf_active_delta_generation (rt_manifest x) = gen_value (rt_next_delta_generation x)"
    and "rt_next_delta_stream x = physical (delta_stream_for_generation h room (rt_next_delta_generation x))"
    and "rt_retained_history x = cp_pending_updates (rt_checkpoint x)"
proof -
  let ?c = "rt_checkpoint x" and ?m = "rt_manifest x" and ?ck = "content s' (physical (checkpoint_stream h room g))"
  obtain bs where build: "build_checkpoint_record h lo room (gen_value g) (gen_value g) off doc history = Inr ?c"
    and enc: "checkpoint_encode h ?c = Inr bs" and ver: "verifies_checkpoint_bytes h ?m bs"
    and gens: "mf_checkpoint_generation ?m = gen_value g" "checked_next g = Some (rt_next_delta_generation x)"
      "mf_active_delta_generation ?m = gen_value (rt_next_delta_generation x)"
    and rest: "rt_next_delta_stream x = physical (delta_stream_for_generation h room (rt_next_delta_generation x))"
      "rt_retained_history x = cp_pending_updates ?c"
    using rotate_run [OF v run] by auto
  have bs: "bs = ?ck"
    using rotate_exclusive [OF v run] enc by simp
  from build obtain d where d: "restore_checkpoint lo ?c = Inr d" "same_document lo d doc"
    and fields: "checkpoint_belongs_to_room h ?c room" "cp_checkpoint_generation ?c = gen_value g"
      "cp_source_delta_generation ?c = gen_value g"
    by (rule build_checkpoint_Inr) (auto simp: checkpoint_record_new_def checkpoint_belongs_to_room_def)
  have succ: "unat (mf_active_delta_generation ?m) = Suc (unat (mf_checkpoint_generation ?m))"
    using gens by (cases "rt_next_delta_generation x") (auto simp: checked_next_def u64_checked_succ_iff)
  have "recover_checkpoint h lo room ?m ?ck = Inr (?c, d)"
    using recover_checkpoint_run [OF ver enc fields(1) _ _ succ d(1)] fields by (simp add: gens bs)
  with d(2) show "\<exists>d. recover_checkpoint h lo room ?m ?ck = Inr (?c, d) \<and> same_document lo d doc"
    by blast
qed (use rotate_run [OF v run] in auto)

end

section \<open>Properties\<close>

text \<open>
  C29. A rotation that succeeds is durable, on every append-only store. The checkpoint stream
  of the generation begins with the checkpoint built from the live document, the manifest
  stream with a valid chain of the room whose head binds exactly those checkpoint bytes by
  length and digest and names the next generation as the active one, and no stream loses a
  byte.
\<close>

theorem rotation_durable:
  assumes "append_only_store store content valid" and "valid s"
    and "rotate_room h lo store room g off doc history m s = (res, s')"
  shows "(\<forall>l. prefix (content s l) (content s' l)) \<and> (\<forall>x. res = Inr x \<longrightarrow>
    (\<exists>bs rs. build_checkpoint_record h lo room (gen_value g) (gen_value g) off doc history = Inr (rt_checkpoint x) \<and>
      checkpoint_encode h (rt_checkpoint x) = Inr bs \<and>
      prefix bs (content s' (physical (checkpoint_stream h room g))) \<and>
      prefix (concat (map (manifest_layout h) (rs @ [rt_manifest x])))
        (content s' (physical (manifest_stream h room))) \<and>
      validate_manifest_chain h (rs @ [rt_manifest x]) room = Inr (rt_manifest x) \<and>
      verifies_checkpoint_bytes h (rt_manifest x) bs \<and>
      mf_checkpoint_generation (rt_manifest x) = gen_value g \<and>
      mf_active_delta_generation (rt_manifest x) = gen_value (rt_next_delta_generation x) \<and>
      checked_next g = Some (rt_next_delta_generation x) \<and>
      rt_next_delta_stream x = physical (delta_stream_for_generation h room (rt_next_delta_generation x)) \<and>
      rt_retained_history x = cp_pending_updates (rt_checkpoint x)))"
  using append_only_store.rotate_run [OF assms]
  unfolding grows_def chain_with_head_def validate_manifest_chain_eq by fastforce

text \<open>
  C28. Recovery inverts rotation. On a store with a single writer and fresh reads, a recovery
  right after a successful rotation, whose reads succeed, is not refused: it returns a
  document with the value and the version of the rotated one, the retained updates as its
  history, and the next generation, with its empty stream, as the active one, provided the
  manifest stream is within the 65,536 records the decoder admits.
\<close>

theorem rotation_recovery_roundtrip:
  assumes "exclusive_store store content valid seen" and "valid s"
    and "rotate_room h lo store room g off doc history m s = (Inr x, s')"
    and "length (content s' (physical (manifest_stream h room))) \<le> 65536 * 188"
    and "recover_from_manifest h lo store room l s' = (r, s'')"
    and "\<forall>e. r \<noteq> Inl (recovery_error.Store e)"
  shows "\<exists>rv. r = Inr (Some rv) \<and> same_document lo (rv_doc rv) doc \<and>
    rv_history rv = rt_retained_history x \<and> rv_checkpoint_generation rv = g \<and>
    rv_active_delta_generation rv = rt_next_delta_generation x \<and>
    rv_active_delta_stream rv = rt_next_delta_stream x \<and> rv_active_delta_end_offset rv = 0"
proof -
  let ?c = "rt_checkpoint x" and ?m = "rt_manifest x" and ?held = "content s'"
  note rec = exclusive_store.rotate_recoverable [OF assms(1-3)]
  have held: "valid s'" "checkpoint_encode h ?c = Inr (?held (physical (checkpoint_stream h room g)))"
    "?held (rt_next_delta_stream x) = []" "chain_with_head h room (?held (physical (manifest_stream h room))) ?m"
    using exclusive_store.rotate_exclusive [OF assms(1-3)] by simp_all
  have g: "GenerationId (gen_value g) = g" for g
    by (cases g) simp
  from rec(1) obtain d where ck: "recover_checkpoint h lo room ?m
      (?held (physical (checkpoint_stream h room (GenerationId (mf_checkpoint_generation ?m))))) = Inr (?c, d)"
    and d: "same_document lo d doc"
    by (auto simp: rec(2) g)
  have dl: "recover_delta h lo l ?c d
      (?held (physical (delta_stream_for_generation h room (GenerationId (mf_active_delta_generation ?m))))) =
      Inr (d, cp_pending_updates ?c, 0)"
    using held frame_decode_empty [of h l] unfolding recover_delta_Inr_iff
    by (intro exI [of _ "[]"]) (simp add: rec(3,4) g replay_updates_def usize_limit_def)
  have "recovery_of h lo room l ?held = Inr (Some
      \<lparr>rv_doc = d, rv_history = cp_pending_updates ?c, rv_checkpoint_generation = g,
       rv_active_delta_generation = rt_next_delta_generation x, rv_active_delta_stream = rt_next_delta_stream x,
       rv_active_delta_end_offset = 0,
       rv_recovered_checkpoint_bytes = length (?held (physical (checkpoint_stream h room g))),
       rv_recovered_delta_bytes = 0\<rparr>)"
    using recovery_of_run [where held = ?held, OF held(4) assms(4) ck dl] held(3)
    by (simp add: rec(2-4) g)
  then show ?thesis
    using exclusive_store.recover_refines [OF assms(1) _ assms(5)] held assms(6) d rec(4,5) by auto
qed

text \<open>The room of the recovery witnesses, rotated for the first time on the in-memory store.\<close>

definition sample_rotation :: rotation_result where
  "sample_rotation = \<lparr>rt_checkpoint = sample_room_checkpoint, rt_manifest = sample_room_manifest,
     rt_next_delta_generation = GenerationId 1,
     rt_next_delta_stream = physical (delta_stream_for_generation sample_hashes ''room-a'' (GenerationId 1)),
     rt_retained_history = [[3, 9, 8]]\<rparr>"

definition sample_rotated :: memory_state where
  "sample_rotated = snd (rotate_room sample_hashes toy_loro memory_store ''room-a'' gen_zero 91 [5, 6]
     [[2, 5], [3, 9, 8], [2, 6]] 1 memory_new)"

lemma sample_room_build:
  "build_checkpoint_record sample_hashes toy_loro ''room-a'' 0 0 91 [5, 6] [[2, 5], [3, 9, 8], [2, 6]] =
     Inr sample_room_checkpoint"
  by (simp add: build_checkpoint_record_def toy_add_def sample_room_checkpoint_def)

lemma sample_room_manifest_new:
  "manifest_record_new sample_hashes ''room-a'' 0 genesis_digest 0
     (checkpoint_layout sample_hashes sample_room_checkpoint) 1 = Inr sample_room_manifest"
  by (simp add: manifest_record_new_def sample_room_manifest_def sample_manifest_def Let_def
      validate_generation_pair_def validate_previous_digest_def u64_checked_add_def u64_of_usize_def
      record_digest_def genesis_digest_def flip: length_greater_0_conv)

lemma sample_rotate:
  shows "rotate_room sample_hashes toy_loro memory_store ''room-a'' gen_zero 91 [5, 6]
     [[2, 5], [3, 9, 8], [2, 6]] 1 memory_new = (Inr sample_rotation, sample_rotated)"
  "stream_bytes sample_rotated (physical (manifest_stream sample_hashes ''room-a'')) =
     manifest_layout sample_hashes sample_room_manifest"
  "\<not> ms_unavailable sample_rotated"
proof -
  define c where "c = checkpoint_layout sample_hashes sample_room_checkpoint"
  define e where "e = manifest_layout sample_hashes sample_room_manifest"
  have c: "checkpoint_encode sample_hashes sample_room_checkpoint = Inr c" "length c = 138" "c \<noteq> []"
    by (auto simp: c_def sample_room_checkpoint_encode simp flip: length_greater_0_conv)
  have fields: "checkpoint_belongs_to_room sample_hashes sample_room_checkpoint ''room-a''"
    "cp_checkpoint_generation sample_room_checkpoint = 0" "cp_pending_updates sample_room_checkpoint = [[3, 9, 8]]"
    "manifest_belongs_to_room sample_hashes sample_room_manifest ''room-a''"
    "mf_revision sample_room_manifest = 0" "mf_previous_record_digest sample_room_manifest = genesis_digest"
    by (simp_all add: sample_room_checkpoint_def checkpoint_record_new_def checkpoint_belongs_to_room_def
        sample_room_manifest_def sample_manifest_def manifest_belongs_to_room_def)
  then have chain: "validate_manifest_chain sample_hashes [sample_room_manifest] ''room-a'' = Inr sample_room_manifest"
    by (simp add: validate_manifest_chain_eq manifest_chain_single)
  have m: "manifest_record_new sample_hashes ''room-a'' 0 genesis_digest 0 c 1 = Inr sample_room_manifest"
    using sample_room_manifest_new by (simp add: c_def)
  have e: "manifest_encode sample_hashes sample_room_manifest = Inr e" "length e = 188" "e \<noteq> []"
    by (auto simp: e_def manifest_encode_layout manifest_admitted_def manifest_fields_ok_def
        sample_room_manifest_def sample_manifest_def record_digest_def simp flip: length_greater_0_conv)
  have gens: "checked_next (GenerationId 0) = Some (GenerationId 1)" "gen_zero = GenerationId 0"
    by (simp_all add: gen_zero_def checked_next_def u64_checked_add_def)
  have "\<exists>t. rotate_room sample_hashes toy_loro memory_store ''room-a'' gen_zero 91 [5, 6]
     [[2, 5], [3, 9, 8], [2, 6]] 1 memory_new = (Inr sample_rotation, t) \<and>
     stream_bytes t (physical (manifest_stream sample_hashes ''room-a'')) = e \<and> \<not> ms_unavailable t"
    by (simp add: rotate_room_def persist_checkpoint_def publish_manifest_record_def next_manifest_position_def
        manifest_extend_def Let_def c fields chain m e gens sample_room_build sample_rotation_def
        memory_ensure_stream_def memory_read_all_def memory_new_def set_stream_bytes_def stream_bytes_def
        memory_fresh_append u64_of_usize_def u64_checked_add_def)
  then show "rotate_room sample_hashes toy_loro memory_store ''room-a'' gen_zero 91 [5, 6]
      [[2, 5], [3, 9, 8], [2, 6]] 1 memory_new = (Inr sample_rotation, sample_rotated)"
    "stream_bytes sample_rotated (physical (manifest_stream sample_hashes ''room-a'')) =
      manifest_layout sample_hashes sample_room_manifest"
    "\<not> ms_unavailable sample_rotated"
    by (auto simp: sample_rotated_def e_def)
qed

lemma sample_rotated_recover:
  "recover_from_manifest sample_hashes toy_loro memory_store ''room-a'' default_frame_limits sample_rotated =
    (recovery_of sample_hashes toy_loro ''room-a'' default_frame_limits (stream_bytes sample_rotated),
     snd (recover_from_manifest sample_hashes toy_loro memory_store ''room-a'' default_frame_limits sample_rotated))"
  by (simp add: memory_recover sample_rotate(3))

lemma recovery_of_not_store: "recovery_of h lo room l held \<noteq> Inl (recovery_error.Store e)"
  by (auto simp: recovery_of_def manifest_head_of_def recover_checkpoint_def recover_delta_def
      validate_checkpoint_link_def Let_def r_bind_def map_err_def ok_or_def
      split: sum.splits option.splits if_splits prod.splits)

theorem rotation_durable_witness:
  "prefix (checkpoint_layout sample_hashes sample_room_checkpoint)
     (stream_bytes sample_rotated (physical (checkpoint_stream sample_hashes ''room-a'' gen_zero)))"
  using rotation_durable [OF memory.append_only_store_axioms TrueI sample_rotate(1)]
  by (auto simp: sample_rotation_def sample_room_checkpoint_encode)

theorem rotation_recovery_roundtrip_witness:
  "\<exists>rv. recovery_of sample_hashes toy_loro ''room-a'' default_frame_limits (stream_bytes sample_rotated) =
     Inr (Some rv) \<and> same_document toy_loro (rv_doc rv) [5, 6] \<and> rv_history rv = [[3, 9, 8]]"
proof -
  have "memory_honest memory_new"
    by (simp add: memory_honest_def memory_new_def)
  then show ?thesis
    using rotation_recovery_roundtrip [OF memory_exclusive.exclusive_store_axioms _ sample_rotate(1) _
        sample_rotated_recover] sample_rotate(2)
    by (auto simp: sample_rotation_def recovery_of_not_store)
qed

end
