(* ===== verification/Actor_State.thy ===== *)
theory Actor_State
  imports Messages Rotation "HOL-Library.AList"
begin

text \<open>
  The state of the room actor of \<open>src/actor.rs\<close>, its configuration and commands, the status
  it publishes, and the checks and trial imports an update goes through before it is
  appended. Elapsed times and log events are not represented; the peers, a hash map in the
  code, are an association list, so forwarding has a fixed order here.
\<close>

section \<open>State\<close>

datatype room_lifecycle =
    Recovering
  | Ready
  | AppendAmbiguous
  | Corrupt
  | Unavailable

fun lifecycle_text :: "room_lifecycle \<Rightarrow> string" where
  "lifecycle_text Recovering = ''recovering''"
| "lifecycle_text Ready = ''ready''"
| "lifecycle_text AppendAmbiguous = ''append_ambiguous''"
| "lifecycle_text Corrupt = ''corrupt''"
| "lifecycle_text Unavailable = ''unavailable''"

record room_status =
  st_stream :: string
  st_state :: room_lifecycle
  st_producer_id :: string
  st_producer_epoch :: u64
  st_producer_sequence :: u64
  st_pending_sequence :: "u64 option"
  st_peer_count :: nat
  st_last_error :: "string option"
  st_recovered_stream_bytes :: nat
  st_recovered_update_count :: nat
  st_recovery_read_requests :: u64

record actor_config =
  ag_command_capacity :: nat
  ag_ambiguous_retries :: nat
  ag_retry_delay_ms :: nat
  ag_frame_limits :: frame_limits

definition default_actor_config :: actor_config where
  "default_actor_config = \<lparr>ag_command_capacity = 128, ag_ambiguous_retries = 5,
     ag_retry_delay_ms = 25, ag_frame_limits = default_frame_limits\<rparr>"

datatype command =
    Join u64 bytes peer
  | Update u64 u64 "bytes list" peer
  | Leave u64
  | RetryAmbiguous
  | WaitForActivation
  | Rotate

text \<open>What a command answers on its \<open>oneshot\<close> channel, if it has one.\<close>

datatype reply =
    NoReply
  | Activated
  | Answer bool

record pending_append =
  pa_target_stream :: string
  pa_producer :: producer_tuple
  pa_frame :: delta_frame
  pa_bytes :: bytes

datatype durable_append =
    Committed (next_offset: u64)
  | VerifiedDuplicate (next_offset: u64)

datatype append_failure =
    DefinitelyRejected rejection_kind string
  | OutcomeUnknown store_error

record initialization_failure =
  if_state :: room_lifecycle
  if_message :: string

record 'd room_actor =
  ra_room_id :: string
  ra_boot_id :: "128 word"
  ra_stream :: string
  ra_active_delta_generation :: generation_id
  ra_active_delta_end_offset :: u64
  ra_producer_id :: string
  ra_producer_sequence :: u64
  ra_doc :: 'd
  ra_history :: "bytes list"
  ra_peers :: "(u64 \<times> peer) list"
  ra_blocked :: "pending_append option"
  ra_lifecycle :: room_lifecycle
  ra_last_error :: "string option"
  ra_status :: room_status
  ra_recovered_stream_bytes :: nat
  ra_recovered_update_count :: nat
  ra_recovery_read_requests :: u64
  ra_config :: actor_config

definition room_actor_new ::
  "hashes \<Rightarrow> ('d, 'v, 'x) loro \<Rightarrow> string \<Rightarrow> 128 word \<Rightarrow> actor_config \<Rightarrow> 'd room_actor" where
  "room_actor_new h lo room_id boot_id config =
     (let stream = physical (delta_stream h room_id);
          producer = producer_id h boot_id room_id;
          status = \<lparr>st_stream = stream, st_state = Recovering, st_producer_id = producer,
            st_producer_epoch = 0, st_producer_sequence = 0, st_pending_sequence = None,
            st_peer_count = 0, st_last_error = None, st_recovered_stream_bytes = 0,
            st_recovered_update_count = 0, st_recovery_read_requests = 0\<rparr>
      in \<lparr>ra_room_id = room_id, ra_boot_id = boot_id, ra_stream = stream,
          ra_active_delta_generation = gen_zero, ra_active_delta_end_offset = 0,
          ra_producer_id = producer, ra_producer_sequence = 0, ra_doc = lo_new lo,
          ra_history = [], ra_peers = [], ra_blocked = None, ra_lifecycle = Recovering,
          ra_last_error = None, ra_status = status, ra_recovered_stream_bytes = 0,
          ra_recovered_update_count = 0, ra_recovery_read_requests = 0, ra_config = config\<rparr>)"

definition publish_status :: "'d room_actor \<Rightarrow> 'd room_actor" where
  "publish_status a = a\<lparr>ra_status := (ra_status a)\<lparr>
     st_stream := ra_stream a,
     st_producer_id := ra_producer_id a,
     st_state := ra_lifecycle a,
     st_producer_sequence := ra_producer_sequence a,
     st_pending_sequence := map_option (\<lambda>p. pt_sequence (pa_producer p)) (ra_blocked a),
     st_peer_count := length (ra_peers a),
     st_last_error := ra_last_error a,
     st_recovered_stream_bytes := ra_recovered_stream_bytes a,
     st_recovered_update_count := ra_recovered_update_count a,
     st_recovery_read_requests := ra_recovery_read_requests a\<rparr>\<rparr>"

definition transition :: "room_lifecycle \<Rightarrow> string option \<Rightarrow> 'd room_actor \<Rightarrow> 'd room_actor" where
  "transition state last_error a = publish_status (a\<lparr>ra_lifecycle := state, ra_last_error := last_error\<rparr>)"

section \<open>Admission of updates\<close>

fun validate_blobs ::
  "('d, 'v, 'x) loro \<Rightarrow> bool \<Rightarrow> bytes list \<Rightarrow> string + unit" where
  "validate_blobs lo sole_snapshot [] = Inr ()"
| "validate_blobs lo sole_snapshot (update # updates) =
     (if update = [] then Inl ''DocUpdate contains an empty update'' else
      r_bind (lo_blob_mode lo update) (\<lambda>mode.
      case mode of
        Snapshot \<Rightarrow>
          if sole_snapshot then validate_blobs lo sole_snapshot updates
          else Inl ''full snapshots are accepted only as the sole blob in an empty room''
      | Updates \<Rightarrow> validate_blobs lo sole_snapshot updates
      | ShallowSnapshot \<Rightarrow> Inl ''shallow snapshots are not supported''
      | OutdatedSnapshot \<Rightarrow> Inl ''outdated Loro encodings are not supported''
      | OutdatedRle \<Rightarrow> Inl ''outdated Loro encodings are not supported''))"

definition validate_update_blobs ::
  "('d, 'v, 'x) loro \<Rightarrow> bytes list \<Rightarrow> bool \<Rightarrow> string + unit" where
  "validate_update_blobs lo updates allow_snapshot =
     (if updates = [] then Inl ''DocUpdate contains no updates''
      else validate_blobs lo (allow_snapshot \<and> length updates = 1) updates)"

text \<open>\<open>ReplayOutcome\<close>: the document and whether updates are pending.\<close>

record 'd replay_outcome =
  rp_doc :: 'd
  rp_has_pending :: bool

definition import_outcome ::
  "('d, 'v, 'x) loro \<Rightarrow> 'd \<Rightarrow> bytes list \<Rightarrow> string + 'd replay_outcome" where
  "import_outcome lo doc updates =
     (if updates = [] then Inr \<lparr>rp_doc = doc, rp_has_pending = False\<rparr>
      else r_bind (lo_import_batch lo doc updates) (\<lambda>(doc, pending).
        Inr \<lparr>rp_doc = doc, rp_has_pending = pending\<rparr>))"

definition build_candidate ::
  "('d, 'v, 'x) loro \<Rightarrow> 'd \<Rightarrow> bytes list \<Rightarrow> bytes list \<Rightarrow> string + 'd replay_outcome" where
  "build_candidate lo current_doc retained_history new_updates =
     r_bind (lo_export_snapshot lo current_doc) (\<lambda>snapshot.
     r_bind (lo_from_snapshot lo snapshot) (\<lambda>candidate.
     import_outcome lo candidate (retained_history @ new_updates)))"

definition replay :: "('d, 'v, 'x) loro \<Rightarrow> bytes list \<Rightarrow> string + 'd replay_outcome" where
  "replay lo updates = import_outcome lo (lo_new lo) updates"

section \<open>Failures of an initialization\<close>

definition initialization_store_failure :: "store_error \<Rightarrow> initialization_failure" where
  "initialization_store_failure e =
     \<lparr>if_state = (case e of Integrity _ \<Rightarrow> Corrupt | _ \<Rightarrow> Unavailable),
      if_message = store_error_text e\<rparr>"

definition manifest_recovery_failure :: "recovery_error \<Rightarrow> initialization_failure" where
  "manifest_recovery_failure e =
     \<lparr>if_state = (case e of
          recovery_error.Store (Integrity _) \<Rightarrow> Corrupt
        | recovery_error.Store _ \<Rightarrow> Unavailable
        | _ \<Rightarrow> Corrupt),
      if_message = recovery_error_text e\<rparr>"

section \<open>What the published status says\<close>

text \<open>The published status is the one the actor's state calls for.\<close>

definition status_current :: "'d room_actor \<Rightarrow> bool" where
  "status_current a \<longleftrightarrow> ra_status (publish_status a) = ra_status a"

lemma publish_status_simps [simp]:
  "ra_room_id (publish_status a) = ra_room_id a" "ra_boot_id (publish_status a) = ra_boot_id a"
  "ra_stream (publish_status a) = ra_stream a"
  "ra_active_delta_generation (publish_status a) = ra_active_delta_generation a"
  "ra_active_delta_end_offset (publish_status a) = ra_active_delta_end_offset a"
  "ra_producer_id (publish_status a) = ra_producer_id a"
  "ra_producer_sequence (publish_status a) = ra_producer_sequence a"
  "ra_doc (publish_status a) = ra_doc a" "ra_history (publish_status a) = ra_history a"
  "ra_peers (publish_status a) = ra_peers a" "ra_blocked (publish_status a) = ra_blocked a"
  "ra_lifecycle (publish_status a) = ra_lifecycle a"
  "ra_last_error (publish_status a) = ra_last_error a" "ra_config (publish_status a) = ra_config a"
  by (simp_all add: publish_status_def)

lemma transition_simps [simp]:
  "ra_room_id (transition st e a) = ra_room_id a" "ra_boot_id (transition st e a) = ra_boot_id a"
  "ra_stream (transition st e a) = ra_stream a"
  "ra_active_delta_generation (transition st e a) = ra_active_delta_generation a"
  "ra_active_delta_end_offset (transition st e a) = ra_active_delta_end_offset a"
  "ra_producer_id (transition st e a) = ra_producer_id a"
  "ra_producer_sequence (transition st e a) = ra_producer_sequence a"
  "ra_doc (transition st e a) = ra_doc a" "ra_history (transition st e a) = ra_history a"
  "ra_peers (transition st e a) = ra_peers a" "ra_blocked (transition st e a) = ra_blocked a"
  "ra_lifecycle (transition st e a) = st" "ra_last_error (transition st e a) = e"
  "ra_config (transition st e a) = ra_config a"
  by (simp_all add: transition_def)

lemma status_current_publish [simp]: "status_current (publish_status a)"
  by (simp add: status_current_def publish_status_def)

lemma status_current_transition [simp]: "status_current (transition st e a)"
  by (simp add: transition_def)

lemma status_current_new: "status_current (room_actor_new h lo room boot config)"
  by (simp add: status_current_def room_actor_new_def publish_status_def Let_def)

lemma initialization_failure_state:
  "if_state (initialization_store_failure e) \<in> {Corrupt, Unavailable}"
  "if_state (manifest_recovery_failure re) \<in> {Corrupt, Unavailable}"
  by (auto simp: initialization_store_failure_def manifest_recovery_failure_def
      split: store_error.splits recovery_error.splits)

text \<open>A list of blobs is admitted when every blob is an update, or one is the sole snapshot.\<close>

lemma validate_update_blobs_Inr:
  "validate_update_blobs lo us allow = Inr () \<longleftrightarrow> us \<noteq> [] \<and> (\<forall>u \<in> set us. u \<noteq> [] \<and>
     (lo_blob_mode lo u = Inr Updates \<or> lo_blob_mode lo u = Inr Snapshot \<and> allow \<and> us = [u]))"
proof -
  have blobs: "validate_blobs lo b vs = Inr () \<longleftrightarrow> (\<forall>u \<in> set vs. u \<noteq> [] \<and>
     (lo_blob_mode lo u = Inr Updates \<or> lo_blob_mode lo u = Inr Snapshot \<and> b))" for b vs
  proof (induction vs)
    case (Cons u vs)
    show ?case
    proof (cases "lo_blob_mode lo u")
      case (Inr mode)
      with Cons show ?thesis by (cases mode; cases b) simp_all
    qed simp
  qed simp
  have "length us = 1 \<and> u \<in> set us \<longleftrightarrow> us = [u]" for u
    by (auto simp: length_Suc_conv)
  then show ?thesis
    by (auto simp: validate_update_blobs_def blobs simp del: validate_blobs.simps)
qed

end
