(* ===== verification/Resolve_Append.thy ===== *)
theory Resolve_Append
  imports Actor_State
begin

text \<open>
  \<open>resolve_append\<close> and \<open>verify_duplicate_bytes\<close> of \<open>src/actor.rs\<close>: the append of a pending
  frame, retried with the same tuple and bytes while its outcome is ambiguous. It is the
  protocol of \<open>append_exact_with_retry\<close> with the errors sorted into definite rejections and
  unknown outcomes; on a well-formed pending frame the two agree, which carries the lemmas of
  the exact append over to the actor.
\<close>

section \<open>The code\<close>

definition verify_duplicate_bytes ::
  "hashes \<Rightarrow> pending_append \<Rightarrow> bytes \<Rightarrow> frame_limits \<Rightarrow> store_error + unit" where
  "verify_duplicate_bytes h pending stored limits =
     (if length stored \<noteq> length (pa_bytes pending)
      then Inl (Integrity (''duplicate range length mismatch: expected '' @
             show_nat (length (pa_bytes pending)) @ '', received '' @ show_nat (length stored)))
      else if stored \<noteq> pa_bytes pending
      then Inl (Integrity ''deduplicated tuple is bound to different frame bytes'')
      else r_bind (map_err (\<lambda>e. Integrity (frame_error_text e)) (frame_decode_exact h limits stored))
        (\<lambda>stored_frame.
      if fr_producer stored_frame \<noteq> pa_producer pending
      then Inl (Integrity ''deduplicated committed range has wrong producer tuple'')
      else if stored_frame \<noteq> pa_frame pending
      then Inl (Integrity ''deduplicated committed range has different frame fields'')
      else Inr ()))"

definition verify_duplicate ::
  "hashes \<Rightarrow> 's ursula_store \<Rightarrow> frame_limits \<Rightarrow> pending_append \<Rightarrow> u64 \<Rightarrow> 's \<Rightarrow>
   (append_failure + durable_append) \<times> 's" where
  "verify_duplicate h store limits pending k s =
     (let frame_len = length (pa_bytes pending) in
      s_bind (ok_or (OutcomeUnknown (Integrity ''frame length does not fit u64''))
                (u64_of_usize frame_len), s) (\<lambda>frame_len_u64 s.
      s_bind (ok_or (OutcomeUnknown (Integrity ''duplicate next offset is smaller than retry frame''))
                (u64_checked_sub k frame_len_u64), s) (\<lambda>start s.
      s_bind (s_err OutcomeUnknown
                (us_read_range store (pa_target_stream pending) start frame_len s)) (\<lambda>stored s.
      s_bind (map_err OutcomeUnknown (verify_duplicate_bytes h pending stored limits), s) (\<lambda>_ s.
      (Inr (VerifiedDuplicate k), s))))))"

function resolve_append_loop ::
  "hashes \<Rightarrow> 's ursula_store \<Rightarrow> frame_limits \<Rightarrow> nat \<Rightarrow> pending_append \<Rightarrow> nat \<Rightarrow> 's \<Rightarrow>
   (append_failure + durable_append) \<times> 's" where
  "resolve_append_loop h store limits ambiguous_retries pending attempts s =
     (case us_append store (pa_target_stream pending) (pa_producer pending) (pa_bytes pending) s of
        (Inr (append_outcome.Committed k), s) \<Rightarrow> (Inr (Committed k), s)
      | (Inr (Duplicate k), s) \<Rightarrow> verify_duplicate h store limits pending k s
      | (Inl (Ambiguous m), s) \<Rightarrow>
          if attempts \<ge> ambiguous_retries then (Inl (OutcomeUnknown (Ambiguous m)), s)
          else resolve_append_loop h store limits ambiguous_retries pending (attempts + 1) s
      | (Inl (Rejected kind m), s) \<Rightarrow> (Inl (DefinitelyRejected kind m), s)
      | (Inl e, s) \<Rightarrow> (Inl (OutcomeUnknown e), s))"
  by pat_completeness auto

termination
  by (relation "measure (\<lambda>(h, store, limits, m, p, attempts, s). m - attempts)") auto

declare resolve_append_loop.simps [simp del]

definition resolve_append ::
  "hashes \<Rightarrow> 's ursula_store \<Rightarrow> actor_config \<Rightarrow> pending_append \<Rightarrow> 's \<Rightarrow>
   (append_failure + durable_append) \<times> 's" where
  "resolve_append h store config pending s =
     resolve_append_loop h store (ag_frame_limits config) (ag_ambiguous_retries config) pending 0 s"

section \<open>Agreement with the exact append\<close>

text \<open>A pending append holds the encoding of its frame, sent under the frame's producer.\<close>

definition pending_ok :: "hashes \<Rightarrow> frame_limits \<Rightarrow> pending_append \<Rightarrow> bool" where
  "pending_ok h limits p \<longleftrightarrow>
     frame_encode_with_limits h limits (pa_frame p) = Inr (pa_bytes p) \<and>
     frame_wf h (pa_frame p) \<and> pa_producer p = fr_producer (pa_frame p)"

fun to_exact :: "durable_append \<Rightarrow> exact_append_outcome" where
  "to_exact (Committed k) = exact_append_outcome.Committed k"
| "to_exact (VerifiedDuplicate k) = exact_append_outcome.VerifiedDuplicate k"

text \<open>
  The results correspond: the same success, a definite rejection only for the store's own
  rejection, and failures for failures.
\<close>

definition outcome_agrees :: "append_failure + durable_append \<Rightarrow> store_error + exact_append_outcome \<Rightarrow> bool" where
  "outcome_agrees r x \<longleftrightarrow>
     (case r of
        Inr y \<Rightarrow> x = Inr (to_exact y)
      | Inl (DefinitelyRejected kind m) \<Rightarrow> x = Inl (Rejected kind m)
      | Inl (OutcomeUnknown (Integrity _)) \<Rightarrow> (\<exists>m. x = Inl (Integrity m))
      | Inl (OutcomeUnknown e) \<Rightarrow> x = Inl e)"

lemma outcome_agrees_simps [simp]:
  "outcome_agrees (Inr y) x \<longleftrightarrow> x = Inr (to_exact y)"
  "outcome_agrees (Inl (DefinitelyRejected kind m)) x \<longleftrightarrow> x = Inl (Rejected kind m)"
  "outcome_agrees (Inl (OutcomeUnknown (Ambiguous m))) x \<longleftrightarrow> x = Inl (Ambiguous m)"
  "outcome_agrees (Inl (OutcomeUnknown (Rejected kind m))) x \<longleftrightarrow> x = Inl (Rejected kind m)"
  "outcome_agrees (Inl (OutcomeUnknown (Integrity m))) x \<longleftrightarrow> (\<exists>m. x = Inl (Integrity m))"
  by (simp_all add: outcome_agrees_def)

lemma exact_offset_to_exact [simp]: "exact_offset (to_exact y) = next_offset y"
  by (cases y) auto

lemma pending_ok_decodes:
  assumes "pending_ok h limits p"
  shows "frame_decode_exact h limits (pa_bytes p) = Inr (pa_frame p)" and "pa_bytes p \<noteq> []"
proof -
  have fits: "frame_fits limits (pa_frame p)" and out: "pa_bytes p = frame_bytes h (pa_frame p)"
    using assms by (auto simp: pending_ok_def frame_encode_Inr_iff)
  have "frame_wf h (pa_frame p)"
    using assms by (simp add: pending_ok_def)
  from frame_decode_run [OF this fits, of "[]"]
  show "frame_decode_exact h limits (pa_bytes p) = Inr (pa_frame p)"
    by (simp add: frame_decode_exact_def out)
  show "pa_bytes p \<noteq> []"
    by (auto simp: out frame_total_def frame_fixed_prefix_def simp flip: length_greater_0_conv)
qed

lemma verify_duplicate_agrees:
  assumes ok: "pending_ok h limits p"
  shows "snd (verify_duplicate h store limits p k s) =
      snd (exact_verify_duplicate_bytes store (pa_target_stream p) k (pa_bytes p) s)"
    and "outcome_agrees (fst (verify_duplicate h store limits p k s))
      (map_sum id (\<lambda>_. exact_append_outcome.VerifiedDuplicate k)
        (fst (exact_verify_duplicate_bytes store (pa_target_stream p) k (pa_bytes p) s)))"
  using pending_ok_decodes [OF ok] ok
  by (auto simp: verify_duplicate_def exact_verify_duplicate_bytes_def verify_duplicate_bytes_def Let_def
      outcome_agrees_def s_bind_def s_err_def map_err_def ok_or_def pending_ok_def
      split: prod.splits sum.splits option.splits store_error.splits)

lemma resolve_loop_agrees:
  assumes ok: "pending_ok h limits p"
  shows "snd (resolve_append_loop h store limits m p i s) =
      snd (append_exact_loop store (pa_target_stream p) (pa_producer p) (pa_bytes p) m i s) \<and>
    outcome_agrees (fst (resolve_append_loop h store limits m p i s))
      (fst (append_exact_loop store (pa_target_stream p) (pa_producer p) (pa_bytes p) m i s))"
proof (induction "m - i" arbitrary: i s rule: less_induct)
  case less
  obtain r t where ap: "us_append store (pa_target_stream p) (pa_producer p) (pa_bytes p) s = (r, t)"
    by (cases "us_append store (pa_target_stream p) (pa_producer p) (pa_bytes p) s") auto
  note steps = resolve_append_loop.simps [of h store limits m p i s]
    append_exact_loop.simps [of store "pa_target_stream p" "pa_producer p" "pa_bytes p" m i s]
  show ?case
  proof (cases r)
    case (Inl e)
    show ?thesis
    proof (cases e)
      case (Ambiguous e')
      with Inl ap less [of "i + 1" t] show ?thesis
        by (cases "i < m") (simp_all add: steps)
    qed (use Inl ap in \<open>simp_all add: steps\<close>)
  next
    case (Inr y)
    show ?thesis
    proof (cases y)
      case (Committed k)
      with Inr ap show ?thesis by (simp add: steps outcome_agrees_def)
    next
      case (Duplicate k)
      with Inr ap verify_duplicate_agrees [OF ok, of store k t] show ?thesis
        by (cases "exact_verify_duplicate_bytes store (pa_target_stream p) k (pa_bytes p) t";
            cases "fst (exact_verify_duplicate_bytes store (pa_target_stream p) k (pa_bytes p) t)")
          (auto simp: steps)
    qed
  qed
qed

lemma resolve_agrees:
  assumes ok: "pending_ok h (ag_frame_limits config) p"
  shows "snd (resolve_append h store config p s) = snd (append_exact_with_retry store (pa_target_stream p)
      (pa_producer p) (pa_bytes p) (ag_ambiguous_retries config) s)"
    and "outcome_agrees (fst (resolve_append h store config p s))
      (fst (append_exact_with_retry store (pa_target_stream p) (pa_producer p) (pa_bytes p)
        (ag_ambiguous_retries config) s))"
  using resolve_loop_agrees [OF ok, of store "ag_ambiguous_retries config" 0 s] pending_ok_decodes(2) [OF ok]
  by (simp_all add: resolve_append_def append_exact_with_retry_def)

section \<open>Under the contracts\<close>

lemma resolve_exact:
  assumes "pending_ok h (ag_frame_limits config) p" and "resolve_append h store config p s = (r, s')"
  obtains x where "append_exact_with_retry store (pa_target_stream p) (pa_producer p) (pa_bytes p)
      (ag_ambiguous_retries config) s = (x, s')" and "outcome_agrees r x"
  using resolve_agrees [OF assms(1), of store s] assms(2) by (metis fst_conv prod.collapse snd_conv)

context append_only_store
begin

lemma resolve_run:
  assumes ok: "pending_ok h (ag_frame_limits config) p" and v: "valid s"
    and run: "resolve_append h store config p s = (r, s')"
  shows "grows content valid s s' \<and>
    (\<forall>y. r = Inr y \<longrightarrow> stored_at (content s' (pa_target_stream p)) (next_offset y) (pa_bytes p))"
proof -
  from ok run obtain x where ex: "append_exact_with_retry store (pa_target_stream p) (pa_producer p) (pa_bytes p)
      (ag_ambiguous_retries config) s = (x, s')" and ag: "outcome_agrees r x" by (rule resolve_exact)
  from append_exact_run [OF v ex] ag show ?thesis by auto
qed

end

context exclusive_store
begin

lemma resolve_once:
  assumes ok: "pending_ok h (ag_frame_limits config) p" and v: "valid s"
    and run: "resolve_append h store config p s = (r, s')"
  shows "(\<forall>l. l \<noteq> pa_target_stream p \<longrightarrow> content s' l = content s l) \<and>
    content s' (pa_target_stream p) \<in>
      {content s (pa_target_stream p), content s (pa_target_stream p) @ pa_bytes p}"
proof -
  from ok run obtain x where ex: "append_exact_with_retry store (pa_target_stream p) (pa_producer p) (pa_bytes p)
      (ag_ambiguous_retries config) s = (x, s')" by (rule resolve_exact)
  from append_exact_once [OF v ex] show ?thesis by auto
qed

end

section \<open>Properties\<close>

text \<open>
  C11. The actor's append and the exact append are the same protocol. For a pending frame
  that holds its own encoding, \<open>resolve_append\<close> and \<open>append_exact_with_retry\<close> with the
  same tuple and bytes leave the store in the same state and agree on success and its offset;
  the decoding of the duplicate range adds no further refusal, and a definite rejection is
  one the store itself gave.
\<close>

theorem resolve_append_is_exact:
  assumes "frame_encode_with_limits h (ag_frame_limits config) (pa_frame p) = Inr (pa_bytes p)"
    and "frame_wf h (pa_frame p)" and "pa_producer p = fr_producer (pa_frame p)"
  shows "\<exists>r x s'. resolve_append h store config p s = (r, s') \<and>
    append_exact_with_retry store (pa_target_stream p) (pa_producer p) (pa_bytes p)
      (ag_ambiguous_retries config) s = (x, s') \<and>
    (\<forall>k. (r = Inr (Committed k) \<longleftrightarrow> x = Inr (exact_append_outcome.Committed k)) \<and>
      (r = Inr (VerifiedDuplicate k) \<longleftrightarrow> x = Inr (exact_append_outcome.VerifiedDuplicate k))) \<and>
    (\<forall>kind m. r = Inl (DefinitelyRejected kind m) \<longrightarrow> x = Inl (Rejected kind m))"
proof -
  have ok: "pending_ok h (ag_frame_limits config) p"
    using assms by (simp add: pending_ok_def)
  obtain r s' where run: "resolve_append h store config p s = (r, s')" by fastforce
  with ok obtain x where x: "append_exact_with_retry store (pa_target_stream p) (pa_producer p) (pa_bytes p)
      (ag_ambiguous_retries config) s = (x, s')" "outcome_agrees r x" by (rule resolve_exact)
  have "\<exists>e. x = Inl e" if "r = Inl f" for f
    using x(2) that by (cases f; cases "case f of OutcomeUnknown e \<Rightarrow> e | _ \<Rightarrow> Ambiguous []") auto
  then have "(r = Inr y) = (x = Inr (to_exact y))" for y
    using x(2) by (cases r; cases y; cases "projr r") auto
  from this [of "Committed _"] this [of "VerifiedDuplicate _"] show ?thesis
    using run x by auto
qed

definition sample_pending :: pending_append where
  "sample_pending = \<lparr>pa_target_stream = ''d'', pa_producer = fr_producer sample_frame,
     pa_frame = sample_frame, pa_bytes = frame_bytes sample_hashes sample_frame\<rparr>"

lemma sample_pending_ok:
  "frame_encode_with_limits sample_hashes (ag_frame_limits default_actor_config) (pa_frame sample_pending) =
     Inr (pa_bytes sample_pending)"
  "frame_wf sample_hashes (pa_frame sample_pending)"
  "pa_producer sample_pending = fr_producer (pa_frame sample_pending)"
  using sample_frame_ok by (simp_all add: sample_pending_def default_actor_config_def frame_encode_Inr_iff)

theorem resolve_append_is_exact_witness:
  "\<exists>r x s'. resolve_append sample_hashes memory_store default_actor_config sample_pending lossy_memory = (r, s') \<and>
    append_exact_with_retry memory_store ''d'' (fr_producer sample_frame)
      (frame_bytes sample_hashes sample_frame) 5 lossy_memory = (x, s')"
  using resolve_append_is_exact [OF sample_pending_ok, of memory_store lossy_memory]
  by (auto simp: sample_pending_def default_actor_config_def)

end
