(* ===== verification/Room_Actor.thy ===== *)
theory Room_Actor
  imports Resolve_Append
begin

text \<open>
  The room actor of \<open>src/actor.rs\<close>: the single owner of a room's document, which runs one
  command at a time. A peer's update is first tried on a copy of the document, then encoded as
  a frame and appended to the room's stream, and only a durable frame is applied, forwarded
  and acknowledged. An append whose outcome stays unknown blocks the room until the same
  frame is resolved. Every handler takes and returns the actor and the world.
\<close>

section \<open>Activation\<close>

text \<open>The frames of the stream, each admitted as it was when it was written.\<close>

fun load_history ::
  "('d, 'v, 'x) loro \<Rightarrow> bytes list \<Rightarrow> delta_frame list \<Rightarrow> string + bytes list" where
  "load_history lo history [] = Inr history"
| "load_history lo history (frame # frames) =
     r_bind (validate_update_blobs lo (fr_updates frame) (history = [])) (\<lambda>_.
     load_history lo (history @ fr_updates frame) frames)"

definition corrupt_failure :: "string \<Rightarrow> initialization_failure" where
  "corrupt_failure m = \<lparr>if_state = Corrupt, if_message = m\<rparr>"

definition load_from_store ::
  "hashes \<Rightarrow> ('d, 'v, 'x) loro \<Rightarrow> 's ursula_store \<Rightarrow> 'd room_actor \<times> 's world \<Rightarrow>
   (initialization_failure + (bytes list \<times> 'd)) \<times> ('d room_actor \<times> 's world)" where
  "load_from_store h lo store = (\<lambda>(a, w).
     case on_store (us_read_all_observed store (ra_stream a)) w of
       (Inl e, w) \<Rightarrow> (Inl (initialization_store_failure e), (a, w))
     | (Inr observation, w) \<Rightarrow>
         let a = a\<lparr>ra_recovery_read_requests := ro_request_count observation\<rparr>;
             bs = ro_bytes observation in
         s_bind (ok_or (corrupt_failure ''delta stream length does not fit u64'')
                   (u64_of_usize (length bs)), (a, w)) (\<lambda>end_offset (a, w).
         let a = a\<lparr>ra_active_delta_end_offset := end_offset\<rparr> in
         s_bind (map_err (\<lambda>e. corrupt_failure (frame_error_text e))
                   (frame_decode_all_with_limits h (ag_frame_limits (ra_config a)) bs), (a, w))
           (\<lambda>frames (a, w).
         s_bind (map_err corrupt_failure (load_history lo [] frames), (a, w)) (\<lambda>history (a, w).
         s_bind (map_err corrupt_failure (replay lo history), (a, w)) (\<lambda>replayed (a, w).
         (Inr (history, rp_doc replayed),
          (a\<lparr>ra_recovered_stream_bytes := length bs,
             ra_recovered_update_count := length history\<rparr>, w)))))))"

definition initialize ::
  "hashes \<Rightarrow> ('d, 'v, 'x) loro \<Rightarrow> 's ursula_store \<Rightarrow> 'd room_actor \<times> 's world \<Rightarrow>
   (initialization_failure + unit) \<times> ('d room_actor \<times> 's world)" where
  "initialize h lo store = (\<lambda>(a, w).
     case on_store (recover_from_manifest h lo store (ra_room_id a) (ag_frame_limits (ra_config a))) w of
       (Inl e, w) \<Rightarrow> (Inl (manifest_recovery_failure e), (a, w))
     | (Inr (Some recovered), w) \<Rightarrow>
         (Inr (), (a\<lparr>
            ra_stream := rv_active_delta_stream recovered,
            ra_active_delta_generation := rv_active_delta_generation recovered,
            ra_active_delta_end_offset := rv_active_delta_end_offset recovered,
            ra_producer_id := producer_id_for_generation h (ra_boot_id a) (ra_room_id a)
              (rv_active_delta_generation recovered),
            ra_producer_sequence := 0,
            ra_history := rv_history recovered,
            ra_doc := rv_doc recovered,
            ra_recovered_stream_bytes :=
              usize_saturating_add (rv_recovered_checkpoint_bytes recovered) (rv_recovered_delta_bytes recovered),
            ra_recovered_update_count := length (rv_history recovered),
            ra_recovery_read_requests := 3\<rparr>, w))
     | (Inr None, w) \<Rightarrow>
         (case on_store (us_ensure_stream store (ra_stream a)) w of
            (Inl e, w) \<Rightarrow> (Inl (initialization_store_failure e), (a, w))
          | (Inr _, w) \<Rightarrow>
              s_bind (load_from_store h lo store (a, w)) (\<lambda>(history, doc) (a, w).
              (Inr (), (a\<lparr>ra_history := history, ra_doc := doc\<rparr>, w)))))"

text \<open>The start of \<open>run\<close>.\<close>

definition actor_start ::
  "hashes \<Rightarrow> ('d, 'v, 'x) loro \<Rightarrow> 's ursula_store \<Rightarrow> 'd room_actor \<times> 's world \<Rightarrow>
   'd room_actor \<times> 's world" where
  "actor_start h lo store aw =
     (case initialize h lo store aw of
        (Inr _, (a, w)) \<Rightarrow> (transition Ready None a, w)
      | (Inl failure, (a, w)) \<Rightarrow> (transition (if_state failure) (Some (if_message failure)) a, w))"

section \<open>Commands\<close>

definition reject_unavailable ::
  "command \<Rightarrow> 'd room_actor \<times> 's world \<Rightarrow> reply \<times> ('d room_actor \<times> 's world)" where
  "reject_unavailable cmd = (\<lambda>(a, w).
     let message = (case ra_last_error a of Some m \<Rightarrow> m | None \<Rightarrow> lifecycle_text (ra_lifecycle a)) in
     case cmd of
       Rotate \<Rightarrow> (Answer False, (a, w))
     | Join _ _ peer \<Rightarrow>
         (NoReply, (a, send_protocol peer (JoinError CrdtLoro (ra_room_id a) JoinAppError message
            None (Some (lifecycle_text (ra_lifecycle a)))) w))
     | Update _ batch_id _ peer \<Rightarrow> (NoReply, (a, send_ack peer (ra_room_id a) batch_id Unknown w))
     | command.Leave _ \<Rightarrow> (NoReply, (a, w))
     | RetryAmbiguous \<Rightarrow> (Answer False, (a, w))
     | WaitForActivation \<Rightarrow> (Activated, (a, w)))"

definition actor_join ::
  "('d, 'v, 'x) loro \<Rightarrow> u64 \<Rightarrow> bytes \<Rightarrow> peer \<Rightarrow> 'd room_actor \<times> 's world \<Rightarrow>
   'd room_actor \<times> 's world" where
  "actor_join lo connection_id version peer = (\<lambda>(a, w).
     if ra_lifecycle a \<noteq> Ready then
       (a, send_protocol peer (JoinError CrdtLoro (ra_room_id a) JoinAppError
             ''room state is not authoritative'' None (Some (lifecycle_text (ra_lifecycle a)))) w)
     else case (if version = [] then Inr None else map_sum id Some (lo_vv_decode lo version)) of
       Inl e \<Rightarrow>
         (a, send_protocol peer (JoinError CrdtLoro (ra_room_id a) VersionUnknown e
               (Some (lo_vv_encode lo (lo_oplog_vv lo (ra_doc a)))) None) w)
     | Inr client_version \<Rightarrow>
         let a = publish_status (a\<lparr>ra_peers := AList.update connection_id peer (ra_peers a)\<rparr>);
             w = send_protocol peer (JoinResponseOk CrdtLoro (ra_room_id a) PermissionWrite
                   (lo_vv_encode lo (lo_oplog_vv lo (ra_doc a))) (Some [])) w in
         if lo_len_ops lo (ra_doc a) = 0 then (a, w) else
         (case (case client_version of
                  Some v \<Rightarrow> lo_export_updates lo (ra_doc a) v
                | None \<Rightarrow> lo_export_snapshot lo (ra_doc a)) of
            Inr update \<Rightarrow> (a, send_update peer (ra_room_id a) update w)
          | Inl e \<Rightarrow> (a, send_room_error peer (ra_room_id a) e w)))"

text \<open>The status sent for a definite rejection of the store.\<close>

fun rejection_status :: "rejection_kind \<Rightarrow> update_status" where
  "rejection_status rejection_kind.PermissionDenied = PermissionDenied"
| "rejection_status rejection_kind.PayloadTooLarge = PayloadTooLarge"
| "rejection_status rejection_kind.RateLimited = RateLimited"
| "rejection_status rejection_kind.Invalid = InvalidUpdate"
| "rejection_status _ = AppError"

text \<open>The forwarding of accepted updates to the other peers.\<close>

definition forward_updates ::
  "u64 \<Rightarrow> string \<Rightarrow> bytes list \<Rightarrow> (u64 \<times> peer) list \<Rightarrow> 's world \<Rightarrow> 's world" where
  "forward_updates connection_id room_id updates peers w =
     fold (\<lambda>(id, subscriber) w.
       if id = connection_id then w
       else fold (\<lambda>update. send_update subscriber room_id update) updates w) peers w"

text \<open>The first half of \<open>update\<close>: the refusals, in order, or the candidate and its frame.\<close>

definition prepare_update ::
  "hashes \<Rightarrow> ('d, 'v, 'x) loro \<Rightarrow> u64 \<Rightarrow> u64 \<Rightarrow> bytes list \<Rightarrow> 'd room_actor \<Rightarrow>
   update_status + ('d \<times> u64 \<times> pending_append)" where
  "prepare_update h lo connection_id batch_id updates a =
     (if map_of (ra_peers a) connection_id = None then Inl PermissionDenied else
      if ra_lifecycle a \<noteq> Ready \<or> ra_blocked a \<noteq> None then Inl RateLimited else
      r_bind (map_err (\<lambda>_. InvalidUpdate) (validate_update_blobs lo updates (ra_history a = []))) (\<lambda>_.
      r_bind (map_err (\<lambda>_. InvalidUpdate) (build_candidate lo (ra_doc a) (ra_history a) updates))
        (\<lambda>replayed.
      let producer = \<lparr>pt_id = ra_producer_id a, pt_epoch = 0, pt_sequence = ra_producer_sequence a\<rparr> in
      r_bind (ok_or AppError (u64_checked_add (ra_producer_sequence a) 1)) (\<lambda>next_sequence.
      let frame = delta_frame_new h producer batch_id updates in
      r_bind (map_err (\<lambda>_. PayloadTooLarge)
                (frame_encode_with_limits h (ag_frame_limits (ra_config a)) frame)) (\<lambda>bs.
      Inr (rp_doc replayed, next_sequence,
           \<lparr>pa_target_stream = ra_stream a, pa_producer = producer, pa_frame = frame, pa_bytes = bs\<rparr>))))))"

definition actor_update ::
  "hashes \<Rightarrow> ('d, 'v, 'x) loro \<Rightarrow> 's ursula_store \<Rightarrow> u64 \<Rightarrow> u64 \<Rightarrow> bytes list \<Rightarrow> peer \<Rightarrow>
   'd room_actor \<times> 's world \<Rightarrow> 'd room_actor \<times> 's world" where
  "actor_update h lo store connection_id batch_id updates peer = (\<lambda>(a, w).
     case prepare_update h lo connection_id batch_id updates a of
       Inl status \<Rightarrow> (a, send_ack peer (ra_room_id a) batch_id status w)
     | Inr (candidate, next_sequence, pending) \<Rightarrow>
         (case on_store (resolve_append h store (ra_config a) pending) w of
            (Inr proof_, w) \<Rightarrow>
              let a = transition Ready None (a\<lparr>ra_producer_sequence := next_sequence,
                    ra_active_delta_end_offset := next_offset proof_,
                    ra_history := ra_history a @ updates, ra_doc := candidate\<rparr>);
                  w = forward_updates connection_id (ra_room_id a) updates (ra_peers a) w
              in (a, send_ack peer (ra_room_id a) batch_id Ok w)
          | (Inl (DefinitelyRejected kind message), w) \<Rightarrow>
              (a, send_ack peer (ra_room_id a) batch_id (rejection_status kind) w)
          | (Inl (OutcomeUnknown e), w) \<Rightarrow>
              let message = store_error_text e;
                  a = transition AppendAmbiguous (Some message) (a\<lparr>ra_blocked := Some pending\<rparr>)
              in (a, send_room_error peer (ra_room_id a) message
                       (send_ack peer (ra_room_id a) batch_id Unknown w))))"

definition rotate_generation ::
  "hashes \<Rightarrow> ('d, 'v, 'x) loro \<Rightarrow> 's ursula_store \<Rightarrow> 'd room_actor \<times> 's world \<Rightarrow>
   bool \<times> ('d room_actor \<times> 's world)" where
  "rotate_generation h lo store = (\<lambda>(a, w).
     if ra_lifecycle a \<noteq> Ready \<or> ra_blocked a \<noteq> None then (False, (a, w)) else
     case on_store (rotate_room h lo store (ra_room_id a) (ra_active_delta_generation a)
            (ra_active_delta_end_offset a) (ra_doc a) (ra_history a)
            (ag_ambiguous_retries (ra_config a))) w of
       (Inl e, w) \<Rightarrow> (False, (transition Unavailable (Some (rotation_error_text e)) a, w))
     | (Inr rotated, w) \<Rightarrow>
         (True, (transition Ready None (a\<lparr>
            ra_stream := rt_next_delta_stream rotated,
            ra_active_delta_generation := rt_next_delta_generation rotated,
            ra_active_delta_end_offset := 0,
            ra_producer_id := producer_id_for_generation h (ra_boot_id a) (ra_room_id a)
              (rt_next_delta_generation rotated),
            ra_producer_sequence := 0,
            ra_history := rt_retained_history rotated\<rparr>), w)))"

text \<open>A blocked room keeps its pending append until it is resolved; the handler puts it back
  on every path but success.\<close>

definition retry_pending ::
  "hashes \<Rightarrow> ('d, 'v, 'x) loro \<Rightarrow> 's ursula_store \<Rightarrow> 'd room_actor \<times> 's world \<Rightarrow>
   bool \<times> ('d room_actor \<times> 's world)" where
  "retry_pending h lo store = (\<lambda>(a, w).
     case ra_blocked a of
       None \<Rightarrow> (False, (a, w))
     | Some pending \<Rightarrow>
         let a = publish_status (a\<lparr>ra_blocked := None\<rparr>) in
         (case on_store (resolve_append h store (ra_config a) pending) w of
            (Inr _, w) \<Rightarrow>
              (case load_from_store h lo store (a, w) of
                 (Inr (history, doc), (a, w)) \<Rightarrow>
                   (case u64_checked_add (pt_sequence (pa_producer pending)) 1 of
                      None \<Rightarrow>
                        (False, (transition Unavailable
                           (Some ''producer sequence exhausted during reconciliation'')
                           (a\<lparr>ra_blocked := Some pending\<rparr>), w))
                    | Some next_sequence \<Rightarrow>
                        (True, (transition Ready None (a\<lparr>ra_producer_sequence := next_sequence,
                           ra_history := history, ra_doc := doc\<rparr>), w)))
               | (Inl failure, (a, w)) \<Rightarrow>
                   (False, (transition (if_state failure) (Some (if_message failure))
                      (a\<lparr>ra_blocked := Some pending\<rparr>), w)))
          | (Inl (DefinitelyRejected kind message), w) \<Rightarrow>
              (False, (transition Unavailable
                 (Some (''ambiguous append retry was definitely rejected ('' @
                    rejection_kind_text kind @ ''): '' @ message))
                 (a\<lparr>ra_blocked := Some pending\<rparr>), w))
          | (Inl (OutcomeUnknown e), w) \<Rightarrow>
              (False, (transition AppendAmbiguous (Some (store_error_text e))
                 (a\<lparr>ra_blocked := Some pending\<rparr>), w))))"

text \<open>One turn of the loop of \<open>run\<close>.\<close>

definition actor_handle ::
  "hashes \<Rightarrow> ('d, 'v, 'x) loro \<Rightarrow> 's ursula_store \<Rightarrow> command \<Rightarrow> 'd room_actor \<times> 's world \<Rightarrow>
   reply \<times> ('d room_actor \<times> 's world)" where
  "actor_handle h lo store cmd aw =
     (case cmd of
        WaitForActivation \<Rightarrow> (Activated, aw)
      | RetryAmbiguous \<Rightarrow> (let (b, aw) = retry_pending h lo store aw in (Answer b, aw))
      | Rotate \<Rightarrow> (let (b, aw) = rotate_generation h lo store aw in (Answer b, aw))
      | _ \<Rightarrow>
          if ra_lifecycle (fst aw) \<in> {Recovering, Corrupt, Unavailable}
          then reject_unavailable cmd aw
          else (case cmd of
            Join connection_id version peer \<Rightarrow> (NoReply, actor_join lo connection_id version peer aw)
          | Update connection_id batch_id updates peer \<Rightarrow>
              (NoReply, actor_update h lo store connection_id batch_id updates peer aw)
          | command.Leave connection_id \<Rightarrow>
              (NoReply, (publish_status ((fst aw)\<lparr>ra_peers := AList.delete connection_id (ra_peers (fst aw))\<rparr>),
                         snd aw))
          | _ \<Rightarrow> (NoReply, aw)))"

text \<open>
  \<open>run\<close>: the room is activated, then handles the commands of its channel in order; the
  replies are collected beside the final state.
\<close>

fun actor_loop ::
  "hashes \<Rightarrow> ('d, 'v, 'x) loro \<Rightarrow> 's ursula_store \<Rightarrow> command list \<Rightarrow> 'd room_actor \<times> 's world \<Rightarrow>
   reply list \<times> ('d room_actor \<times> 's world)" where
  "actor_loop h lo store [] aw = ([], aw)"
| "actor_loop h lo store (cmd # cmds) aw =
     (let (r, aw) = actor_handle h lo store cmd aw; (rs, aw) = actor_loop h lo store cmds aw
      in (r # rs, aw))"

definition actor_run ::
  "hashes \<Rightarrow> ('d, 'v, 'x) loro \<Rightarrow> 's ursula_store \<Rightarrow> command list \<Rightarrow> 'd room_actor \<times> 's world \<Rightarrow>
   reply list \<times> ('d room_actor \<times> 's world)" where
  "actor_run h lo store cmds aw = actor_loop h lo store cmds (actor_start h lo store aw)"

end
