(* ===== verification/Room_Manager.thy ===== *)
theory Room_Manager
  imports Room_Actor "HOL-Library.List_Lexorder" "HOL-Library.Multiset"
begin

text \<open>
  The directory of rooms of \<open>src/actor.rs\<close>: \<open>RoomManager\<close>, which creates a room's actor the
  first time the room is named, and \<open>RoomHandle\<close>, through which commands reach it. A room's
  task and channel are a slot: the actor, whether its activation has run, and the commands
  that wait in its channel. A channel is bounded; a sender waits while it is full. The tasks
  of the rooms never end while the manager lives, so no channel is ever closed.
\<close>

record 'd room_slot =
  rs_actor :: "'d room_actor"
  rs_started :: bool
  rs_queue :: "command list"

record 'd room_manager =
  rm_boot_id :: "128 word"
  rm_config :: actor_config
  rm_rooms :: "(string \<times> 'd room_slot) list"

definition room_manager_new :: "128 word \<Rightarrow> actor_config \<Rightarrow> 'd room_manager" where
  "room_manager_new boot_id config = \<lparr>rm_boot_id = boot_id, rm_config = config, rm_rooms = []\<rparr>"

definition set_slot :: "string \<Rightarrow> 'd room_slot \<Rightarrow> 'd room_manager \<Rightarrow> 'd room_manager" where
  "set_slot room_id slot m = m\<lparr>rm_rooms := AList.update room_id slot (rm_rooms m)\<rparr>"

text \<open>\<open>RoomManager::room\<close>: the room is there afterwards, new and not yet activated if it was not.\<close>

definition manager_room ::
  "hashes \<Rightarrow> ('d, 'v, 'x) loro \<Rightarrow> string \<Rightarrow> 'd room_manager \<Rightarrow> 'd room_manager" where
  "manager_room h lo room_id m =
     (case map_of (rm_rooms m) room_id of
        Some slot \<Rightarrow> m
      | None \<Rightarrow>
          set_slot room_id \<lparr>rs_actor = room_actor_new h lo room_id (rm_boot_id m) (rm_config m),
            rs_started = False, rs_queue = []\<rparr> m)"

text \<open>The send on a room's channel, \<open>None\<close> while the sender has to wait.\<close>

definition handle_send :: "string \<Rightarrow> command \<Rightarrow> 'd room_manager \<Rightarrow> 'd room_manager option" where
  "handle_send room_id cmd m =
     (case map_of (rm_rooms m) room_id of
        None \<Rightarrow> None
      | Some slot \<Rightarrow>
          if length (rs_queue slot) < ag_command_capacity (rm_config m)
          then Some (set_slot room_id (slot\<lparr>rs_queue := rs_queue slot @ [cmd]\<rparr>) m)
          else None)"

text \<open>\<open>rooms.room(room_id)\<close> followed by \<open>join\<close>, \<open>update\<close>, \<open>leave\<close>, \<open>wait_for_activation\<close> or
  \<open>rotate\<close> on the handle.\<close>

definition manager_send ::
  "hashes \<Rightarrow> ('d, 'v, 'x) loro \<Rightarrow> string \<Rightarrow> command \<Rightarrow> 'd room_manager \<Rightarrow> 'd room_manager option" where
  "manager_send h lo room_id cmd m = handle_send room_id cmd (manager_room h lo room_id m)"

text \<open>\<open>RoomManager::retry_ambiguous\<close> does not create the room; an unknown room answers \<open>false\<close>.\<close>

definition manager_retry_ambiguous :: "string \<Rightarrow> 'd room_manager \<Rightarrow> bool option \<times> 'd room_manager option" where
  "manager_retry_ambiguous room_id m =
     (case map_of (rm_rooms m) room_id of
        None \<Rightarrow> (Some False, Some m)
      | Some slot \<Rightarrow> (None, handle_send room_id RetryAmbiguous m))"

definition handle_status :: "'d room_slot \<Rightarrow> room_status" where
  "handle_status slot = ra_status (rs_actor slot)"

definition room_statuses :: "'d room_manager \<Rightarrow> room_status list" where
  "room_statuses m =
     sort_key (\<lambda>st. map (of_char :: char \<Rightarrow> nat) (st_stream st)) (map (handle_status \<circ> snd) (rm_rooms m))"

text \<open>The task of a room: its activation, and then one command after the other.\<close>

definition slot_activate ::
  "hashes \<Rightarrow> ('d, 'v, 'x) loro \<Rightarrow> 's ursula_store \<Rightarrow> 'd room_slot \<Rightarrow> 's world \<Rightarrow> 'd room_slot \<times> 's world" where
  "slot_activate h lo store slot w =
     (let (a, w) = actor_start h lo store (rs_actor slot, w)
      in (slot\<lparr>rs_actor := a, rs_started := True\<rparr>, w))"

definition slot_handle ::
  "hashes \<Rightarrow> ('d, 'v, 'x) loro \<Rightarrow> 's ursula_store \<Rightarrow> command \<Rightarrow> 'd room_slot \<Rightarrow> 's world \<Rightarrow>
   reply \<times> ('d room_slot \<times> 's world)" where
  "slot_handle h lo store cmd slot w =
     (let (r, (a, w)) = actor_handle h lo store cmd (rs_actor slot, w)
      in (r, (slot\<lparr>rs_actor := a, rs_queue := tl (rs_queue slot)\<rparr>, w)))"

section \<open>What the directory keeps\<close>

text \<open>A slot of the room \<open>room\<close>, of a manager with the given boot identity and configuration.\<close>

definition slot_ok ::
  "hashes \<Rightarrow> ('d, 'v, 'x) loro \<Rightarrow> 128 word \<Rightarrow> actor_config \<Rightarrow> ('d room_actor \<Rightarrow> bool) \<Rightarrow> string \<Rightarrow>
   'd room_slot \<Rightarrow> bool" where
  "slot_ok h lo boot_id config ok room slot \<longleftrightarrow>
     ra_room_id (rs_actor slot) = room \<and> ra_boot_id (rs_actor slot) = boot_id \<and>
     ra_config (rs_actor slot) = config \<and> length (rs_queue slot) \<le> ag_command_capacity config \<and>
     (if rs_started slot then ok (rs_actor slot)
      else rs_actor slot = room_actor_new h lo room boot_id config)"

definition manager_ok ::
  "hashes \<Rightarrow> ('d, 'v, 'x) loro \<Rightarrow> ('d room_actor \<Rightarrow> bool) \<Rightarrow> actor_config \<Rightarrow> 'd room_manager \<Rightarrow> bool" where
  "manager_ok h lo ok config m \<longleftrightarrow> rm_config m = config \<and> distinct (map fst (rm_rooms m)) \<and>
     (\<forall>(room, slot) \<in> set (rm_rooms m). slot_ok h lo (rm_boot_id m) config ok room slot)"

lemma manager_ok_new: "manager_ok h lo ok config (room_manager_new boot_id config)"
  by (simp add: manager_ok_def room_manager_new_def)

lemma manager_ok_slot:
  "manager_ok h lo ok config m \<Longrightarrow> map_of (rm_rooms m) room = Some slot \<Longrightarrow>
   slot_ok h lo (rm_boot_id m) config ok room slot"
  by (auto simp: manager_ok_def dest: map_of_SomeD)

lemma set_update_cases: "x \<in> set (AList.update k v xs) \<Longrightarrow> x = (k, v) \<or> x \<in> set xs"
  by (induction xs) (auto split: if_splits)

lemma manager_ok_set:
  "manager_ok h lo ok config m \<Longrightarrow> slot_ok h lo (rm_boot_id m) config ok room slot \<Longrightarrow>
   manager_ok h lo ok config (set_slot room slot m)"
  by (auto simp: manager_ok_def set_slot_def distinct_update dest!: set_update_cases)

lemma new_slot_ok:
  "slot_ok h lo boot_id config ok room
     \<lparr>rs_actor = room_actor_new h lo room boot_id config, rs_started = False, rs_queue = []\<rparr>"
  by (simp add: slot_ok_def) (simp add: room_actor_new_def Let_def)

lemma manager_ok_room:
  assumes ok: "manager_ok h lo ok config m"
  shows "manager_ok h lo ok config (manager_room h lo room m)"
proof -
  have "rm_config m = config" using ok by (simp add: manager_ok_def)
  then show ?thesis
    unfolding manager_room_def
    using manager_ok_set [OF ok new_slot_ok] ok by (simp split: option.split)
qed

lemma handle_send_ok:
  assumes ok: "manager_ok h lo ok config m" and run: "handle_send room cmd m = Some m'"
  shows "manager_ok h lo ok config m'"
proof -
  from run obtain slot where slot: "map_of (rm_rooms m) room = Some slot"
    and cap: "length (rs_queue slot) < ag_command_capacity (rm_config m)"
    and m': "m' = set_slot room (slot\<lparr>rs_queue := rs_queue slot @ [cmd]\<rparr>) m"
    by (auto simp: handle_send_def split: option.splits if_splits)
  have "rm_config m = config" using ok by (simp add: manager_ok_def)
  with manager_ok_slot [OF ok slot] cap show ?thesis
    unfolding m' by (intro manager_ok_set [OF ok]) (auto simp: slot_ok_def)
qed

lemma manager_send_ok:
  "manager_ok h lo ok config m \<Longrightarrow> manager_send h lo room cmd m = Some m' \<Longrightarrow> manager_ok h lo ok config m'"
  unfolding manager_send_def by (rule handle_send_ok [OF manager_ok_room])

text \<open>
  The status report lists the published status of every room once, ordered by stream name.
\<close>

lemma room_statuses_sorted:
  "mset (room_statuses m) = mset (map (\<lambda>(room, slot). ra_status (rs_actor slot)) (rm_rooms m)) \<and>
   sorted (map (\<lambda>st. map (of_char :: char \<Rightarrow> nat) (st_stream st)) (room_statuses m))"
proof -
  have eq: "map (handle_status \<circ> snd) (rm_rooms m) = map (\<lambda>(room, slot). ra_status (rs_actor slot)) (rm_rooms m)"
    by (auto simp: handle_status_def)
  show ?thesis
    unfolding room_statuses_def eq by (simp del: mset_map)
qed

end
