(* ===== verification/Actor_Invariants.thy ===== *)
theory Actor_Invariants
  imports Room_Actor
begin

text \<open>
  What every handler of the room actor keeps, whatever the store answers: the published
  status, the exclusion of a pending append from a ready room, the identity of the pending
  append, and the agreement of stream, producer and generation. The runs of a room, with
  restarts and an environment that changes the store between commands, are an inductive
  relation, and the invariant holds on all of them by rule induction.
\<close>

section \<open>The invariant\<close>

text \<open>The stream and the producer belong to the active generation of the room.\<close>

definition generation_bound :: "hashes \<Rightarrow> 'd room_actor \<Rightarrow> bool" where
  "generation_bound h a \<longleftrightarrow>
     ra_stream a = physical (delta_stream_for_generation h (ra_room_id a) (ra_active_delta_generation a)) \<and>
     ra_producer_id a = producer_id_for_generation h (ra_boot_id a) (ra_room_id a) (ra_active_delta_generation a)"

text \<open>A pending append is the next one of the room's producer, on the room's stream.\<close>

definition pending_next :: "hashes \<Rightarrow> 'd room_actor \<Rightarrow> pending_append \<Rightarrow> bool" where
  "pending_next h a p \<longleftrightarrow> pending_ok h (ag_frame_limits (ra_config a)) p \<and>
     pa_target_stream p = ra_stream a \<and>
     pa_producer p = \<lparr>pt_id = ra_producer_id a, pt_epoch = 0, pt_sequence = ra_producer_sequence a\<rparr>"

definition room_ok :: "hashes \<Rightarrow> 'd room_actor \<Rightarrow> bool" where
  "room_ok h a \<longleftrightarrow> status_current a \<and> generation_bound h a \<and> ra_lifecycle a \<noteq> Recovering \<and>
     (ra_lifecycle a = Ready \<longrightarrow> ra_blocked a = None) \<and>
     (ra_lifecycle a = AppendAmbiguous \<longrightarrow> ra_blocked a \<noteq> None) \<and>
     (\<forall>p. ra_blocked a = Some p \<longrightarrow> pending_next h a p)"

text \<open>What a handler never changes.\<close>

definition same_room :: "'d room_actor \<Rightarrow> 'd room_actor \<Rightarrow> bool" where
  "same_room a a' \<longleftrightarrow> ra_room_id a' = ra_room_id a \<and> ra_boot_id a' = ra_boot_id a \<and> ra_config a' = ra_config a"

lemma same_room_refl [simp]: "same_room a a"
  by (simp add: same_room_def)

lemma on_storeE:
  assumes "on_store f w = (x, w')"
  obtains s where "f (wd_store w) = (x, s)" and "w' = w\<lparr>wd_store := s\<rparr>"
  using assms by (auto simp: on_store_eq)

lemma ok_or_Inl_iff: "ok_or e m = Inl f \<longleftrightarrow> m = None \<and> f = e"
  by (cases m) auto

section \<open>Every handler keeps it\<close>

lemma recovered_stream:
  assumes "recover_from_manifest h lo store room l s = (Inr (Some rv), s')"
  shows "rv_active_delta_stream rv = physical (delta_stream_for_generation h room (rv_active_delta_generation rv))"
  using assms by (auto simp: recover_from_manifest_def Let_def elim!: s_bindE s_errE split: if_splits prod.splits)

lemma load_from_store_frame:
  assumes "load_from_store h lo store (a, w) = (r, (a', w'))"
  shows "ra_room_id a' = ra_room_id a \<and> ra_boot_id a' = ra_boot_id a \<and> ra_config a' = ra_config a \<and>
    ra_stream a' = ra_stream a \<and> ra_active_delta_generation a' = ra_active_delta_generation a \<and>
    ra_producer_id a' = ra_producer_id a \<and> ra_producer_sequence a' = ra_producer_sequence a \<and>
    ra_doc a' = ra_doc a \<and> ra_history a' = ra_history a \<and> ra_peers a' = ra_peers a \<and>
    ra_blocked a' = ra_blocked a \<and> wd_sent w' = wd_sent w \<and>
    (\<exists>ob. us_read_all_observed store (ra_stream a) (wd_store w) = (ob, wd_store w')) \<and>
    (\<forall>f. r = Inl f \<longrightarrow> if_state f \<in> {Corrupt, Unavailable})"
  using assms initialization_failure_state
  by (auto simp: load_from_store_def Let_def corrupt_failure_def map_err_Inl_iff ok_or_Inl_iff
      elim!: s_bindE on_storeE split: prod.splits sum.splits)

lemma actor_start_ok:
  assumes fresh: "generation_bound h a" and none: "ra_blocked a = None"
    and start: "actor_start h lo store (a, w) = (a', w')"
  shows "room_ok h a' \<and> same_room a a' \<and> wd_sent w' = wd_sent w"
proof -
  obtain r a1 w1 where init: "initialize h lo store (a, w) = (r, (a1, w1))"
    by (metis prod.collapse)
  have i: "same_room a a1 \<and> generation_bound h a1 \<and> ra_blocked a1 = None \<and> wd_sent w1 = wd_sent w \<and>
      (\<forall>f. r = Inl f \<longrightarrow> if_state f \<in> {Corrupt, Unavailable})"
    using init fresh none initialization_failure_state
    by (auto simp: initialize_def same_room_def generation_bound_def
        elim!: s_bindE on_storeE dest!: load_from_store_frame recovered_stream
        split: prod.splits sum.splits option.splits)
  with start init show ?thesis
    by (cases r) (auto simp: actor_start_def room_ok_def same_room_def generation_bound_def)
qed

lemma prepare_update_Inr:
  assumes "prepare_update h lo c b us a = Inr (d, q, p)"
  shows "map_of (ra_peers a) c \<noteq> None \<and> ra_lifecycle a = Ready \<and> ra_blocked a = None \<and>
    validate_update_blobs lo us (ra_history a = []) = Inr () \<and>
    (\<exists>pending. build_candidate lo (ra_doc a) (ra_history a) us = Inr \<lparr>rp_doc = d, rp_has_pending = pending\<rparr>) \<and>
    u64_checked_add (ra_producer_sequence a) 1 = Some q \<and>
    fr_batch_id (pa_frame p) = b \<and> fr_updates (pa_frame p) = us \<and>
    frame_encode_with_limits h (ag_frame_limits (ra_config a)) (pa_frame p) = Inr (pa_bytes p) \<and>
    (generation_bound h a \<longrightarrow> pending_next h a p)"
  using assms
  by (auto simp: prepare_update_def Let_def delta_frame_new_def pending_next_def pending_ok_def
      generation_bound_def frame_wf_def map_err_Inl_iff elim!: r_bind_InrE split: if_splits)
    (metis replay_outcome.surjective old.unit.exhaust)

lemma actor_update_ok:
  assumes ok: "room_ok h a" and run: "actor_update h lo store c b us peer (a, w) = (a', w')"
  shows "room_ok h a' \<and> same_room a a'"
proof (cases "prepare_update h lo c b us a")
  case (Inl st)
  with ok run show ?thesis by (auto simp: actor_update_def)
next
  case (Inr x)
  obtain d q p where x: "x = (d, q, p)" by (cases x)
  note prep = prepare_update_Inr [OF Inr [unfolded x]]
  have nxt: "pending_next h a p" and gb: "generation_bound h a"
    using prep ok by (auto simp: room_ok_def)
  obtain r w1 where res: "on_store (resolve_append h store (ra_config a) p) w = (r, w1)" by fastforce
  show ?thesis
  proof (cases r)
    case (Inr y)
    with run res \<open>prepare_update h lo c b us a = Inr x\<close> x gb prep show ?thesis
      by (auto simp: actor_update_def Let_def room_ok_def same_room_def generation_bound_def)
  next
    case (Inl f)
    with run res \<open>prepare_update h lo c b us a = Inr x\<close> x gb prep nxt ok show ?thesis
      by (cases f) (auto simp: actor_update_def Let_def room_ok_def same_room_def generation_bound_def
          pending_next_def)
  qed
qed

lemma rotate_generation_ok:
  assumes ok: "room_ok h a" and run: "rotate_generation h lo store (a, w) = (r, (a', w'))"
  shows "room_ok h a' \<and> same_room a a' \<and> wd_sent w' = wd_sent w"
proof -
  have rotated: "rt_next_delta_stream x =
      physical (delta_stream_for_generation h (ra_room_id a) (rt_next_delta_generation x))"
    if "rotate_room h lo store (ra_room_id a) g off doc hist m s = (Inr x, s')" for g off doc hist m s x s'
    using that by (rule rotate_success) simp
  show ?thesis
    using ok run
    by (auto simp: rotate_generation_def room_ok_def same_room_def generation_bound_def rotated
        elim!: on_storeE split: if_splits sum.splits prod.splits)
qed

lemma retry_pending_ok:
  assumes ok: "room_ok h a" and run: "retry_pending h lo store (a, w) = (r, (a', w'))"
  shows "room_ok h a' \<and> same_room a a' \<and> wd_sent w' = wd_sent w"
proof (cases "ra_blocked a")
  case None
  with ok run show ?thesis by (auto simp: retry_pending_def)
next
  case (Some p)
  with ok have p: "pending_next h a p" "generation_bound h a"
    by (auto simp: room_ok_def)
  let ?a = "publish_status (a\<lparr>ra_blocked := None\<rparr>)"
  obtain x w1 where res: "on_store (resolve_append h store (ra_config a) p) w = (x, w1)" by fastforce
  then have w1: "wd_sent w1 = wd_sent w"
    by (auto elim!: on_storeE)
  show ?thesis
  proof (cases x)
    case (Inl f)
    with run res Some p w1 show ?thesis
      by (cases f) (auto simp: retry_pending_def Let_def room_ok_def same_room_def generation_bound_def
          pending_next_def)
  next
    case (Inr y)
    obtain l a2 w2 where load: "load_from_store h lo store (?a, w1) = (l, (a2, w2))"
      by (metis prod.collapse)
    note frame = load_from_store_frame [OF load]
    show ?thesis
      using run res Some p w1 Inr load frame
      by (auto simp: retry_pending_def Let_def room_ok_def same_room_def generation_bound_def
          pending_next_def split: sum.splits option.splits prod.splits)
  qed
qed

lemma actor_join_ok:
  assumes ok: "room_ok h a" and run: "actor_join lo c v peer (a, w) = (a', w')"
  shows "room_ok h a' \<and> same_room a a'"
  using run ok
  by (auto simp: actor_join_def Let_def room_ok_def same_room_def generation_bound_def pending_next_def
      split: if_splits sum.splits)

lemma reject_unavailable_same: "fst (snd (reject_unavailable cmd (a, w))) = a"
  by (cases cmd) (simp_all add: reject_unavailable_def Let_def)

lemma actor_handle_ok:
  assumes ok: "room_ok h a" and run: "actor_handle h lo store cmd (a, w) = (r, (a', w'))"
  shows "room_ok h a' \<and> same_room a a'"
proof (cases cmd)
  case (Join c v peer)
  with assms actor_join_ok [OF ok, of lo c v peer w] reject_unavailable_same [of cmd a w] show ?thesis
    by (auto simp: actor_handle_def split: if_splits)
next
  case (Update c b us peer)
  with assms actor_update_ok [OF ok, of lo store c b us peer w] reject_unavailable_same [of cmd a w] show ?thesis
    by (auto simp: actor_handle_def split: if_splits)
next
  case (Leave c)
  with assms reject_unavailable_same [of cmd a w] show ?thesis
    by (auto simp: actor_handle_def room_ok_def same_room_def generation_bound_def pending_next_def
        split: if_splits)
next
  case RetryAmbiguous
  with assms retry_pending_ok [OF ok, of lo store w] show ?thesis
    by (auto simp: actor_handle_def split: prod.splits)
next
  case Rotate
  with assms rotate_generation_ok [OF ok, of lo store w] show ?thesis
    by (auto simp: actor_handle_def split: prod.splits)
qed (use assms in \<open>auto simp: actor_handle_def\<close>)

section \<open>Runs of a room\<close>

text \<open>
  The runs of a room \<open>room_id\<close>: an actor is started on a store state that meets \<open>init\<close>, it
  handles commands, between commands the rest of the world changes the store as \<open>env\<close> allows
  (other rooms, other gateways, an operation whose answer was lost) and draws server batch
  identifiers, and at any time the process may be lost and the room started again under a new
  boot identity. The list holds the commands handled so far, \<open>wd_sent\<close> what was sent.
\<close>

inductive room_run ::
  "hashes \<Rightarrow> ('d, 'v, 'x) loro \<Rightarrow> 's ursula_store \<Rightarrow> string \<Rightarrow> actor_config \<Rightarrow> ('s \<Rightarrow> bool) \<Rightarrow>
   ('s \<Rightarrow> 's \<Rightarrow> bool) \<Rightarrow> command list \<Rightarrow> 'd room_actor \<times> 's world \<Rightarrow> bool"
  for h lo store room_id config init env where
  start: "init (wd_store w) \<Longrightarrow> wd_sent w = [] \<Longrightarrow>
     room_run h lo store room_id config init env []
       (actor_start h lo store (room_actor_new h lo room_id boot_id config, w))"
| handle: "room_run h lo store room_id config init env cmds aw \<Longrightarrow>
     room_run h lo store room_id config init env (cmds @ [cmd]) (snd (actor_handle h lo store cmd aw))"
| environment: "room_run h lo store room_id config init env cmds (a, w) \<Longrightarrow> env (wd_store w) s \<Longrightarrow>
     room_run h lo store room_id config init env cmds (a, w\<lparr>wd_store := s, wd_next_batch := n\<rparr>)"
| restart: "room_run h lo store room_id config init env cmds (a, w) \<Longrightarrow>
     room_run h lo store room_id config init env cmds
       (actor_start h lo store (room_actor_new h lo room_id boot_id config, w))"

lemma room_actor_new_ok:
  "generation_bound h (room_actor_new h lo room boot config) \<and>
   ra_blocked (room_actor_new h lo room boot config) = None \<and>
   ra_room_id (room_actor_new h lo room boot config) = room \<and>
   ra_config (room_actor_new h lo room boot config) = config"
  by (simp add: room_actor_new_def Let_def generation_bound_def delta_stream_def producer_id_def)

lemma started_ok:
  assumes "actor_start h lo store (room_actor_new h lo room boot config, w) = (a', w')"
  shows "room_ok h a' \<and> ra_room_id a' = room \<and> ra_config a' = config \<and> wd_sent w' = wd_sent w"
  using actor_start_ok [OF _ _ assms] room_actor_new_ok [of h lo room boot config]
  by (simp add: same_room_def)

lemma room_run_ok:
  "room_run h lo store room config init env cmds aw \<Longrightarrow>
     room_ok h (fst aw) \<and> ra_room_id (fst aw) = room \<and> ra_config (fst aw) = config"
proof (induction rule: room_run.induct)
  case (start w boot)
  then show ?case
    using started_ok [of h lo store room boot config w] by (metis prod.collapse)
next
  case (handle cmds aw cmd)
  obtain a w where aw: "aw = (a, w)" by (cases aw)
  obtain r a' w' where "actor_handle h lo store cmd (a, w) = (r, (a', w'))" by (metis prod.collapse)
  with handle.IH actor_handle_ok [OF _ this] show ?case
    by (simp add: aw same_room_def)
next
  case (restart cmds a w boot)
  then show ?case
    using started_ok [of h lo store room boot config w] by (metis prod.collapse)
qed simp

end
