(* ===== verification/Actor_Durability.thy ===== *)
theory Actor_Durability
  imports Actor_Invariants
begin

text \<open>
  Acknowledged updates are durable. On an append-only store, in every run of a room with
  lost answers, other writers, rotations and restarts, an update that was acknowledged as
  accepted has its frame, with exactly its updates and its batch, in a delta stream of the
  room, and stays there.
\<close>

section \<open>Acknowledgements\<close>

text \<open>The peers and batches that were acknowledged as accepted.\<close>

definition ok_acks :: "(peer \<times> outbound) list \<Rightarrow> (peer \<times> u64) set" where
  "ok_acks sent = {(p, b). \<exists>c room. (p, Protocol (Ack c room b Ok)) \<in> set sent}"

lemma ok_acks_simps [simp]:
  "ok_acks [] = {}"
  "ok_acks (xs @ ys) = ok_acks xs \<union> ok_acks ys"
  "ok_acks ((p, Protocol (Ack c r b Ok)) # xs) = insert (p, b) (ok_acks xs)"
  "st \<noteq> Ok \<Longrightarrow> ok_acks ((p, Protocol (Ack c r b st)) # xs) = ok_acks xs"
  "ok_acks ((p, Protocol (RoomError c r code e)) # xs) = ok_acks xs"
  "ok_acks ((p, Protocol (JoinError c r jc e rv app)) # xs) = ok_acks xs"
  "ok_acks ((p, Protocol (JoinResponseOk c r pm v ex)) # xs) = ok_acks xs"
  "ok_acks (map (\<lambda>m. (p, Protocol m)) (update_messages r u n)) = {}"
  by (auto simp: ok_acks_def)

lemma forward_updates_world:
  "wd_store (forward_updates c r us peers w) = wd_store w \<and>
   ok_acks (wd_sent (forward_updates c r us peers w)) = ok_acks (wd_sent w)"
proof -
  have one: "wd_store (fold (\<lambda>u. send_update p r u) us w) = wd_store w \<and>
      ok_acks (wd_sent (fold (\<lambda>u. send_update p r u) us w)) = ok_acks (wd_sent w)" for p us and w :: "'a world"
    by (induction us arbitrary: w) auto
  show ?thesis
    unfolding forward_updates_def
    by (induction peers arbitrary: w) (auto simp: one split: prod.splits)
qed

lemma rejection_status_not_ok [simp]: "rejection_status k \<noteq> Ok"
  by (cases k) auto

lemma prepare_update_not_ok: "prepare_update h lo c b us a = Inl st \<Longrightarrow> st \<noteq> Ok"
  by (auto simp: prepare_update_def Let_def r_bind_Inl_iff map_err_Inl_iff ok_or_Inl_iff split: if_splits)

section \<open>Durable updates\<close>

text \<open>The updates of a batch are stored as one frame in a delta stream of the room.\<close>

definition durable_update ::
  "hashes \<Rightarrow> frame_limits \<Rightarrow> string \<Rightarrow> (string \<Rightarrow> bytes) \<Rightarrow> u64 \<Rightarrow> bytes list \<Rightarrow> bool" where
  "durable_update h limits room held b us \<longleftrightarrow>
     (\<exists>f bs g k. frame_encode_with_limits h limits f = Inr bs \<and> fr_batch_id f = b \<and> fr_updates f = us \<and>
        stored_at (held (physical (delta_stream_for_generation h room g))) k bs)"

lemma durable_update_grows:
  assumes "durable_update h limits room (content s) b us" and g: "grows content valid s t"
  shows "durable_update h limits room (content t) b us"
proof -
  have "stored_at (content t n) k bs" if "stored_at (content s n) k bs" for n k bs
    using that grows_prefix [OF g] by (rule stored_at_prefix)
  with assms(1) show ?thesis
    unfolding durable_update_def by blast
qed

definition acks_durable ::
  "hashes \<Rightarrow> frame_limits \<Rightarrow> string \<Rightarrow> command list \<Rightarrow> (peer \<times> u64) set \<Rightarrow> (string \<Rightarrow> bytes) \<Rightarrow> bool" where
  "acks_durable h limits room cmds acks held \<longleftrightarrow>
     (\<forall>peer b. (peer, b) \<in> acks \<longrightarrow>
       (\<exists>c us. Update c b us peer \<in> set cmds \<and> durable_update h limits room held b us))"

lemma acks_durable_grows:
  assumes "acks_durable h limits room cmds acks (content s)" and "grows content valid s t"
  shows "acks_durable h limits room (cmds @ later) acks (content t)"
  using assms(1) durable_update_grows [OF _ assms(2)] unfolding acks_durable_def
  by (metis Un_iff set_append)

lemma acks_durable_insert:
  assumes "acks_durable h limits room cmds acks held" and "Update c b us peer \<in> set cmds"
    and "durable_update h limits room held b us"
  shows "acks_durable h limits room cmds (insert (peer, b) acks) held"
  using assms unfolding acks_durable_def by blast

context append_only_store
begin

lemma actor_update_durable:
  assumes ok: "room_ok h a" and v: "valid (wd_store w)"
    and run: "actor_update h lo store c b us peer (a, w) = (a', w')"
  shows "grows content valid (wd_store w) (wd_store w') \<and>
    (ok_acks (wd_sent w') = ok_acks (wd_sent w) \<or>
     ok_acks (wd_sent w') = insert (peer, b) (ok_acks (wd_sent w)) \<and>
     durable_update h (ag_frame_limits (ra_config a)) (ra_room_id a) (content (wd_store w')) b us)"
proof (cases "prepare_update h lo c b us a")
  case (Inl st)
  with run v prepare_update_not_ok [OF Inl] show ?thesis
    by (auto simp: actor_update_def grows_refl)
next
  case (Inr x)
  obtain d q p where x: "x = (d, q, p)" by (cases x)
  note prep = prepare_update_Inr [OF Inr [unfolded x]]
  have gb: "generation_bound h a" and pn: "pending_next h a p"
    using prep ok by (auto simp: room_ok_def)
  obtain r s1 where res: "resolve_append h store (ra_config a) p (wd_store w) = (r, s1)" by fastforce
  have ps: "pending_ok h (ag_frame_limits (ra_config a)) p"
    using pn by (simp add: pending_next_def)
  note run1 = resolve_run [OF ps v res]
  show ?thesis
  proof (cases r)
    case (Inl f)
    with run res \<open>prepare_update h lo c b us a = Inr x\<close> x run1 show ?thesis
      by (cases f) (auto simp: actor_update_def Let_def on_store_def)
  next
    case (Inr y)
    have "stored_at (content s1 (physical (delta_stream_for_generation h (ra_room_id a)
        (ra_active_delta_generation a)))) (next_offset y) (pa_bytes p)"
      using run1 Inr pn gb by (auto simp: pending_next_def generation_bound_def)
    then have "durable_update h (ag_frame_limits (ra_config a)) (ra_room_id a) (content s1) b us"
      using prep unfolding durable_update_def by blast
    with run res \<open>prepare_update h lo c b us a = Inr x\<close> x run1 Inr show ?thesis
      by (auto simp: actor_update_def Let_def on_store_def forward_updates_world)
  qed
qed

lemma load_from_store_grows:
  assumes "valid (wd_store w)" and "load_from_store h lo store (a, w) = (r, (a', w'))"
  shows "grows content valid (wd_store w) (wd_store w')"
  using load_from_store_frame [OF assms(2)] read_all_observed_grows [OF assms(1)] by blast

lemma actor_start_grows:
  assumes v: "valid (wd_store w)" and run: "actor_start h lo store (a, w) = (a', w')"
  shows "grows content valid (wd_store w) (wd_store w')"
proof -
  obtain r a1 w1 where init: "initialize h lo store (a, w) = (r, (a1, w1))"
    by (metis prod.collapse)
  obtain rr s1 where rec: "recover_from_manifest h lo store (ra_room_id a) (ag_frame_limits (ra_config a))
      (wd_store w) = (rr, s1)" by fastforce
  have g1: "grows content valid (wd_store w) s1"
    using recover_step [OF grows_start [OF v], of h lo "ra_room_id a" "ag_frame_limits (ra_config a)"]
    by (simp add: rec)
  obtain re s2 where ens: "us_ensure_stream store (ra_stream a) s1 = (re, s2)" by fastforce
  have g2: "grows content valid (wd_store w) s2"
    using ensure_step [OF g1, of "ra_stream a"] by (simp add: ens)
  obtain rl a3 w3 where load: "load_from_store h lo store (a, w\<lparr>wd_store := s2\<rparr>) = (rl, (a3, w3))"
    by (metis prod.collapse)
  have g3: "grows content valid (wd_store w) (wd_store w3)"
    using load_from_store_grows [OF _ load] g2 by (auto intro: grows_trans dest: grows_inv)
  have "wd_store w1 = s1 \<or> wd_store w1 = s2 \<or> wd_store w1 = wd_store w3"
    using init rec ens load
    by (auto simp: initialize_def on_store_def elim!: s_bindE split: sum.splits option.splits prod.splits)
  with g1 g2 g3 have "grows content valid (wd_store w) (wd_store w1)" by auto
  with run init show ?thesis
    by (auto simp: actor_start_def split: sum.splits)
qed

lemma retry_pending_grows:
  assumes ok: "room_ok h a" and v: "valid (wd_store w)"
    and run: "retry_pending h lo store (a, w) = (r, (a', w'))"
  shows "grows content valid (wd_store w) (wd_store w')"
proof (cases "ra_blocked a")
  case None
  with run v show ?thesis by (auto simp: retry_pending_def grows_refl)
next
  case (Some p)
  let ?a = "publish_status (a\<lparr>ra_blocked := None\<rparr>)"
  have ps: "pending_ok h (ag_frame_limits (ra_config a)) p"
    using ok Some by (simp add: room_ok_def pending_next_def)
  obtain x s1 where res: "resolve_append h store (ra_config a) p (wd_store w) = (x, s1)" by fastforce
  have g1: "grows content valid (wd_store w) s1"
    using resolve_run [OF ps v res] by simp
  obtain l a2 w2 where load: "load_from_store h lo store (?a, w\<lparr>wd_store := s1\<rparr>) = (l, (a2, w2))"
    by (metis prod.collapse)
  have g2: "grows content valid (wd_store w) (wd_store w2)"
    using load_from_store_grows [OF _ load] g1 by (auto intro: grows_trans dest: grows_inv)
  have "wd_store w' = s1 \<or> wd_store w' = wd_store w2"
    using run Some res load
    by (auto simp: retry_pending_def on_store_def Let_def
        split: sum.splits option.splits prod.splits append_failure.splits)
  with g1 g2 show ?thesis by auto
qed

lemma rotate_generation_grows:
  assumes v: "valid (wd_store w)" and run: "rotate_generation h lo store (a, w) = (r, (a', w'))"
  shows "grows content valid (wd_store w) (wd_store w')"
proof -
  obtain x s1 where rot: "rotate_room h lo store (ra_room_id a) (ra_active_delta_generation a)
      (ra_active_delta_end_offset a) (ra_doc a) (ra_history a) (ag_ambiguous_retries (ra_config a))
      (wd_store w) = (x, s1)" by fastforce
  have "grows content valid (wd_store w) s1"
    using rotate_run [OF v rot] by simp
  with run rot v show ?thesis
    by (auto simp: rotate_generation_def on_store_def grows_refl split: if_splits sum.splits)
qed

lemma actor_join_world:
  assumes "actor_join lo c v peer (a, w) = (a', w')"
  shows "wd_store w' = wd_store w \<and> ok_acks (wd_sent w') = ok_acks (wd_sent w)"
  using assms by (auto simp: actor_join_def Let_def split: if_splits sum.splits)

lemma reject_unavailable_world:
  "wd_store (snd (snd (reject_unavailable cmd (a, w)))) = wd_store w \<and>
   ok_acks (wd_sent (snd (snd (reject_unavailable cmd (a, w))))) = ok_acks (wd_sent w)"
  by (cases cmd) (simp_all add: reject_unavailable_def Let_def)

text \<open>One command: the store grows, and a new acknowledgement is the one of a durable update.\<close>

lemma actor_handle_durable:
  assumes ok: "room_ok h a" and v: "valid (wd_store w)"
    and run: "actor_handle h lo store cmd (a, w) = (r, (a', w'))"
  shows "grows content valid (wd_store w) (wd_store w') \<and>
    (ok_acks (wd_sent w') = ok_acks (wd_sent w) \<or>
     (\<exists>c b us peer. cmd = Update c b us peer \<and>
       ok_acks (wd_sent w') = insert (peer, b) (ok_acks (wd_sent w)) \<and>
       durable_update h (ag_frame_limits (ra_config a)) (ra_room_id a) (content (wd_store w')) b us))"
proof (cases cmd)
  case (Join c vs peer)
  with assms actor_join_world [of lo c vs peer a w] reject_unavailable_world [of cmd a w] show ?thesis
    by (auto simp: actor_handle_def grows_refl split: if_splits)
next
  case (Update c b us peer)
  with assms actor_update_durable [OF ok v, of lo c b us peer] reject_unavailable_world [of cmd a w] show ?thesis
    by (auto simp: actor_handle_def grows_refl split: if_splits)
next
  case (Leave c)
  with assms reject_unavailable_world [of cmd a w] show ?thesis
    by (auto simp: actor_handle_def grows_refl split: if_splits)
next
  case RetryAmbiguous
  with run obtain b where "retry_pending h lo store (a, w) = (b, (a', w'))"
    by (auto simp: actor_handle_def split: prod.splits)
  with retry_pending_grows [OF ok v this] retry_pending_ok [OF ok this] show ?thesis by simp
next
  case Rotate
  with run obtain b where "rotate_generation h lo store (a, w) = (b, (a', w'))"
    by (auto simp: actor_handle_def split: prod.splits)
  with rotate_generation_grows [OF v this] rotate_generation_ok [OF ok this] show ?thesis by simp
qed (use assms in \<open>auto simp: actor_handle_def grows_refl\<close>)

lemma room_run_durable:
  assumes "room_run h lo store room config valid (grows content valid) cmds aw"
  shows "valid (wd_store (snd aw)) \<and> acks_durable h (ag_frame_limits config) room cmds
    (ok_acks (wd_sent (snd aw))) (content (wd_store (snd aw)))"
  using assms
proof (induction rule: room_run.induct)
  case (start w boot)
  obtain a' w' where st: "actor_start h lo store (room_actor_new h lo room boot config, w) = (a', w')"
    by fastforce
  show ?case
    using actor_start_grows [OF start(1) st] started_ok [OF st] start
    by (simp add: st grows_def acks_durable_def)
next
  case (handle cmds aw cmd)
  obtain a w where aw: "aw = (a, w)" by (cases aw)
  obtain r a' w' where run: "actor_handle h lo store cmd (a, w) = (r, (a', w'))" by (metis prod.collapse)
  have ok: "room_ok h a" "ra_room_id a = room" "ra_config a = config" and v: "valid (wd_store w)"
    using room_run_ok [OF handle.hyps] handle.IH by (auto simp: aw)
  from actor_handle_durable [OF ok(1) v run] have g: "grows content valid (wd_store w) (wd_store w')"
    and d: "ok_acks (wd_sent w') = ok_acks (wd_sent w) \<or>
      (\<exists>c b us peer. cmd = Update c b us peer \<and>
        ok_acks (wd_sent w') = insert (peer, b) (ok_acks (wd_sent w)) \<and>
        durable_update h (ag_frame_limits config) room (content (wd_store w')) b us)"
    by (simp_all add: ok)
  have old: "acks_durable h (ag_frame_limits config) room (cmds @ [cmd]) (ok_acks (wd_sent w))
      (content (wd_store w'))"
    using acks_durable_grows [OF _ g] handle.IH by (simp add: aw)
  from d have "acks_durable h (ag_frame_limits config) room (cmds @ [cmd]) (ok_acks (wd_sent w'))
      (content (wd_store w'))"
  proof (elim disjE exE conjE)
    fix c b us peer
    assume "cmd = Update c b us peer" and acks: "ok_acks (wd_sent w') = insert (peer, b) (ok_acks (wd_sent w))"
      and "durable_update h (ag_frame_limits config) room (content (wd_store w')) b us"
    with old show ?thesis
      unfolding acks by (intro acks_durable_insert [of _ _ _ _ _ _ c b us]) simp_all
  qed (use old in simp)
  with grows_inv [OF g] show ?case by (simp add: aw run)
next
  case (environment cmds a w s n)
  with acks_durable_grows [of h "ag_frame_limits config" room cmds "ok_acks (wd_sent w)" content "wd_store w" valid s "[]"]
    grows_inv [OF environment.hyps(2)] show ?case by simp
next
  case (restart cmds a w boot)
  obtain a' w' where st: "actor_start h lo store (room_actor_new h lo room boot config, w) = (a', w')"
    by fastforce
  have g: "grows content valid (wd_store w) (wd_store w')"
    using actor_start_grows [OF _ st] restart.IH by simp
  from restart.IH acks_durable_grows [OF _ g, of h "ag_frame_limits config" room cmds _ "[]"]
    started_ok [OF st] grows_inv [OF g] show ?case by (simp add: st)
qed

end

end
