(* ===== verification/Actor_Properties.thy ===== *)
theory Actor_Properties
  imports Actor_Durability
begin

text \<open>
  The properties of the room actor, and a run of a room on the in-memory store for their
  witnesses: a room is activated, a peer joins it and sends one update.
\<close>

section \<open>A room on the in-memory store\<close>

definition sample_world :: "behavior list \<Rightarrow> memory_state world" where
  "sample_world bs = \<lparr>wd_store = memory_new\<lparr>ms_behaviors := bs\<rparr>, wd_next_batch = 1, wd_sent = []\<rparr>"

definition sample_new :: "bytes room_actor" where
  "sample_new = room_actor_new sample_hashes toy_loro ''room-a'' 0 default_actor_config"

definition sample_started :: "behavior list \<Rightarrow> bytes room_actor \<times> memory_state world" where
  "sample_started bs = actor_start sample_hashes toy_loro memory_store (sample_new, sample_world bs)"

abbreviation sample_delta :: string where
  "sample_delta \<equiv> physical (delta_stream_for_generation sample_hashes ''room-a'' gen_zero)"

lemma sample_started_eq:
  "\<exists>a s. sample_started bs = (a, (sample_world bs)\<lparr>wd_store := s\<rparr>) \<and>
    ra_room_id a = ''room-a'' \<and> ra_lifecycle a = Ready \<and> ra_blocked a = None \<and> ra_doc a = [] \<and>
    ra_history a = [] \<and> ra_peers a = [] \<and> ra_producer_sequence a = 0 \<and> ra_stream a = sample_delta \<and>
    ra_producer_id a = producer_id_for_generation sample_hashes 0 ''room-a'' gen_zero \<and>
    ra_config a = default_actor_config \<and>
    stream_bytes s = (\<lambda>_. []) \<and> ms_behaviors s = bs \<and> ms_producers s = Map.empty \<and>
    ms_attempts s = [] \<and> \<not> ms_unavailable s"
  by (auto simp: sample_started_def actor_start_def initialize_def sample_new_def sample_world_def
      room_actor_new_def Let_def delta_stream_def producer_id_def on_store_def memory_recover memory_new_def
      recovery_of_def memory_ensure_stream_def stream_bytes_def set_stream_bytes_def
      load_from_store_def default_read_all_observed_def memory_read_all_def frame_decode_empty
      replay_def import_outcome_def fun_eq_iff u64_of_usize_def)

definition sample_room_pending :: pending_append where
  "sample_room_pending =
     (let producer = \<lparr>pt_id = producer_id_for_generation sample_hashes 0 ''room-a'' gen_zero,
            pt_epoch = 0, pt_sequence = 0\<rparr>;
          frame = delta_frame_new sample_hashes producer 5 [[2, 9]]
      in \<lparr>pa_target_stream = sample_delta, pa_producer = producer, pa_frame = frame,
          pa_bytes = frame_bytes sample_hashes frame\<rparr>)"

definition sample_updated_by :: "u64 \<Rightarrow> peer \<Rightarrow> behavior list \<Rightarrow> bytes room_actor \<times> memory_state world" where
  "sample_updated_by c p bs = snd (actor_handle sample_hashes toy_loro memory_store (Update c 5 [[2, 9]] p)
     (snd (actor_handle sample_hashes toy_loro memory_store (Join c [] p) (sample_started bs))))"

abbreviation sample_updated :: "behavior list \<Rightarrow> bytes room_actor \<times> memory_state world" where
  "sample_updated \<equiv> sample_updated_by 1 7"

lemma sample_room_encode:
  "frame_encode_with_limits sample_hashes default_frame_limits (delta_frame_new sample_hashes
      \<lparr>pt_id = producer_id_for_generation sample_hashes 0 ''room-a'' gen_zero, pt_epoch = 0, pt_sequence = 0\<rparr>
      5 [[2, 9]]) =
   Inr (frame_bytes sample_hashes (delta_frame_new sample_hashes
      \<lparr>pt_id = producer_id_for_generation sample_hashes 0 ''room-a'' gen_zero, pt_epoch = 0, pt_sequence = 0\<rparr>
      5 [[2, 9]]))"
  by (simp add: frame_encode_Inr_iff frame_fits_def delta_frame_new_def frame_total_def frame_fixed_prefix_def
      frame_fixed_suffix_def default_frame_limits_def usize_limit_def flip: length_greater_0_conv)

lemma sample_joined:
  "\<exists>a s w. snd (actor_handle sample_hashes toy_loro memory_store (Join c [] p) (sample_started bs)) = (a, w) \<and>
    prepare_update sample_hashes toy_loro c 5 [[2, 9]] a = Inr ([9], 1, sample_room_pending) \<and>
    ra_lifecycle a = Ready \<and> ra_blocked a = None \<and> ra_room_id a = ''room-a'' \<and> ra_doc a = [] \<and>
    ra_history a = [] \<and> ra_peers a = [(c, p)] \<and> ra_producer_sequence a = 0 \<and>
    ra_config a = default_actor_config \<and> wd_store w = s \<and>
    stream_bytes s = (\<lambda>_. []) \<and> ms_behaviors s = bs \<and> ms_producers s = Map.empty \<and>
    ms_attempts s = [] \<and> \<not> ms_unavailable s"
proof -
  obtain a s where st: "sample_started bs = (a, (sample_world bs)\<lparr>wd_store := s\<rparr>)"
    and f: "ra_room_id a = ''room-a''" "ra_lifecycle a = Ready" "ra_blocked a = None" "ra_doc a = []"
      "ra_history a = []" "ra_peers a = []" "ra_producer_sequence a = 0" "ra_stream a = sample_delta"
      "ra_producer_id a = producer_id_for_generation sample_hashes 0 ''room-a'' gen_zero"
      "ra_config a = default_actor_config"
    and s: "stream_bytes s = (\<lambda>_. [])" "ms_behaviors s = bs" "ms_producers s = Map.empty"
      "ms_attempts s = []" "\<not> ms_unavailable s"
    using sample_started_eq [of bs] by blast
  show ?thesis
    by (simp add: actor_handle_def st f s actor_join_def Let_def prepare_update_def validate_update_blobs_def
        build_candidate_def import_outcome_def toy_add_def u64_checked_add_def sample_room_pending_def
        sample_room_encode default_actor_config_def)
qed

lemma sample_room_pending_sel [simp]:
  "pa_target_stream sample_room_pending = sample_delta"
  "pt_id (pa_producer sample_room_pending) = producer_id_for_generation sample_hashes 0 ''room-a'' gen_zero"
  "pt_sequence (pa_producer sample_room_pending) = 0"
  "length (pa_bytes sample_room_pending) < 1000"
  by (simp_all add: sample_room_pending_def Let_def delta_frame_new_def frame_total_def frame_fixed_prefix_def
      frame_fixed_suffix_def)

lemma sample_updated_commit:
  "\<exists>a w. sample_updated_by c p [] = (a, w) \<and> (p, Protocol (Ack CrdtLoro ''room-a'' 5 Ok)) \<in> set (wd_sent w)"
proof -
  obtain a s w where j: "snd (actor_handle sample_hashes toy_loro memory_store (Join c [] p) (sample_started [])) = (a, w)"
    "prepare_update sample_hashes toy_loro c 5 [[2, 9]] a = Inr ([9], 1, sample_room_pending)"
    "ra_lifecycle a = Ready" "ra_config a = default_actor_config" "ra_room_id a = ''room-a''" "wd_store w = s"
    and s: "stream_bytes s = (\<lambda>_. [])" "ms_behaviors s = []" "ms_producers s = Map.empty"
    using sample_joined [of c p "[]"] by blast
  have run: "sample_updated_by c p [] = snd (actor_handle sample_hashes toy_loro memory_store (Update c 5 [[2, 9]] p) (a, w))"
    by (simp only: sample_updated_by_def j(1))
  have len: "length (pa_bytes sample_room_pending) < 18446744073709551616"
    using sample_room_pending_sel(4) by linarith
  obtain k t where "resolve_append sample_hashes memory_store default_actor_config sample_room_pending s =
      (Inr (Committed k), t)"
    by (auto simp: resolve_append_def resolve_append_loop.simps memory_append_def memory_admit_def s pop_behavior_def
        memory_commit_def u64_of_usize_def Let_def len)
  then show ?thesis
    by (simp add: run actor_handle_def actor_update_def j on_store_def Let_def)
qed

lemma sample_updated_blocked:
  "\<exists>a w. sample_updated (replicate 6 AmbiguousOutcome) = (a, w) \<and> ra_blocked a = Some sample_room_pending \<and>
     ra_lifecycle a = AppendAmbiguous"
proof -
  let ?bs = "replicate 6 AmbiguousOutcome"
  obtain a s w where j: "snd (actor_handle sample_hashes toy_loro memory_store (Join 1 [] 7) (sample_started ?bs)) = (a, w)"
    "prepare_update sample_hashes toy_loro 1 5 [[2, 9]] a = Inr ([9], 1, sample_room_pending)"
    "ra_lifecycle a = Ready" "ra_config a = default_actor_config" "wd_store w = s"
    and s: "ms_behaviors s = ?bs" "ms_producers s = Map.empty"
    using sample_joined [of 1 7 ?bs] by blast
  have run: "sample_updated ?bs = snd (actor_handle sample_hashes toy_loro memory_store (Update 1 5 [[2, 9]] 7) (a, w))"
    by (simp only: sample_updated_by_def j(1))
  have "\<exists>m t. resolve_append sample_hashes memory_store default_actor_config sample_room_pending s =
      (Inl (OutcomeUnknown (Ambiguous m)), t)"
    by (simp add: resolve_append_def resolve_append_loop.simps memory_append_def memory_admit_def s pop_behavior_def
        default_actor_config_def Let_def numeral_eq_Suc)
  then show ?thesis
    by (auto simp: run actor_handle_def actor_update_def j on_store_def Let_def)
qed

text \<open>The sample room's runs.\<close>

lemma sample_run:
  "init (memory_new\<lparr>ms_behaviors := bs\<rparr>) \<Longrightarrow>
   room_run sample_hashes toy_loro memory_store ''room-a'' default_actor_config init env
     [Join 1 [] 7, Update 1 5 [[2, 9]] 7] (sample_updated bs)"
proof -
  assume "init (memory_new\<lparr>ms_behaviors := bs\<rparr>)"
  then have "room_run sample_hashes toy_loro memory_store ''room-a'' default_actor_config init env [] (sample_started bs)"
    unfolding sample_started_def sample_new_def by (intro room_run.start) (simp_all add: sample_world_def)
  from room_run.handle [OF room_run.handle [OF this]] show ?thesis
    by (simp add: sample_updated_by_def)
qed

lemma sample_run_any:
  "room_run sample_hashes toy_loro memory_store ''room-a'' default_actor_config (\<lambda>_. True) (\<lambda>_ _. True)
     [Join 1 [] 7, Update 1 5 [[2, 9]] 7] (fst (sample_updated bs), snd (sample_updated bs))"
  using sample_run [where init = "\<lambda>_. True"] by simp

section \<open>Properties\<close>

text \<open>
  C1. An acknowledged update is durable. Take any run of a room on a store that meets the
  append-only contract: activations and commands of any peers in any order, lost answers,
  retries, rotations, other writers on the same streams, and restarts of the process. If the
  room has acknowledged a batch to a peer as accepted, then the peer had submitted that batch
  and the frame with exactly its updates is stored, byte for byte, in a delta stream of the
  room.
\<close>

theorem acknowledged_update_durable:
  assumes "append_only_store store content valid"
    and "room_run h lo store room config valid (grows content valid) cmds (a, w)"
    and "(peer, Protocol (Ack c r b Ok)) \<in> set (wd_sent w)"
  shows "\<exists>conn us f bs g k. Update conn b us peer \<in> set cmds \<and>
    frame_encode_with_limits h (ag_frame_limits config) f = Inr bs \<and> fr_batch_id f = b \<and> fr_updates f = us \<and>
    stored_at (content (wd_store w) (physical (delta_stream_for_generation h room g))) k bs"
proof -
  have "(peer, b) \<in> ok_acks (wd_sent w)"
    using assms(3) by (auto simp: ok_acks_def)
  moreover have "acks_durable h (ag_frame_limits config) room cmds (ok_acks (wd_sent w)) (content (wd_store w))"
    using append_only_store.room_run_durable [OF assms(1,2)] by simp
  ultimately obtain conn us where "Update conn b us peer \<in> set cmds"
    and "durable_update h (ag_frame_limits config) room (content (wd_store w)) b us"
    unfolding acks_durable_def by blast
  then show ?thesis
    unfolding durable_update_def by blast
qed

theorem acknowledged_update_durable_witness:
  "\<exists>f bs g k. frame_encode_with_limits sample_hashes default_frame_limits f = Inr bs \<and> fr_updates f = [[2, 9]] \<and>
    stored_at (stream_bytes (wd_store (snd (sample_updated [])))
      (physical (delta_stream_for_generation sample_hashes ''room-a'' g))) k bs"
proof -
  obtain a w where u: "sample_updated [] = (a, w)"
    and ack: "(7, Protocol (Ack CrdtLoro ''room-a'' 5 Ok)) \<in> set (wd_sent w)"
    using sample_updated_commit by blast
  have "room_run sample_hashes toy_loro memory_store ''room-a'' default_actor_config (\<lambda>_. True)
      (grows stream_bytes (\<lambda>_. True)) [Join 1 [] 7, Update 1 5 [[2, 9]] 7] (a, w)"
    using sample_run [where bs = "[]" and init = "\<lambda>_. True"] by (simp add: u)
  from acknowledged_update_durable [OF memory.append_only_store_axioms this ack] show ?thesis
    by (auto simp: u default_actor_config_def)
qed

text \<open>A pending append is the frame of an update that was submitted, from then on unchanged.\<close>

lemma prepare_update_frame:
  "prepare_update h lo c b us a = Inr (d, q, p) \<Longrightarrow> pa_frame p = delta_frame_new h (pa_producer p) b us"
  by (auto simp: prepare_update_def Let_def elim!: r_bind_InrE split: if_splits)

lemma actor_start_blocked:
  assumes "actor_start h lo store (room_actor_new h lo room boot config, w) = (a, w')"
  shows "ra_blocked a = None"
  using assms
  by (auto simp: actor_start_def initialize_def on_store_def room_actor_new_def Let_def
      dest!: load_from_store_frame elim!: s_bindE split: sum.splits option.splits prod.splits)

lemma actor_handle_blocked:
  assumes "actor_handle h lo store cmd (a, w) = (r, (a', w'))" and "ra_blocked a' = Some p"
  shows "ra_blocked a = Some p \<or>
    (\<exists>c b us peer. cmd = Update c b us peer \<and> pa_frame p = delta_frame_new h (pa_producer p) b us)"
proof (cases cmd)
  case (Update c b us peer)
  show ?thesis
  proof (cases "prepare_update h lo c b us a")
    case (Inl st)
    with assms Update show ?thesis
      by (auto simp: actor_handle_def actor_update_def reject_unavailable_def Let_def split: if_splits)
  next
    case (Inr x)
    obtain d q p' where x: "x = (d, q, p')" by (cases x)
    obtain ro s where "resolve_append h store (ra_config a) p' (wd_store w) = (ro, s)" by fastforce
    with assms Update Inr x prepare_update_Inr [OF Inr [unfolded x]] have "p = p'"
      by (cases ro) (auto simp: actor_handle_def actor_update_def on_store_def Let_def split: append_failure.splits)
    with Update prepare_update_frame [OF Inr [unfolded x]] show ?thesis by blast
  qed
next
  case RetryAmbiguous
  with assms show ?thesis
    by (auto simp: actor_handle_def retry_pending_def Let_def dest!: load_from_store_frame
        split: prod.splits option.splits sum.splits append_failure.splits)
next
  case Rotate
  with assms show ?thesis
    by (auto simp: actor_handle_def rotate_generation_def Let_def split: prod.splits sum.splits if_splits)
qed (use assms in \<open>auto simp: actor_handle_def actor_join_def reject_unavailable_def Let_def
      split: if_splits sum.splits\<close>)

lemma room_run_blocked:
  "room_run h lo store room config init env cmds aw \<Longrightarrow> ra_blocked (fst aw) = Some p \<Longrightarrow>
    \<exists>c b us peer. Update c b us peer \<in> set cmds \<and> pa_frame p = delta_frame_new h (pa_producer p) b us"
proof (induction rule: room_run.induct)
  case (start w boot)
  then show ?case using actor_start_blocked [of h lo store room boot config w] by (metis option.discI prod.collapse)
next
  case (handle cmds aw cmd)
  obtain a w r a' w' where run: "aw = (a, w)" "actor_handle h lo store cmd (a, w) = (r, (a', w'))"
    by (metis prod.collapse)
  with handle.prems have "ra_blocked a' = Some p" by simp
  from actor_handle_blocked [OF run(2) this] handle.IH show ?case by (fastforce simp: run(1))
next
  case (environment cmds a w s n)
  then show ?case by simp
next
  case (restart cmds a w boot)
  then show ?case using actor_start_blocked [of h lo store room boot config w] by (metis option.discI prod.collapse)
qed

text \<open>
  C8. A room never has two appends in flight, in any run on any store. A ready room has no
  pending append; a room with an ambiguous append holds exactly one, and it is a frame that
  was submitted: the frame of an update command the room has handled, whose bytes are its
  encoding, addressed to the room's stream under the room's producer with the room's current sequence
  number.
\<close>

theorem pending_append_invariant:
  assumes "room_run h lo store room config init env cmds (a, w)"
  shows "ra_lifecycle a \<noteq> Recovering \<and> (ra_lifecycle a = Ready \<longrightarrow> ra_blocked a = None) \<and>
    (ra_lifecycle a = AppendAmbiguous \<longrightarrow> ra_blocked a \<noteq> None) \<and>
    (\<forall>p. ra_blocked a = Some p \<longrightarrow>
      frame_encode_with_limits h (ag_frame_limits config) (pa_frame p) = Inr (pa_bytes p) \<and>
      fr_producer (pa_frame p) = pa_producer p \<and> pa_target_stream p = ra_stream a \<and>
      pa_producer p = \<lparr>pt_id = ra_producer_id a, pt_epoch = 0, pt_sequence = ra_producer_sequence a\<rparr> \<and>
      (\<exists>c b us peer. Update c b us peer \<in> set cmds \<and> pa_frame p = delta_frame_new h (pa_producer p) b us))"
  using room_run_ok [OF assms] room_run_blocked [OF assms]
  by (auto simp: room_ok_def pending_next_def pending_ok_def)

theorem pending_append_invariant_witness:
  "ra_blocked (fst (sample_updated (replicate 6 AmbiguousOutcome))) = Some sample_room_pending \<and>
   pa_target_stream sample_room_pending = ra_stream (fst (sample_updated (replicate 6 AmbiguousOutcome)))"
proof -
  obtain a w where u: "sample_updated (replicate 6 AmbiguousOutcome) = (a, w)"
    and b: "ra_blocked a = Some sample_room_pending"
    using sample_updated_blocked by blast
  from pending_append_invariant [OF sample_run_any [of "replicate 6 AmbiguousOutcome"]] b show ?thesis
    by (simp only: u fst_conv simp_thms)
qed

text \<open>
  C9. The stream and the producer identity of a room always belong to its active generation,
  in any run: after recovery, after every rotation and after every restart, so that no frame
  is ever submitted under a producer of another generation or to a closed stream.
\<close>

theorem generation_identity_invariant:
  assumes "room_run h lo store room config init env cmds (a, w)"
  shows "ra_room_id a = room \<and>
    ra_stream a = physical (delta_stream_for_generation h room (ra_active_delta_generation a)) \<and>
    ra_producer_id a = producer_id_for_generation h (ra_boot_id a) room (ra_active_delta_generation a)"
  using room_run_ok [OF assms] by (auto simp: room_ok_def generation_bound_def)

theorem generation_identity_invariant_witness:
  "ra_stream (fst (sample_updated [])) = physical (delta_stream_for_generation sample_hashes ''room-a''
     (ra_active_delta_generation (fst (sample_updated []))))"
  using generation_identity_invariant [OF sample_run_any [of "[]"]] by simp

text \<open>
  C10. The status a room publishes is never stale between commands, in any run: stream,
  lifecycle, producer, sequence, pending sequence, number of peers, last error and recovery
  figures are those of the actor.
\<close>

theorem published_status_current:
  assumes "room_run h lo store room config init env cmds (a, w)"
  shows "st_stream (ra_status a) = ra_stream a \<and> st_state (ra_status a) = ra_lifecycle a \<and>
    st_producer_id (ra_status a) = ra_producer_id a \<and>
    st_producer_sequence (ra_status a) = ra_producer_sequence a \<and>
    st_pending_sequence (ra_status a) = map_option (\<lambda>p. pt_sequence (pa_producer p)) (ra_blocked a) \<and>
    st_peer_count (ra_status a) = length (ra_peers a) \<and> st_last_error (ra_status a) = ra_last_error a \<and>
    st_recovered_stream_bytes (ra_status a) = ra_recovered_stream_bytes a \<and>
    st_recovered_update_count (ra_status a) = ra_recovered_update_count a \<and>
    st_recovery_read_requests (ra_status a) = ra_recovery_read_requests a"
proof -
  define st where "st = ra_status (publish_status a)"
  have "ra_status a = st"
    using room_run_ok [OF assms] by (simp add: room_ok_def status_current_def st_def)
  moreover have "st_stream st = ra_stream a" "st_state st = ra_lifecycle a" "st_producer_id st = ra_producer_id a"
    "st_producer_sequence st = ra_producer_sequence a"
    "st_pending_sequence st = map_option (\<lambda>p. pt_sequence (pa_producer p)) (ra_blocked a)"
    "st_peer_count st = length (ra_peers a)" "st_last_error st = ra_last_error a"
    "st_recovered_stream_bytes st = ra_recovered_stream_bytes a"
    "st_recovered_update_count st = ra_recovered_update_count a"
    "st_recovery_read_requests st = ra_recovery_read_requests a"
    by (simp_all add: st_def publish_status_def)
  ultimately show ?thesis by simp
qed

theorem published_status_current_witness:
  "st_pending_sequence (ra_status (fst (sample_updated (replicate 6 AmbiguousOutcome)))) = Some 0"
proof -
  have "ra_blocked (fst (sample_updated (replicate 6 AmbiguousOutcome))) = Some sample_room_pending"
    using sample_updated_blocked by (metis fst_conv)
  with published_status_current [OF sample_run_any [of "replicate 6 AmbiguousOutcome"]] show ?thesis by simp
qed

text \<open>
  C6. An update is applied and acknowledged, or it changes nothing. Whatever the store
  answers, after an update command either the last thing sent is its acknowledgement, the
  sequence number advanced by one, the updates are at the end of the history and the document
  is the candidate that was validated; or document, history, sequence number, stream and
  producer are as before, nothing was acknowledged as accepted, and the room is as it was or
  blocked on the update's frame.
\<close>

theorem update_all_or_nothing:
  assumes "actor_update h lo store c b us peer (a, w) = (a', w')"
  shows "(\<exists>pending before. wd_sent w' = before @ [(peer, Protocol (Ack CrdtLoro (ra_room_id a) b Ok))] \<and>
      ra_lifecycle a = Ready \<and> ra_blocked a = None \<and> ra_lifecycle a' = Ready \<and> ra_blocked a' = None \<and>
      map_of (ra_peers a) c \<noteq> None \<and>
      unat (ra_producer_sequence a') = Suc (unat (ra_producer_sequence a)) \<and>
      ra_history a' = ra_history a @ us \<and>
      validate_update_blobs lo us (ra_history a = []) = Inr () \<and>
      build_candidate lo (ra_doc a) (ra_history a) us = Inr \<lparr>rp_doc = ra_doc a', rp_has_pending = pending\<rparr>) \<or>
    ra_doc a' = ra_doc a \<and> ra_history a' = ra_history a \<and> ra_stream a' = ra_stream a \<and>
    ra_producer_id a' = ra_producer_id a \<and> ra_producer_sequence a' = ra_producer_sequence a \<and>
    ra_active_delta_end_offset a' = ra_active_delta_end_offset a \<and>
    ok_acks (wd_sent w') = ok_acks (wd_sent w) \<and>
    (a' = a \<or> ra_lifecycle a' = AppendAmbiguous \<and>
      (\<exists>p. ra_blocked a' = Some p \<and> fr_batch_id (pa_frame p) = b \<and> fr_updates (pa_frame p) = us))"
proof (cases "prepare_update h lo c b us a")
  case (Inl st)
  with assms prepare_update_not_ok [OF Inl] show ?thesis by (auto simp: actor_update_def)
next
  case (Inr x)
  obtain d q p where x: "x = (d, q, p)" by (cases x)
  note prep = prepare_update_Inr [OF Inr [unfolded x]]
  have q: "unat q = Suc (unat (ra_producer_sequence a))"
    using prep u64_checked_add_unat by fastforce
  obtain r s1 where res: "resolve_append h store (ra_config a) p (wd_store w) = (r, s1)" by fastforce
  show ?thesis
  proof (cases r)
    case (Inl f)
    with assms res \<open>prepare_update h lo c b us a = Inr x\<close> x prep show ?thesis
      by (cases f) (auto simp: actor_update_def Let_def on_store_def)
  next
    case (Inr y)
    with assms res \<open>prepare_update h lo c b us a = Inr x\<close> x have
      "a' = transition Ready None (a\<lparr>ra_producer_sequence := q, ra_active_delta_end_offset := next_offset y,
         ra_history := ra_history a @ us, ra_doc := d\<rparr>)"
      "w' = send_ack peer (ra_room_id a) b Ok
         (forward_updates c (ra_room_id a) us (ra_peers a) (w\<lparr>wd_store := s1\<rparr>))"
      by (simp_all add: actor_update_def Let_def on_store_def)
    with prep q show ?thesis by auto
  qed
qed

lemma sample_update_step:
  "\<exists>a w a' w'. actor_update sample_hashes toy_loro memory_store 1 5 [[2, 9]] 7 (a, w) = (a', w') \<and>
     sample_updated [] = (a', w') \<and> ra_history a = []"
proof -
  obtain a w where j: "snd (actor_handle sample_hashes toy_loro memory_store (Join 1 [] 7) (sample_started [])) = (a, w)"
    "ra_lifecycle a = Ready" "ra_history a = []"
    using sample_joined [of 1 7 "[]"] by blast
  have "sample_updated [] = actor_update sample_hashes toy_loro memory_store 1 5 [[2, 9]] 7 (a, w)"
    by (simp only: sample_updated_by_def j(1)) (simp add: actor_handle_def j)
  with j(3) show ?thesis by (metis prod.collapse)
qed

theorem update_all_or_nothing_witness:
  "ra_history (fst (sample_updated [])) \<in> {[], [[2, 9]]}"
proof -
  obtain a w a' w' where u: "actor_update sample_hashes toy_loro memory_store 1 5 [[2, 9]] 7 (a, w) = (a', w')"
    "sample_updated [] = (a', w')" "ra_history a = []"
    using sample_update_step by blast
  from update_all_or_nothing [OF u(1)] u(2,3) show ?thesis by auto
qed

end
