(* ===== verification/Protocol.thy ===== *)
theory Protocol
  imports Messages
begin

text \<open>
  \<open>src/protocol.rs\<close>: the bounds every client message is checked against before the codec of
  the \<open>loro_protocol\<close> crate sees it. The crate's decoder and its constant
  \<open>MAX_MESSAGE_SIZE\<close> are parameters, in the record \<open>protocol_codec\<close>.
\<close>

section \<open>The code\<close>

record protocol_codec =
  pc_max_message_size :: nat
  pc_decode :: "bytes \<Rightarrow> string + protocol_message"

record protocol_limits =
  pl_max_message_bytes :: nat
  pl_max_room_id_bytes :: nat
  pl_max_updates :: nat
  pl_max_update_bytes :: nat
  pl_max_updates_bytes :: nat

definition default_protocol_limits :: "protocol_codec \<Rightarrow> protocol_limits" where
  "default_protocol_limits c = \<lparr>pl_max_message_bytes = pc_max_message_size c,
     pl_max_room_id_bytes = 128, pl_max_updates = 4096,
     pl_max_update_bytes = pc_max_message_size c, pl_max_updates_bytes = pc_max_message_size c\<rparr>"

datatype protocol_decode_error =
    Truncated
  | LengthOverflow
  | LimitExceeded string nat nat
  | Invalid string
  | OfficialCodec string

fun protocol_error_text :: "protocol_decode_error \<Rightarrow> string" where
  "protocol_error_text Truncated = ''truncated protocol message''"
| "protocol_error_text LengthOverflow = ''protocol length overflow''"
| "protocol_error_text (LimitExceeded resource actual limit) =
     resource @ '' exceeds limit '' @ show_nat limit @ '': '' @ show_nat actual"
| "protocol_error_text (Invalid m) = ''invalid protocol message: '' @ m"
| "protocol_error_text (OfficialCodec m) = ''official protocol codec rejected message: '' @ m"

definition protocol_enforce_limit :: "string \<Rightarrow> nat \<Rightarrow> nat \<Rightarrow> protocol_decode_error + unit" where
  "protocol_enforce_limit resource actual limit =
     (if actual > limit then Inl (LimitExceeded resource actual limit) else Inr ())"

text \<open>\<open>Reader\<close>: every operation takes the input and the cursor, and returns the new cursor.\<close>

definition reader_take :: "bytes \<Rightarrow> nat \<Rightarrow> nat \<Rightarrow> protocol_decode_error + (bytes \<times> nat)" where
  "reader_take input cursor len =
     (case checked_add cursor len of
        Some stop \<Rightarrow>
          if stop \<le> length input then Inr (take (stop - cursor) (drop cursor input), stop) else Inl Truncated
      | None \<Rightarrow> Inl Truncated)"

definition reader_byte :: "bytes \<Rightarrow> nat \<Rightarrow> protocol_decode_error + (u8 \<times> nat)" where
  "reader_byte input cursor =
     r_bind (reader_take input cursor 1) (\<lambda>(bs, cursor). Inr (bs ! 0, cursor))"

function reader_uleb_loop ::
  "bytes \<Rightarrow> nat \<Rightarrow> u64 \<Rightarrow> nat \<Rightarrow> protocol_decode_error + (u64 \<times> nat)" where
  "reader_uleb_loop input cursor result shift =
     r_bind (reader_byte input cursor) (\<lambda>(b, cursor).
     if shift = 63 \<and> b AND 0x7e \<noteq> 0 then Inl LengthOverflow else
     let result = result OR push_bit shift (ucast (b AND 0x7f)) in
     if b AND 0x80 = 0 then Inr (result, cursor) else
     if shift + 7 > 63 then Inl LengthOverflow
     else reader_uleb_loop input cursor result (shift + 7))"
  by pat_completeness auto

termination
  by (relation "measure (\<lambda>(input, cursor, result, shift). 64 - shift)") auto

declare reader_uleb_loop.simps [simp del]

definition reader_uleb128 :: "bytes \<Rightarrow> nat \<Rightarrow> protocol_decode_error + (u64 \<times> nat)" where
  "reader_uleb128 input cursor = reader_uleb_loop input cursor 0 0"

definition reader_var_len :: "bytes \<Rightarrow> nat \<Rightarrow> protocol_decode_error + (nat \<times> nat)" where
  "reader_var_len input cursor =
     r_bind (reader_uleb128 input cursor) (\<lambda>(w, cursor).
     r_bind (ok_or LengthOverflow (usize_of_u64 w)) (\<lambda>len. Inr (len, cursor)))"

definition reader_var_bytes :: "bytes \<Rightarrow> nat \<Rightarrow> protocol_decode_error + (bytes \<times> nat)" where
  "reader_var_bytes input cursor =
     r_bind (reader_var_len input cursor) (\<lambda>(len, cursor). reader_take input cursor len)"

text \<open>The loop over the updates of a \<open>DocUpdate\<close>.\<close>

fun precheck_updates ::
  "protocol_limits \<Rightarrow> bytes \<Rightarrow> nat \<Rightarrow> nat \<Rightarrow> nat \<Rightarrow> protocol_decode_error + nat" where
  "precheck_updates limits input 0 updates_bytes cursor = Inr cursor"
| "precheck_updates limits input (Suc count) updates_bytes cursor =
     r_bind (reader_var_len input cursor) (\<lambda>(update_len, cursor).
     r_bind (protocol_enforce_limit ''individual update bytes'' update_len
               (pl_max_update_bytes limits)) (\<lambda>_.
     r_bind (ok_or LengthOverflow (checked_add updates_bytes update_len)) (\<lambda>updates_bytes.
     r_bind (protocol_enforce_limit ''aggregate update bytes'' updates_bytes
               (pl_max_updates_bytes limits)) (\<lambda>_.
     r_bind (reader_take input cursor update_len) (\<lambda>(_, cursor).
     precheck_updates limits input count updates_bytes cursor)))))"

text \<open>The \<open>match\<close> on the message type; \<open>skip\<close> forgets what a read returned.\<close>

abbreviation skip :: "'e + ('a \<times> nat) \<Rightarrow> 'e + nat" where
  "skip m \<equiv> r_bind m (\<lambda>(_, cursor). Inr cursor)"

definition precheck_body ::
  "protocol_limits \<Rightarrow> bytes \<Rightarrow> u8 \<Rightarrow> nat \<Rightarrow> protocol_decode_error + nat" where
  "precheck_body limits input message_type cursor =
     (if message_type = 0x00 then
        r_bind (skip (reader_var_bytes input cursor)) (\<lambda>cursor.
        skip (reader_var_bytes input cursor))
      else if message_type = 0x01 then
        r_bind (skip (reader_var_bytes input cursor)) (\<lambda>cursor.
        r_bind (skip (reader_var_bytes input cursor)) (\<lambda>cursor.
        skip (reader_var_bytes input cursor)))
      else if message_type = 0x02 then
        r_bind (reader_byte input cursor) (\<lambda>(code, cursor).
        r_bind (skip (reader_var_bytes input cursor)) (\<lambda>cursor.
        r_bind (if code = 0x01 \<and> cursor \<noteq> length input
                then skip (reader_var_bytes input cursor) else Inr cursor) (\<lambda>cursor.
        if code = 0x7f \<and> cursor \<noteq> length input
        then skip (reader_var_bytes input cursor) else Inr cursor)))
      else if message_type = 0x03 then
        r_bind (reader_var_len input cursor) (\<lambda>(count, cursor).
        r_bind (protocol_enforce_limit ''update count'' count (pl_max_updates limits)) (\<lambda>_.
        r_bind (precheck_updates limits input count 0 cursor) (\<lambda>cursor.
        skip (reader_take input cursor 8))))
      else if message_type = 0x04 then
        r_bind (skip (reader_take input cursor 8)) (\<lambda>cursor.
        r_bind (skip (reader_uleb128 input cursor)) (\<lambda>cursor.
        skip (reader_uleb128 input cursor)))
      else if message_type = 0x05 then
        r_bind (skip (reader_take input cursor 8)) (\<lambda>cursor.
        r_bind (skip (reader_uleb128 input cursor)) (\<lambda>cursor.
        skip (reader_var_bytes input cursor)))
      else if message_type = 0x06 then
        r_bind (skip (reader_byte input cursor)) (\<lambda>cursor.
        skip (reader_var_bytes input cursor))
      else if message_type = 0x07 then Inr cursor
      else if message_type = 0x08 then skip (reader_take input cursor 9)
      else Inl (Invalid ''unknown message type''))"

definition precheck ::
  "protocol_codec \<Rightarrow> protocol_limits \<Rightarrow> bytes \<Rightarrow> protocol_decode_error + unit" where
  "precheck c limits input =
     r_bind (protocol_enforce_limit ''message bytes'' (length input)
               (min (pl_max_message_bytes limits) (pc_max_message_size c))) (\<lambda>_.
     r_bind (skip (reader_take input 0 4)) (\<lambda>cursor.
     r_bind (reader_var_len input cursor) (\<lambda>(room_len, cursor).
     r_bind (protocol_enforce_limit ''room ID bytes'' room_len (pl_max_room_id_bytes limits)) (\<lambda>_.
     r_bind (skip (reader_take input cursor room_len)) (\<lambda>cursor.
     r_bind (reader_byte input cursor) (\<lambda>(message_type, cursor).
     r_bind (precheck_body limits input message_type cursor) (\<lambda>cursor.
     if cursor \<noteq> length input then Inl (Invalid ''trailing message bytes'') else Inr ())))))))"

definition decode_bounded ::
  "protocol_codec \<Rightarrow> protocol_limits \<Rightarrow> bytes \<Rightarrow> protocol_decode_error + protocol_message" where
  "decode_bounded c limits input =
     r_bind (precheck c limits input) (\<lambda>_. map_err OfficialCodec (pc_decode c input))"

section \<open>The variable-length integers\<close>

text \<open>
  A LEB128 code: seven bits a byte, the least significant group first, and the high bit set
  on all but the last byte.
\<close>

fun uleb_value :: "bytes \<Rightarrow> nat" where
  "uleb_value [] = 0"
| "uleb_value (b # bs) = unat (b AND 0x7f) + 128 * uleb_value bs"

fun uleb_code :: "bytes \<Rightarrow> bool" where
  "uleb_code [] = False"
| "uleb_code (b # bs) = (if b AND 0x80 = 0 then bs = [] else uleb_code bs)"

lemma word_or_add:
  fixes r x :: u64
  assumes r: "unat r < 2 ^ s" and s: "s < 64" and fits: "unat r + unat x * 2 ^ s < 2 ^ 64"
  shows "unat (r OR push_bit s x) = unat r + unat x * 2 ^ s"
proof -
  have "take_bit s r = r"
    using r by (simp add: word_unat_eq_iff unsigned_take_bit_eq take_bit_nat_eq_self)
  then have low: "n < s" if "bit r n" for n
    using that by (metis bit_take_bit_iff)
  have "r + push_bit s x = r OR push_bit s x"
    by (rule disjunctive_add_eq_or) (auto simp: bit_eq_iff bit_simps dest: low)
  moreover have "unat (push_bit s x) = unat x * 2 ^ s"
  proof -
    have "(2 :: nat) ^ s < 2 ^ 64" using s by (intro power_strict_increasing) simp_all
    then have "unat (of_nat (2 ^ s) :: u64) = 2 ^ s" by (simp only: unat_of_nat) simp
    then have "unat (2 ^ s :: u64) = 2 ^ s" by simp
    moreover from fits have "unat x * 2 ^ s < 2 ^ 64" by linarith
    ultimately have "unat (x * 2 ^ s) = unat x * 2 ^ s"
      using unat_mult_lem [of x "2 ^ s"] by simp
    then show ?thesis by (simp add: push_bit_eq_mult)
  qed
  ultimately show ?thesis
    using unat_add_lem [of r "push_bit s x"] fits by simp
qed

lemma low_bits_less: "unat (b AND 0x7f :: u8) < 128"
  using word_and_le1 [of b "0x7f"] by (simp add: word_le_nat_alt)

lemma unat_low_bits: "unat (ucast (b AND 0x7f :: u8) :: u64) = unat (b AND 0x7f)"
proof -
  have "unat (b AND 0x7f) < 2 ^ 64" by (rule less_trans [OF low_bits_less]) simp
  then show ?thesis by (simp add: unsigned_ucast_eq take_bit_nat_eq_self)
qed

lemma high_bits_clear: "(b :: u8) AND 0x7e = 0 \<longleftrightarrow> unat (b AND 0x7f) < 2"
proof -
  have "list_all (\<lambda>n. ((of_nat n :: u8) AND 0x7e = 0) = (unat ((of_nat n :: u8) AND 0x7f) < 2)) [0..<256]"
    by code_simp
  moreover have "unat b \<in> set [0..<256]" using unat_bound [of b] by simp
  ultimately have "((of_nat (unat b) :: u8) AND 0x7e = 0) = (unat ((of_nat (unat b) :: u8) AND 0x7f) < 2)"
    unfolding list_all_iff by (rule bspec)
  then show ?thesis by simp
qed

lemma reader_byte_Inr_iff:
  "reader_byte input cursor = Inr (b, cursor') \<longleftrightarrow>
     cursor < length input \<and> Suc cursor < usize_limit \<and> b = input ! cursor \<and> cursor' = Suc cursor"
  by (auto simp: reader_byte_def reader_take_def checked_add_def take_Suc hd_drop_conv_nth split: if_splits)

text \<open>
  The loop over a code that starts with the bytes \<open>bs\<close>, \<open>k\<close> bytes and \<open>7 * k\<close> bits into
  the number.
\<close>

lemma reader_uleb_loop_run:
  assumes "uleb_code bs" and "drop cursor input = bs @ rest" and "length input < usize_limit"
    and "unat result < 2 ^ (7 * k)" and "k + length bs \<le> 10"
    and "unat result + 2 ^ (7 * k) * uleb_value bs < 2 ^ 64"
  shows "\<exists>w. reader_uleb_loop input cursor result (7 * k) = Inr (w, cursor + length bs) \<and>
    unat w = unat result + 2 ^ (7 * k) * uleb_value bs"
  using assms
proof (induction bs arbitrary: cursor result k)
  case (Cons b bs)
  let ?x = "ucast (b AND 0x7f) :: u64"
  have k: "k \<le> 9" using Cons.prems(5) by simp
  have cur: "cursor < length input" "input ! cursor = b" "drop (Suc cursor) input = bs @ rest"
  proof -
    show lt: "cursor < length input"
      using Cons.prems(2) by (metis append_Cons drop_all list.distinct(1) not_le)
    from Cons.prems(2) Cons_nth_drop_Suc [OF lt] show "input ! cursor = b" "drop (Suc cursor) input = bs @ rest"
      by simp_all
  qed
  have rd: "reader_byte input cursor = Inr (b, Suc cursor)"
    using cur Cons.prems(3) by (simp add: reader_byte_Inr_iff)
  have x: "unat ?x = unat (b AND 0x7f)"
    by (rule unat_low_bits)
  let ?r = "result OR push_bit (7 * k) ?x"
  have total: "unat result + 2 ^ (7 * k) * unat ?x + 2 ^ (7 * Suc k) * uleb_value bs =
      unat result + 2 ^ (7 * k) * uleb_value (b # bs)"
    by (simp add: x algebra_simps power_add)
  then have fits: "unat result + unat ?x * 2 ^ (7 * k) < 2 ^ 64"
    using Cons.prems(6) by (simp add: algebra_simps)
  have r: "unat ?r = unat result + unat ?x * 2 ^ (7 * k)"
    by (rule word_or_add) (use Cons.prems(4) k fits in auto)
  have small: "b AND 0x7e = 0" if "k = 9"
  proof -
    have "unat ?x * 2 ^ 63 < 2 ^ 64" using fits that by simp
    then show ?thesis by (simp add: high_bits_clear x)
  qed
  show ?case
  proof (cases "b AND 0x80 = 0")
    case True
    with Cons.prems(1) have "bs = []" by simp
    with True rd small r show ?thesis
      by (auto simp: reader_uleb_loop.simps [of input cursor] Let_def x algebra_simps)
  next
    case False
    with Cons.prems(1) have code: "uleb_code bs" by simp
    then have "bs \<noteq> []" by auto
    with Cons.prems(5) have k': "Suc k + length bs \<le> 10" and "k \<le> 8"
      by (auto simp: neq_Nil_conv)
    have "unat ?x < 128" by (simp add: x low_bits_less)
    then have "unat result + unat ?x * 2 ^ (7 * k) < 2 ^ (7 * k) + 127 * 2 ^ (7 * k)"
      using Cons.prems(4) by (intro add_less_le_mono) simp_all
    then have "unat ?r < 2 ^ (7 * Suc k)"
      by (simp add: r power_add)
    moreover have "unat ?r + 2 ^ (7 * Suc k) * uleb_value bs < 2 ^ 64"
      using Cons.prems(6) total r by (simp only: mult.commute)
    ultimately obtain w where
      "reader_uleb_loop input (Suc cursor) ?r (7 * Suc k) = Inr (w, Suc cursor + length bs)"
      "unat w = unat ?r + 2 ^ (7 * Suc k) * uleb_value bs"
      using Cons.IH [OF code cur(3) Cons.prems(3) _ k'] by blast
    moreover have "reader_uleb_loop input cursor result (7 * k) = reader_uleb_loop input (Suc cursor) ?r (7 * Suc k)"
      using rd False \<open>k \<le> 8\<close> by (simp add: reader_uleb_loop.simps [of input cursor] Let_def add.commute)
    moreover have "unat ?r + 2 ^ (7 * Suc k) * uleb_value bs = unat result + 2 ^ (7 * k) * uleb_value (b # bs)"
      using total r by (simp only: mult.commute)
    ultimately show ?thesis by auto
  qed
qed simp

lemma reader_uleb_loop_Inr:
  assumes "reader_uleb_loop input cursor result (7 * k) = Inr (w, cursor')"
    and "unat result < 2 ^ (7 * k)" and "k \<le> 9"
  shows "\<exists>bs rest. drop cursor input = bs @ rest \<and> uleb_code bs \<and> cursor' = cursor + length bs \<and>
    k + length bs \<le> 10 \<and> unat w = unat result + 2 ^ (7 * k) * uleb_value bs"
  using assms
proof (induction "9 - k" arbitrary: cursor result k rule: less_induct)
  case less
  from less.prems(1) obtain b where rd: "reader_byte input cursor = Inr (b, Suc cursor)"
    and rest: "\<not> (k = 9 \<and> b AND 0x7e \<noteq> 0)"
    and step: "(if b AND 0x80 = 0 then Inr (result OR push_bit (7 * k) (ucast (b AND 0x7f)), Suc cursor)
      else if 7 * k + 7 > 63 then Inl LengthOverflow
      else reader_uleb_loop input (Suc cursor) (result OR push_bit (7 * k) (ucast (b AND 0x7f))) (7 * k + 7)) =
      Inr (w, cursor')"
    by (subst (asm) reader_uleb_loop.simps) (auto simp: Let_def reader_byte_Inr_iff elim!: r_bind_InrE split: if_splits)
  let ?x = "ucast (b AND 0x7f) :: u64" and ?r = "result OR push_bit (7 * k) (ucast (b AND 0x7f))"
  have cur: "drop cursor input = b # drop (Suc cursor) input"
    using rd by (auto simp: reader_byte_Inr_iff Cons_nth_drop_Suc)
  have x: "unat ?x < 128" "k = 9 \<Longrightarrow> unat ?x < 2"
    using rest low_bits_less [of b] by (auto simp: unat_low_bits high_bits_clear)
  have le: "unat ?x * 2 ^ (7 * k) \<le> 127 * 2 ^ (7 * k)" and p: "(2 :: nat) ^ (7 * Suc k) = 128 * 2 ^ (7 * k)"
    using x by (auto simp: power_add)
  have grow: "unat result + unat ?x * 2 ^ (7 * k) < 2 ^ (7 * Suc k)"
    using le less.prems(2) unfolding p by linarith
  have fits: "unat result + unat ?x * 2 ^ (7 * k) < 2 ^ 64"
  proof (cases "k = 9")
    case True
    with x(2) have "unat ?x * 2 ^ (7 * k) \<le> 2 ^ 63" by simp
    with less.prems(2) True show ?thesis by simp
  next
    case False
    with less.prems(3) have "(2 :: nat) ^ (7 * Suc k) \<le> 2 ^ 64" by (intro power_increasing) auto
    with grow show ?thesis by linarith
  qed
  have r: "unat ?r = unat result + unat (b AND 0x7f) * 2 ^ (7 * k)"
    using word_or_add [of result "7 * k" ?x] less.prems(2,3) fits by (simp add: unat_low_bits)
  show ?case
  proof (cases "b AND 0x80 = 0")
    case True
    with step cur r less.prems(3) show ?thesis
      by (intro exI [of _ "[b]"] exI [of _ "drop (Suc cursor) input"]) (auto simp: algebra_simps)
  next
    case False
    with step have k: "k < 9" and "reader_uleb_loop input (Suc cursor) ?r (7 * k + 7) = Inr (w, cursor')"
      by (auto split: if_splits)
    then have run: "reader_uleb_loop input (Suc cursor) ?r (7 * Suc k) = Inr (w, cursor')"
      by (simp add: add.commute)
    have "9 - Suc k < 9 - k" using k by simp
    from less.hyps [OF this run] grow r k obtain bs rest where
      "drop (Suc cursor) input = bs @ rest" "uleb_code bs" "cursor' = Suc cursor + length bs"
      "Suc k + length bs \<le> 10" "unat w = unat ?r + 2 ^ (7 * Suc k) * uleb_value bs"
      by (auto simp: unat_low_bits)
    with cur False r show ?thesis
      by (intro exI [of _ "b # bs"] exI [of _ rest]) (auto simp: algebra_simps power_add)
  qed
qed

text \<open>Reading a number, from both sides.\<close>

lemma reader_uleb128_Inr:
  assumes "reader_uleb128 input cursor = Inr (w, cursor')"
  shows "\<exists>bs rest. drop cursor input = bs @ rest \<and> uleb_code bs \<and> cursor' = cursor + length bs \<and>
    length bs \<le> 10 \<and> unat w = uleb_value bs \<and> cursor' \<le> length input"
proof -
  obtain bs rest where bs: "drop cursor input = bs @ rest" "uleb_code bs" "cursor' = cursor + length bs"
    "length bs \<le> 10" "unat w = uleb_value bs"
    using reader_uleb_loop_Inr [of input cursor 0 0 w cursor'] assms by (auto simp: reader_uleb128_def)
  have "length bs \<le> length (drop cursor input)" unfolding bs(1) by simp
  moreover have "bs \<noteq> []" using bs(2) by auto
  ultimately have "cursor' \<le> length input" using bs(3) by (cases bs) auto
  with bs show ?thesis by blast
qed

lemma reader_uleb128_run:
  assumes "uleb_code bs" and "drop cursor input = bs @ rest" and "length input < usize_limit"
    and "length bs \<le> 10" and "uleb_value bs < 2 ^ 64"
  shows "\<exists>w. reader_uleb128 input cursor = Inr (w, cursor + length bs) \<and> unat w = uleb_value bs"
  using reader_uleb_loop_run [OF assms(1-3), of 0 0] assms(4,5) by (simp add: reader_uleb128_def)

lemma reader_take_Inr_iff:
  "reader_take input cursor len = Inr (bs, cursor') \<longleftrightarrow>
     cursor + len \<le> length input \<and> cursor + len < usize_limit \<and> bs = take len (drop cursor input) \<and>
     cursor' = cursor + len"
  by (auto simp: reader_take_def checked_add_def split: if_splits)

section \<open>What the check lets through\<close>

text \<open>A length-prefixed byte string, and a list of them.\<close>

definition var_bytes :: "bytes \<Rightarrow> bytes \<Rightarrow> bool" where
  "var_bytes bs u \<longleftrightarrow> (\<exists>n. bs = n @ u \<and> uleb_code n \<and> length n \<le> 10 \<and> uleb_value n = length u)"

fun var_updates :: "bytes \<Rightarrow> bytes list \<Rightarrow> bool" where
  "var_updates bs [] \<longleftrightarrow> bs = []"
| "var_updates bs (u # us) \<longleftrightarrow> (\<exists>v vs. bs = v @ vs \<and> var_bytes v u \<and> var_updates vs us)"

lemma reader_var_len_Inr:
  assumes "reader_var_len input cursor = Inr (n, cursor')"
  shows "\<exists>bs. drop cursor input = bs @ drop cursor' input \<and> uleb_code bs \<and> length bs \<le> 10 \<and>
    uleb_value bs = n \<and> cursor \<le> cursor' \<and> cursor' \<le> length input"
proof -
  from assms obtain w where w: "reader_uleb128 input cursor = Inr (w, cursor')" and n: "unat w = n"
    by (auto simp: reader_var_len_def elim!: r_bind_InrE)
  from reader_uleb128_Inr [OF w] n obtain bs rest where bs: "drop cursor input = bs @ rest" "uleb_code bs"
    "cursor' = cursor + length bs" "length bs \<le> 10" "uleb_value bs = n" "cursor' \<le> length input" by auto
  have "drop cursor' input = rest"
    using bs(1,3) by (metis add.commute append_eq_conv_conj drop_drop)
  with bs show ?thesis by auto
qed

lemma precheck_updates_Inr:
  assumes "precheck_updates limits input count used cursor = Inr cursor'" and "cursor \<le> length input"
  shows "\<exists>bs us. drop cursor input = bs @ drop cursor' input \<and> var_updates bs us \<and> length us = count \<and>
    cursor' \<le> length input \<and> (\<forall>u \<in> set us. length u \<le> pl_max_update_bytes limits) \<and>
    (us \<noteq> [] \<longrightarrow> used + length (concat us) \<le> pl_max_updates_bytes limits)"
  using assms
proof (induction limits input count used cursor rule: precheck_updates.induct)
  case (2 limits input count used cursor)
  from "2.prems"(1) obtain n c1 u c2 where len: "reader_var_len input cursor = Inr (n, c1)"
    and lim: "n \<le> pl_max_update_bytes limits" "used + n < usize_limit" "used + n \<le> pl_max_updates_bytes limits"
    and tk: "reader_take input c1 n = Inr (u, c2)"
    and rec: "precheck_updates limits input count (used + n) c2 = Inr cursor'"
    by (auto simp: protocol_enforce_limit_def elim!: r_bind_InrE split: if_splits)
  from reader_var_len_Inr [OF len] obtain p where p: "drop cursor input = p @ drop c1 input" "uleb_code p"
    "length p \<le> 10" "uleb_value p = n" "c1 \<le> length input" by auto
  from tk have u: "u = take n (drop c1 input)" "c2 = c1 + n" "c2 \<le> length input" "length u = n"
    by (auto simp: reader_take_Inr_iff)
  then have d: "drop c1 input = u @ drop c2 input"
    by (metis add.commute append_take_drop_id drop_drop)
  have "\<exists>bs us. drop c2 input = bs @ drop cursor' input \<and> var_updates bs us \<and> length us = count \<and>
    cursor' \<le> length input \<and> (\<forall>u \<in> set us. length u \<le> pl_max_update_bytes limits) \<and>
    (us \<noteq> [] \<longrightarrow> used + n + length (concat us) \<le> pl_max_updates_bytes limits)"
    using "2.IH" [of "(n, c1)" n c1 "()" "used + n" "()" "(u, c2)" u c2] len lim tk rec u
    by (simp add: protocol_enforce_limit_def)
  then obtain bs us where b: "drop c2 input = bs @ drop cursor' input" "var_updates bs us" "length us = count"
    "cursor' \<le> length input" "\<forall>u \<in> set us. length u \<le> pl_max_update_bytes limits"
    "us \<noteq> [] \<longrightarrow> used + n + length (concat us) \<le> pl_max_updates_bytes limits" by blast
  have "var_bytes (p @ u) u"
    using p u by (auto simp: var_bytes_def)
  then have "var_updates ((p @ u) @ bs) (u # us)"
    using b(2) unfolding var_updates.simps by blast
  moreover have "drop cursor input = ((p @ u) @ bs) @ drop cursor' input"
    by (simp add: p(1) d b(1))
  moreover have "used + length (concat (u # us)) \<le> pl_max_updates_bytes limits"
    using b(6) lim u(4) by (cases "us = []") auto
  ultimately show ?case
    using b(3-5) lim u(4) by (intro exI [of _ "(p @ u) @ bs"] exI [of _ "u # us"]) simp
qed auto

lemma precheck_body_type: "precheck_body limits input ty cursor = Inr c \<Longrightarrow> unat ty \<le> 8"
  by (simp add: precheck_body_def split: if_splits)

lemma precheck_body_updates:
  assumes "precheck_body limits input 0x03 cursor = Inr (length input)"
  shows "\<exists>n ups batch us. drop cursor input = n @ ups @ batch \<and> uleb_code n \<and> uleb_value n = length us \<and>
    length us \<le> pl_max_updates limits \<and> var_updates ups us \<and> length batch = 8 \<and>
    (\<forall>u \<in> set us. length u \<le> pl_max_update_bytes limits) \<and>
    (us \<noteq> [] \<longrightarrow> length (concat us) \<le> pl_max_updates_bytes limits)"
proof -
  from assms obtain count c1 c2 bs where len: "reader_var_len input cursor = Inr (count, c1)"
    and lim: "count \<le> pl_max_updates limits" and ups: "precheck_updates limits input count 0 c1 = Inr c2"
    and tk: "reader_take input c2 8 = Inr (bs, length input)"
    by (auto simp: precheck_body_def protocol_enforce_limit_def elim!: r_bind_InrE split: if_splits)
  from reader_var_len_Inr [OF len] obtain n where n: "drop cursor input = n @ drop c1 input" "uleb_code n"
    "uleb_value n = count" "c1 \<le> length input" by auto
  from precheck_updates_Inr [OF ups n(4)] obtain vs us where u: "drop c1 input = vs @ drop c2 input"
    "var_updates vs us" "length us = count" "\<forall>u \<in> set us. length u \<le> pl_max_update_bytes limits"
    "us \<noteq> [] \<longrightarrow> length (concat us) \<le> pl_max_updates_bytes limits" by auto
  have "length (drop c2 input) = 8"
    using tk by (auto simp: reader_take_Inr_iff)
  with n u lim show ?thesis
    by (intro exI [of _ n] exI [of _ vs] exI [of _ "drop c2 input"] exI [of _ us]) simp
qed

section \<open>Properties\<close>

text \<open>
  C40. The reader of variable-length integers decodes LEB128 and nothing else: it accepts
  exactly the codes of at most ten bytes, high bit set on all but the last, whose value fits
  64 bits, returns that value and stops right behind the code. Everything else, a code that is
  cut off, too long or too large, is an error, never a wrapped value.
\<close>

theorem uleb128_reads_leb128:
  assumes "length input < usize_limit"
  shows "reader_uleb128 input cursor = Inr (w, cursor') \<longleftrightarrow>
    (\<exists>bs rest. drop cursor input = bs @ rest \<and> uleb_code bs \<and> length bs \<le> 10 \<and>
      uleb_value bs = unat w \<and> cursor' = cursor + length bs)"
proof
  assume "reader_uleb128 input cursor = Inr (w, cursor')"
  from reader_uleb128_Inr [OF this] show "\<exists>bs rest. drop cursor input = bs @ rest \<and> uleb_code bs \<and>
      length bs \<le> 10 \<and> uleb_value bs = unat w \<and> cursor' = cursor + length bs" by metis
next
  assume "\<exists>bs rest. drop cursor input = bs @ rest \<and> uleb_code bs \<and> length bs \<le> 10 \<and>
      uleb_value bs = unat w \<and> cursor' = cursor + length bs"
  then obtain bs rest where bs: "drop cursor input = bs @ rest" "uleb_code bs" "length bs \<le> 10"
    "uleb_value bs = unat w" "cursor' = cursor + length bs" by blast
  have "uleb_value bs < 2 ^ 64"
    unfolding bs(4) using unat_bound [of w] by simp
  from reader_uleb128_run [OF bs(2,1) assms bs(3) this] bs(4,5)
  show "reader_uleb128 input cursor = Inr (w, cursor')"
    by (auto simp: word_unat_eq_iff)
qed

theorem uleb128_reads_leb128_witness:
  "reader_uleb128 [7, 0xe5, 0x8e, 0x26, 1] 1 = Inr (624485, 4)"
proof (rule uleb128_reads_leb128 [THEN iffD2])
  show "\<exists>bs rest. drop 1 [7, 0xe5, 0x8e, 0x26, 1] = bs @ rest \<and> uleb_code bs \<and> length bs \<le> 10 \<and>
      uleb_value bs = unat (624485 :: u64) \<and> 4 = 1 + length bs"
    by (intro exI [of _ "[0xe5, 0x8e, 0x26]"] exI [of _ "[1]"]) simp
qed (simp add: usize_limit_def)

text \<open>
  C39. The official codec only ever sees bounded messages. A message that \<open>decode_bounded\<close>
  accepts is within the message limit, names a room within the room limit, has one of the
  nine known types, and if it carries updates then the declared number of updates, each
  declared length and their sum are within the limits and describe exactly the bytes that
  follow, down to the eight bytes of the batch identifier at the end.
\<close>

theorem decode_bounded_checked:
  assumes "decode_bounded c limits input = Inr message"
  shows "pc_decode c input = Inr message \<and> length input \<le> pl_max_message_bytes limits \<and>
    length input \<le> pc_max_message_size c \<and>
    (\<exists>magic n room ty body. input = magic @ n @ room @ ty # body \<and> length magic = 4 \<and> uleb_code n \<and>
      uleb_value n = length room \<and> length room \<le> pl_max_room_id_bytes limits \<and> unat ty \<le> 8 \<and>
      (ty = 0x03 \<longrightarrow> (\<exists>count ups batch us. body = count @ ups @ batch \<and> uleb_code count \<and>
        uleb_value count = length us \<and> length us \<le> pl_max_updates limits \<and> var_updates ups us \<and>
        length batch = 8 \<and> (\<forall>u \<in> set us. length u \<le> pl_max_update_bytes limits) \<and>
        (us \<noteq> [] \<longrightarrow> length (concat us) \<le> pl_max_updates_bytes limits))))"
proof -
  from assms have "precheck c limits input = Inr ()" and dec: "pc_decode c input = Inr message"
    by (auto simp: decode_bounded_def elim!: r_bind_InrE)
  then obtain bs rl c1 room c2 ty c3 where sz: "length input \<le> pl_max_message_bytes limits"
      "length input \<le> pc_max_message_size c"
    and t1: "reader_take input 0 4 = Inr (bs, 4)" and len: "reader_var_len input 4 = Inr (rl, c1)"
    and lim: "rl \<le> pl_max_room_id_bytes limits" and t2: "reader_take input c1 rl = Inr (room, c2)"
    and b: "reader_byte input c2 = Inr (ty, Suc c2)"
    and body: "precheck_body limits input ty (Suc c2) = Inr (length input)"
    by (auto simp: precheck_def protocol_enforce_limit_def reader_take_Inr_iff reader_byte_Inr_iff
        elim!: r_bind_InrE split: if_splits)
  from reader_var_len_Inr [OF len] obtain n where n: "drop 4 input = n @ drop c1 input" "uleb_code n"
    "uleb_value n = rl" by auto
  from t2 have r: "drop c1 input = room @ drop c2 input" "length room = rl"
    by (auto simp: reader_take_Inr_iff) (metis add.commute append_take_drop_id drop_drop)
  from b have "drop c2 input = ty # drop (Suc c2) input"
    by (auto simp: reader_byte_Inr_iff Cons_nth_drop_Suc)
  with n r have "input = take 4 input @ n @ room @ ty # drop (Suc c2) input"
    by (metis append_take_drop_id)
  moreover have "length (take 4 input) = 4"
    using t1 by (auto simp: reader_take_Inr_iff)
  moreover have "ty = 0x03 \<longrightarrow> (\<exists>count ups batch us. drop (Suc c2) input = count @ ups @ batch \<and>
      uleb_code count \<and> uleb_value count = length us \<and> length us \<le> pl_max_updates limits \<and>
      var_updates ups us \<and> length batch = 8 \<and> (\<forall>u \<in> set us. length u \<le> pl_max_update_bytes limits) \<and>
      (us \<noteq> [] \<longrightarrow> length (concat us) \<le> pl_max_updates_bytes limits))"
    using precheck_body_updates body by blast
  ultimately show ?thesis
    using dec sz n(2,3) r(2) lim precheck_body_type [OF body]
    by (intro conjI exI [of _ "take 4 input"] exI [of _ n] exI [of _ room] exI [of _ ty]
        exI [of _ "drop (Suc c2) input"]) (assumption | simp)+
qed

definition sample_codec :: protocol_codec where
  "sample_codec = \<lparr>pc_max_message_size = 1024,
     pc_decode = (\<lambda>bs. Inr (DocUpdate CrdtLoro ''a'' [[9, 9], [8]] 7))\<rparr>"

definition sample_message :: bytes where
  "sample_message = str_bytes ''%LOR'' @ [1, 0x61, 3, 2, 2, 9, 9, 1, 8] @ [7, 7, 7, 7, 7, 7, 7, 7]"

lemma precheck_two:
  "precheck_updates limits input 2 n cursor = precheck_updates limits input (Suc (Suc 0)) n cursor"
  by (simp only: numeral_2_eq_2)

lemma sample_message_decodes:
  "decode_bounded sample_codec (default_protocol_limits sample_codec) sample_message =
     Inr (DocUpdate CrdtLoro ''a'' [[9, 9], [8]] 7)"
  by (simp add: decode_bounded_def precheck_def precheck_body_def sample_codec_def sample_message_def
      default_protocol_limits_def protocol_enforce_limit_def reader_take_def reader_byte_def reader_var_len_def
      reader_uleb128_def reader_uleb_loop.simps checked_add_def usize_limit_def str_bytes_def Let_def
      precheck_two)

theorem decode_bounded_checked_witness:
  "length sample_message \<le> 1024"
  using decode_bounded_checked [OF sample_message_decodes]
  by (simp add: sample_codec_def)

end
