(* ===== verification/Server.thy ===== *)
theory Server
  imports Protocol Actor_State
begin

text \<open>
  \<open>src/server.rs\<close>: the WebSocket connection of a client. It checks and decodes the messages,
  keeps the rooms the client joined and the fragmented updates that are being put together,
  and passes joins, updates and leaves on to the rooms. A handler returns the connection and
  its effects: what it sends to the client and the commands it dispatches to rooms. Time is
  a number of milliseconds; the hash maps and sets of the code are lists, in the order of
  insertion.
\<close>

section \<open>State\<close>

record server_config =
  sv_protocol_limits :: protocol_limits
  sv_max_fragment_batches :: nat
  sv_max_fragments_per_batch :: u64
  sv_max_reassembled_bytes :: u64
  sv_max_fragment_bytes_per_connection :: u64
  sv_fragment_timeout :: nat

definition default_server_config :: "protocol_codec \<Rightarrow> server_config" where
  "default_server_config c = \<lparr>sv_protocol_limits = default_protocol_limits c,
     sv_max_fragment_batches = 8, sv_max_fragments_per_batch = 4096,
     sv_max_reassembled_bytes = 32 * 1024 * 1024,
     sv_max_fragment_bytes_per_connection = 64 * 1024 * 1024, sv_fragment_timeout = 10000\<rparr>"

type_synonym fragment_key = "string \<times> u64"

record fragment_batch =
  fb_total_size :: u64
  fb_chunks :: "bytes option list"
  fb_received :: nat
  fb_received_bytes :: u64
  fb_deadline :: nat

record connection =
  cn_id :: u64
  cn_peer :: peer
  cn_joined :: "string list"
  cn_fragments :: "(fragment_key \<times> fragment_batch) list"

datatype effect =
    Send outbound
  | Dispatch string command

definition send_status :: "crdt_type \<Rightarrow> string \<Rightarrow> u64 \<Rightarrow> update_status \<Rightarrow> effect" where
  "send_status crdt room_id batch_id status = Send (Protocol (Ack crdt room_id batch_id status))"

section \<open>Fragments\<close>

definition expire_fragments ::
  "nat \<Rightarrow> (fragment_key \<times> fragment_batch) list \<Rightarrow>
   (fragment_key \<times> fragment_batch) list \<times> effect list" where
  "expire_fragments now fragments =
     ([(k, b) \<leftarrow> fragments. \<not> fb_deadline b \<le> now],
      map (\<lambda>((room_id, batch_id), _). send_status CrdtLoro room_id batch_id FragmentTimeout)
        [(k, b) \<leftarrow> fragments. fb_deadline b \<le> now])"

text \<open>The sum of the declared sizes of all batches, \<open>None\<close> when it overflows.\<close>

fun reserved_bytes :: "u64 \<Rightarrow> fragment_batch list \<Rightarrow> u64 option" where
  "reserved_bytes acc [] = Some acc"
| "reserved_bytes acc (b # bs) =
     Option.bind (u64_checked_add acc (fb_total_size b)) (\<lambda>acc. reserved_bytes acc bs)"

definition handle_header ::
  "server_config \<Rightarrow> nat \<Rightarrow> crdt_type \<Rightarrow> string \<Rightarrow> u64 \<Rightarrow> u64 \<Rightarrow> u64 \<Rightarrow> connection \<Rightarrow>
   connection \<times> effect list" where
  "handle_header config now crdt room_id batch_id fragment_count total_size_bytes c =
     (if crdt \<noteq> CrdtLoro \<or> room_id \<notin> set (cn_joined c)
      then (c, [send_status crdt room_id batch_id PermissionDenied]) else
      if fragment_count = 0 \<or> fragment_count > sv_max_fragments_per_batch config \<or>
         total_size_bytes = 0 \<or> total_size_bytes > sv_max_reassembled_bytes config
      then (c, [send_status crdt room_id batch_id PayloadTooLarge]) else
      case map_of (cn_fragments c) (room_id, batch_id) of
        Some existing \<Rightarrow>
          if fb_total_size existing = total_size_bytes \<and>
             u64_of_usize (length (fb_chunks existing)) = Some fragment_count
          then (c, [])
          else (c\<lparr>cn_fragments := AList.delete (room_id, batch_id) (cn_fragments c)\<rparr>,
                [send_status crdt room_id batch_id InvalidUpdate])
      | None \<Rightarrow>
          if length (cn_fragments c) \<ge> sv_max_fragment_batches config
          then (c, [send_status crdt room_id batch_id RateLimited]) else
          if (case Option.bind (reserved_bytes 0 (map snd (cn_fragments c)))
                     (\<lambda>bytes. u64_checked_add bytes total_size_bytes) of
                None \<Rightarrow> True
              | Some bytes \<Rightarrow> bytes > sv_max_fragment_bytes_per_connection config)
          then (c, [send_status crdt room_id batch_id PayloadTooLarge]) else
          (case usize_of_u64 fragment_count of
             None \<Rightarrow> (c, [])
           | Some count \<Rightarrow>
               (c\<lparr>cn_fragments := AList.update (room_id, batch_id)
                    \<lparr>fb_total_size = total_size_bytes, fb_chunks = replicate count None,
                     fb_received = 0, fb_received_bytes = 0,
                     fb_deadline = now + sv_fragment_timeout config\<rparr> (cn_fragments c)\<rparr>, [])))"

text \<open>The chunks in order, unless one is missing.\<close>

fun join_chunks :: "bytes option list \<Rightarrow> bytes option" where
  "join_chunks [] = Some []"
| "join_chunks (None # cs) = None"
| "join_chunks (Some c # cs) = map_option ((@) c) (join_chunks cs)"

text \<open>A batch that has all its chunks is removed and its update dispatched.\<close>

definition complete_batch ::
  "crdt_type \<Rightarrow> string \<Rightarrow> u64 \<Rightarrow> fragment_batch \<Rightarrow> connection \<Rightarrow> connection \<times> effect list" where
  "complete_batch crdt room_id batch_id batch c =
     (let c = c\<lparr>cn_fragments := AList.delete (room_id, batch_id) (cn_fragments c)\<rparr> in
      case join_chunks (fb_chunks batch) of
        None \<Rightarrow> (c, [])
      | Some update \<Rightarrow>
          if u64_of_usize (length update) \<noteq> Some (fb_total_size batch)
          then (c, [send_status crdt room_id batch_id InvalidUpdate])
          else (c, [Dispatch room_id (Update (cn_id c) batch_id [update] (cn_peer c))]))"

definition handle_fragment ::
  "crdt_type \<Rightarrow> string \<Rightarrow> u64 \<Rightarrow> u64 \<Rightarrow> bytes \<Rightarrow> connection \<Rightarrow> connection \<times> effect list" where
  "handle_fragment crdt room_id batch_id index fragment c =
     (let key = (room_id, batch_id);
          removed = c\<lparr>cn_fragments := AList.delete key (cn_fragments c)\<rparr> in
      if crdt \<noteq> CrdtLoro \<or> room_id \<notin> set (cn_joined c)
      then (c, [send_status crdt room_id batch_id PermissionDenied]) else
      case map_of (cn_fragments c) key of
        None \<Rightarrow> (c, [send_status crdt room_id batch_id FragmentTimeout])
      | Some batch \<Rightarrow>
          (case (case usize_of_u64 index of
                   Some i \<Rightarrow> if i < length (fb_chunks batch) then Some i else None
                 | None \<Rightarrow> None) of
             None \<Rightarrow> (c, [send_status crdt room_id batch_id InvalidUpdate])
           | Some i \<Rightarrow>
               (case u64_of_usize (length fragment) of
                  None \<Rightarrow> (removed, [send_status crdt room_id batch_id PayloadTooLarge])
                | Some fragment_len \<Rightarrow>
                    (case fb_chunks batch ! i of
                       Some existing \<Rightarrow>
                         if existing \<noteq> fragment
                         then (removed, [send_status crdt room_id batch_id InvalidUpdate])
                         else (c, [])
                     | None \<Rightarrow>
                         (case u64_checked_add (fb_received_bytes batch) fragment_len of
                            None \<Rightarrow> (removed, [send_status crdt room_id batch_id PayloadTooLarge])
                          | Some received_bytes \<Rightarrow>
                              if received_bytes > fb_total_size batch
                              then (removed, [send_status crdt room_id batch_id InvalidUpdate])
                              else
                                let batch = batch\<lparr>fb_chunks := (fb_chunks batch)[i := Some fragment],
                                      fb_received := usize_saturating_add (fb_received batch) 1,
                                      fb_received_bytes := received_bytes\<rparr>;
                                    c = c\<lparr>cn_fragments := AList.update key batch (cn_fragments c)\<rparr>
                                in if fb_received batch = length (fb_chunks batch)
                                   then complete_batch crdt room_id batch_id batch c
                                   else (c, []))))))"

section \<open>Messages\<close>

definition handle_message ::
  "server_config \<Rightarrow> nat \<Rightarrow> protocol_message \<Rightarrow> connection \<Rightarrow> connection \<times> effect list" where
  "handle_message config now message c =
     (case message of
        JoinRequest crdt room_id version \<Rightarrow>
          if crdt \<noteq> CrdtLoro
          then (c, [Send (Protocol (JoinError crdt room_id JoinAppError
                       ''only %LOR rooms are supported'' None (Some ''unsupported_crdt'')))])
          else (c\<lparr>cn_joined := List.insert room_id (cn_joined c)\<rparr>,
                [Dispatch room_id (Join (cn_id c) version (cn_peer c))])
      | DocUpdate crdt room_id updates batch_id \<Rightarrow>
          if crdt \<noteq> CrdtLoro \<or> room_id \<notin> set (cn_joined c)
          then (c, [send_status crdt room_id batch_id PermissionDenied])
          else (c, [Dispatch room_id (Update (cn_id c) batch_id updates (cn_peer c))])
      | DocUpdateFragmentHeader crdt room_id batch_id fragment_count total_size_bytes \<Rightarrow>
          handle_header config now crdt room_id batch_id fragment_count total_size_bytes c
      | DocUpdateFragment crdt room_id batch_id index fragment \<Rightarrow>
          handle_fragment crdt room_id batch_id index fragment c
      | protocol_message.Leave crdt room_id \<Rightarrow>
          if crdt = CrdtLoro \<and> room_id \<in> set (cn_joined c)
          then (c\<lparr>cn_joined := removeAll room_id (cn_joined c),
                  cn_fragments := [(k, b) \<leftarrow> cn_fragments c. fst k \<noteq> room_id]\<rparr>,
                [Dispatch room_id (command.Leave (cn_id c))])
          else (c, [])
      | _ \<Rightarrow> (c, []))"

text \<open>What arrives on the socket, and the turn of the connection's loop it causes: batches that
  have expired at the time \<open>polled\<close>, before the wait, are dropped, and the event is handled at
  the time \<open>now\<close>, after it. The last component says whether the loop goes on.\<close>

datatype socket_event =
    TextFrame string
  | BinaryFrame bytes
  | CloseFrame
  | SocketError
  | PingFrame
  | PongFrame
  | StreamEnd
  | PollTimeout

definition connection_turn ::
  "protocol_codec \<Rightarrow> server_config \<Rightarrow> nat \<Rightarrow> nat \<Rightarrow> socket_event \<Rightarrow> connection \<Rightarrow>
   connection \<times> effect list \<times> bool" where
  "connection_turn codec config polled now event c =
     (let (fragments, expired) = expire_fragments polled (cn_fragments c);
          c = c\<lparr>cn_fragments := fragments\<rparr> in
      case event of
        TextFrame text \<Rightarrow>
          (c, expired @ (if text = ''ping'' then [Send (Text ''pong'')] else []), True)
      | BinaryFrame bs \<Rightarrow>
          (case decode_bounded codec (sv_protocol_limits config) bs of
             Inl _ \<Rightarrow> (c, expired, True)
           | Inr message \<Rightarrow>
               let (c, effects) = handle_message config now message c in (c, expired @ effects, True))
      | PingFrame \<Rightarrow> (c, expired @ [Send (Text ''pong'')], True)
      | PongFrame \<Rightarrow> (c, expired, True)
      | PollTimeout \<Rightarrow> (c, expired, True)
      | CloseFrame \<Rightarrow> (c, expired, False)
      | SocketError \<Rightarrow> (c, expired, False)
      | StreamEnd \<Rightarrow> (c, expired, False))"

text \<open>The loop over the events with their times, and the leaves at its end.\<close>

fun connection_loop ::
  "protocol_codec \<Rightarrow> server_config \<Rightarrow> (nat \<times> nat \<times> socket_event) list \<Rightarrow> connection \<Rightarrow> effect list" where
  "connection_loop codec config [] c =
     map (\<lambda>room_id. Dispatch room_id (command.Leave (cn_id c))) (cn_joined c)"
| "connection_loop codec config ((polled, now, event) # events) c =
     (let (c, effects, continue) = connection_turn codec config polled now event c
      in effects @ (if continue then connection_loop codec config events c
                    else connection_loop codec config [] c))"

definition connection_new :: "u64 \<Rightarrow> peer \<Rightarrow> connection" where
  "connection_new connection_id peer =
     \<lparr>cn_id = connection_id, cn_peer = peer, cn_joined = [], cn_fragments = []\<rparr>"

end
