(* ===== verification/Server_Fragments.thy ===== *)
theory Server_Fragments
  imports Server
begin

text \<open>
  What a connection keeps about its fragmented updates: the bounds that hold on every
  connection a client can drive, and the reassembly of a fragmented update from fragments in
  any order.
\<close>

section \<open>Batches\<close>

text \<open>The bytes and the number of the chunks received.\<close>

definition chunk_bytes :: "bytes option list \<Rightarrow> nat" where
  "chunk_bytes cs = (\<Sum>c \<leftarrow> cs. case c of None \<Rightarrow> 0 | Some u \<Rightarrow> length u)"

definition chunk_count :: "bytes option list \<Rightarrow> nat" where
  "chunk_count cs = length [c \<leftarrow> cs. c \<noteq> None]"

lemma chunk_simps [simp]:
  "chunk_bytes [] = 0" "chunk_count [] = 0"
  "chunk_bytes (c # cs) = (case c of None \<Rightarrow> 0 | Some u \<Rightarrow> length u) + chunk_bytes cs"
  "chunk_count (c # cs) = (if c = None then 0 else 1) + chunk_count cs"
  "chunk_bytes (replicate n None) = 0" "chunk_count (replicate n None) = 0"
proof -
  show "chunk_bytes (replicate n None) = 0" "chunk_count (replicate n None) = 0"
    by (induction n) (simp_all add: chunk_bytes_def chunk_count_def)
qed (simp_all add: chunk_bytes_def chunk_count_def)

lemma chunk_update:
  assumes "i < length cs" and "cs ! i = None"
  shows "chunk_bytes (cs[i := Some u]) = chunk_bytes cs + length u"
    and "chunk_count (cs[i := Some u]) = Suc (chunk_count cs)"
  using assms by (induction cs arbitrary: i) (auto split: nat.splits)

lemma chunk_count_le: "chunk_count cs \<le> length cs"
  by (simp add: chunk_count_def)

lemma chunk_count_all: "chunk_count cs = length cs \<longleftrightarrow> None \<notin> set cs"
proof (induction cs)
  case (Cons c cs)
  with chunk_count_le [of cs] show ?case by auto
qed simp

lemma join_chunks_eq:
  "join_chunks cs = (if None \<in> set cs then None else Some (concat (map the cs)))"
  by (induction cs rule: join_chunks.induct) auto

lemma length_join_chunks: "None \<notin> set cs \<Longrightarrow> length (concat (map the cs)) = chunk_bytes cs"
  by (induction cs) (auto split: option.splits)

text \<open>A batch under way is within its declaration and not complete.\<close>

definition batch_ok :: "server_config \<Rightarrow> fragment_batch \<Rightarrow> bool" where
  "batch_ok config b \<longleftrightarrow>
     0 < fb_total_size b \<and> fb_total_size b \<le> sv_max_reassembled_bytes config \<and>
     length (fb_chunks b) \<le> unat (sv_max_fragments_per_batch config) \<and>
     fb_received b = chunk_count (fb_chunks b) \<and> fb_received b < length (fb_chunks b) \<and>
     unat (fb_received_bytes b) = chunk_bytes (fb_chunks b) \<and>
     fb_received_bytes b \<le> fb_total_size b"

text \<open>The sum of the declared sizes.\<close>

definition reserved :: "(fragment_key \<times> fragment_batch) list \<Rightarrow> nat" where
  "reserved fs = (\<Sum>(k, b) \<leftarrow> fs. unat (fb_total_size b))"

lemma reserved_simps [simp]:
  "reserved [] = 0" "reserved ((k, b) # fs) = unat (fb_total_size b) + reserved fs"
  by (simp_all add: reserved_def)

lemma reserved_bytes_Some:
  "reserved_bytes acc (map snd fs) = Some n \<Longrightarrow> unat n = unat acc + reserved fs"
  by (induction fs arbitrary: acc) (fastforce simp: bind_eq_Some_conv dest!: u64_checked_add_unat)+

lemma reserved_bytes_run:
  "unat acc + reserved fs < 2 ^ 64 \<Longrightarrow> \<exists>n. reserved_bytes acc (map snd fs) = Some n"
proof (induction fs arbitrary: acc)
  case (Cons f fs)
  obtain k b where f: "f = (k, b)" by (cases f)
  have "u64_checked_add acc (fb_total_size b) = Some (acc + fb_total_size b)"
    using Cons.prems by (simp add: f u64_checked_add_def)
  moreover from u64_checked_add_unat [OF this]
  have "unat (acc + fb_total_size b) + reserved fs < 2 ^ 64"
    using Cons.prems by (simp add: f)
  ultimately show ?case using Cons.IH by (simp add: f)
qed simp

lemma reserved_filter: "reserved (filter P fs) \<le> reserved fs"
  by (induction fs) auto

lemma reserved_update_new: "map_of fs k = None \<Longrightarrow> reserved (AList.update k b fs) = reserved fs + unat (fb_total_size b)"
  by (induction fs) (auto split: if_splits)

lemma reserved_update_same:
  "map_of fs k = Some old \<Longrightarrow> fb_total_size b = fb_total_size old \<Longrightarrow> reserved (AList.update k b fs) = reserved fs"
  by (induction fs) (auto split: if_splits)

lemma length_update_new: "map_of fs k = None \<Longrightarrow> length (AList.update k b fs) = Suc (length fs)"
  by (induction fs) (auto split: if_splits)

lemma length_update_same: "map_of fs k = Some old \<Longrightarrow> length (AList.update k b fs) = length fs"
  by (induction fs) (auto split: if_splits)

lemma set_update_subset: "set (AList.update k b fs) \<subseteq> insert (k, b) (set fs)"
  by (induction fs) auto

section \<open>The invariant of a connection\<close>

definition connection_ok :: "server_config \<Rightarrow> connection \<Rightarrow> bool" where
  "connection_ok config c \<longleftrightarrow>
     distinct (cn_joined c) \<and> distinct (map fst (cn_fragments c)) \<and>
     length (cn_fragments c) \<le> sv_max_fragment_batches config \<and>
     reserved (cn_fragments c) \<le> unat (sv_max_fragment_bytes_per_connection config) \<and>
     (\<forall>(k, b) \<in> set (cn_fragments c). fst k \<in> set (cn_joined c) \<and> batch_ok config b)"

lemma connection_ok_filter:
  assumes "connection_ok config c"
  shows "connection_ok config (c\<lparr>cn_fragments := filter P (cn_fragments c)\<rparr>)"
proof -
  have "length (filter P (cn_fragments c)) \<le> sv_max_fragment_batches config"
    using assms length_filter_le [of P "cn_fragments c"] unfolding connection_ok_def by linarith
  with assms reserved_filter [of P "cn_fragments c"] show ?thesis
    by (auto simp: connection_ok_def intro: distinct_map_filter)
qed

lemma delete_as_filter: "AList.delete k fs = filter (\<lambda>(k', _). k' \<noteq> k) fs"
  by (auto simp: AList.delete_eq intro!: filter_cong)

lemma filter_update [simp]:
  "filter (\<lambda>(k', _). k' \<noteq> k) (AList.update k v fs) = filter (\<lambda>(k', _). k' \<noteq> k) fs"
  by (induction fs) auto

lemma handle_header_ok:
  assumes ok: "connection_ok config c" and run: "handle_header config now crdt room b n ts c = (c', es)"
  shows "connection_ok config c'"
proof (cases "\<exists>bytes count. c' \<noteq> c \<and> map_of (cn_fragments c) (room, b) = None \<and> room \<in> set (cn_joined c)")
  case False
  with run ok connection_ok_filter [OF ok] show ?thesis
    by (auto simp: handle_header_def delete_as_filter split: if_splits option.splits)
next
  case True
  let ?new = "\<lparr>fb_total_size = ts, fb_chunks = replicate (unat n) None, fb_received = 0,
    fb_received_bytes = 0, fb_deadline = now + sv_fragment_timeout config\<rparr>"
  from True run obtain r s where c': "c' = c\<lparr>cn_fragments := AList.update (room, b) ?new (cn_fragments c)\<rparr>"
    and none: "map_of (cn_fragments c) (room, b) = None" and joined: "room \<in> set (cn_joined c)"
    and n: "n \<noteq> 0" "n \<le> sv_max_fragments_per_batch config" and ts: "ts \<noteq> 0" "ts \<le> sv_max_reassembled_bytes config"
    and len: "length (cn_fragments c) < sv_max_fragment_batches config"
    and r: "reserved_bytes 0 (map snd (cn_fragments c)) = Some r" "u64_checked_add r ts = Some s"
      "s \<le> sv_max_fragment_bytes_per_connection config"
    by (auto simp: handle_header_def not_le not_less bind_eq_Some_conv split: if_splits option.splits)
  have sum: "unat s = reserved (cn_fragments c) + unat ts"
    using reserved_bytes_Some [OF r(1)] u64_checked_add_unat [OF r(2)] by simp
  have "batch_ok config ?new"
    using n ts by (auto simp: batch_ok_def word_le_nat_alt word_gt_0 unat_gt_0)
  moreover have "reserved (AList.update (room, b) ?new (cn_fragments c)) \<le>
      unat (sv_max_fragment_bytes_per_connection config)"
    using sum r(3) by (simp add: reserved_update_new [OF none] word_le_nat_alt)
  moreover have "length (AList.update (room, b) ?new (cn_fragments c)) \<le> sv_max_fragment_batches config"
    using len by (simp add: length_update_new [OF none])
  ultimately show ?thesis
    using ok joined set_update_subset [of "(room, b)" ?new "cn_fragments c"]
    unfolding connection_ok_def c' by (auto intro: distinct_update)
qed

lemma handle_fragment_ok:
  assumes ok: "connection_ok config c" and run: "handle_fragment crdt room b index u c = (c', es)"
  shows "connection_ok config c'"
proof (cases "map_of (cn_fragments c) (room, b)")
  case None
  with ok run show ?thesis by (auto simp: handle_fragment_def Let_def split: if_splits)
next
  case (Some old)
  let ?removed = "c\<lparr>cn_fragments := filter (\<lambda>(k, _). k \<noteq> (room, b)) (cn_fragments c)\<rparr>"
  have removed: "connection_ok config ?removed"
    by (rule connection_ok_filter [OF ok])
  have mem: "((room, b), old) \<in> set (cn_fragments c)"
    using Some by (rule map_of_SomeD)
  then have old: "batch_ok config old" and joined: "room \<in> set (cn_joined c)"
    using ok by (auto simp: connection_ok_def)
  let ?i = "unat index"
  let ?new = "old\<lparr>fb_chunks := (fb_chunks old)[?i := Some u],
    fb_received := usize_saturating_add (fb_received old) 1,
    fb_received_bytes := fb_received_bytes old + of_nat (length u)\<rparr>"
  let ?updated = "c\<lparr>cn_fragments := AList.update (room, b) ?new (cn_fragments c)\<rparr>"
  have step: "?i < length (fb_chunks old) \<and> fb_chunks old ! ?i = None \<and> length u < 2 ^ 64 \<and>
      unat (fb_received_bytes old) + length u < 2 ^ 64 \<and> fb_received_bytes ?new \<le> fb_total_size old \<and>
      fb_received ?new \<noteq> length (fb_chunks old) \<and> c' = ?updated" if "c' \<notin> {c, ?removed}"
    using run Some that
    by (auto simp: handle_fragment_def complete_batch_def Let_def u64_checked_add_Some_iff u64_of_usize_Some_iff
        delete_update_same delete_as_filter unat_of_nat not_less split: if_splits option.splits)
  show ?thesis
  proof (cases "c' \<in> {c, ?removed}")
    case True
    with ok removed show ?thesis by auto
  next
    case False
    note st = step [OF False]
    have cnt: "chunk_count (fb_chunks old) < length (fb_chunks old)" "length (fb_chunks old) < usize_limit"
      using old unat64_less [of "sv_max_fragments_per_batch config"] unfolding batch_ok_def by linarith+
    from cnt have "Suc (chunk_count (fb_chunks old)) \<le> usize_limit - 1" by linarith
    then have rcv: "fb_received ?new = Suc (chunk_count (fb_chunks old))"
      using old by (simp add: batch_ok_def usize_saturating_add_def)
    have "unat (of_nat (length u) :: u64) = length u"
      using st by (simp add: unat_of_nat)
    then have "unat (fb_received_bytes ?new) = chunk_bytes (fb_chunks old) + length u"
      using st old unat_add_lem [of "fb_received_bytes old" "of_nat (length u)"] by (simp add: batch_ok_def)
    then have "batch_ok config ?new"
      using old st rcv cnt chunk_update [of ?i "fb_chunks old" u] by (simp add: batch_ok_def)
    moreover have "reserved (AList.update (room, b) ?new (cn_fragments c)) = reserved (cn_fragments c)"
      by (rule reserved_update_same [OF Some]) simp
    moreover have "length (AList.update (room, b) ?new (cn_fragments c)) = length (cn_fragments c)"
      by (rule length_update_same [OF Some])
    ultimately show ?thesis
      using ok joined st set_update_subset [of "(room, b)" ?new "cn_fragments c"]
      unfolding connection_ok_def by (auto intro: distinct_update)
  qed
qed

lemma handle_message_ok:
  assumes ok: "connection_ok config c" and run: "handle_message config now m c = (c', es)"
  shows "connection_ok config c'"
proof (cases m)
  case (DocUpdateFragmentHeader crdt room b n ts)
  with run show ?thesis by (auto simp: handle_message_def intro: handle_header_ok [OF ok])
next
  case (DocUpdateFragment crdt room b i u)
  with run show ?thesis by (auto simp: handle_message_def intro: handle_fragment_ok [OF ok])
next
  case (Leave crdt room)
  have "connection_ok config (c\<lparr>cn_fragments := filter (\<lambda>(k, b). fst k \<noteq> room) (cn_fragments c)\<rparr>)"
    by (rule connection_ok_filter [OF ok])
  with run ok Leave show ?thesis
    by (fastforce simp: handle_message_def connection_ok_def distinct_removeAll split: if_splits)
qed (use run ok in \<open>fastforce simp: handle_message_def connection_ok_def split: if_splits\<close>)+

lemma connection_turn_ok:
  assumes ok: "connection_ok config c" and run: "connection_turn codec config polled now event c = (c', es, go)"
  shows "connection_ok config c'"
proof -
  let ?c = "c\<lparr>cn_fragments := filter (\<lambda>(k, b). \<not> fb_deadline b \<le> polled) (cn_fragments c)\<rparr>"
  have e: "connection_ok config ?c"
    by (rule connection_ok_filter [OF ok])
  show ?thesis
    using run e handle_message_ok [OF e]
    by (cases event) (auto simp: connection_turn_def expire_fragments_def Let_def split: sum.splits prod.splits)
qed

text \<open>The connections a client can drive: any events at any times.\<close>

inductive connection_run :: "protocol_codec \<Rightarrow> server_config \<Rightarrow> connection \<Rightarrow> bool"
  for codec config where
  open_connection: "connection_run codec config (connection_new connection_id peer)"
| turn: "connection_run codec config c \<Longrightarrow>
     connection_run codec config (fst (connection_turn codec config polled now event c))"

lemma connection_run_ok: "connection_run codec config c \<Longrightarrow> connection_ok config c"
proof (induction rule: connection_run.induct)
  case (open_connection connection_id peer)
  show ?case by (simp add: connection_ok_def connection_new_def)
next
  case (turn c polled now event)
  obtain c' es go where "connection_turn codec config polled now event c = (c', es, go)"
    by (metis prod_cases3)
  with connection_turn_ok [OF turn.IH this] show ?case by simp
qed

section \<open>Reassembly\<close>

text \<open>A batch of which the fragments in \<open>S\<close> of the chunks \<open>cs\<close> have arrived.\<close>

definition received_of :: "bytes list \<Rightarrow> nat set \<Rightarrow> bytes option list" where
  "received_of cs S = map (\<lambda>i. if i \<in> S then Some (cs ! i) else None) [0..<length cs]"

definition in_progress ::
  "string \<Rightarrow> u64 \<Rightarrow> bytes list \<Rightarrow> nat \<Rightarrow> fragment_key set \<Rightarrow> nat set \<Rightarrow> connection \<Rightarrow> bool" where
  "in_progress room b cs d K S c \<longleftrightarrow> room \<in> set (cn_joined c) \<and>
     (\<forall>(k, x) \<in> set (cn_fragments c). if k = (room, b) then fb_deadline x = d else k \<in> K) \<and>
     (\<exists>batch. map_of (cn_fragments c) (room, b) = Some batch \<and> fb_chunks batch = received_of cs S \<and>
       unat (fb_total_size batch) = length (concat cs) \<and> fb_received batch = chunk_count (received_of cs S) \<and>
       unat (fb_received_bytes batch) = chunk_bytes (received_of cs S))"

lemma length_received_of [simp]: "length (received_of cs S) = length cs"
  by (simp add: received_of_def)

lemma received_of_nth [simp]: "i < length cs \<Longrightarrow> received_of cs S ! i = (if i \<in> S then Some (cs ! i) else None)"
  by (simp add: received_of_def)

lemma received_of_insert: "i < length cs \<Longrightarrow> (received_of cs S)[i := Some (cs ! i)] = received_of cs (insert i S)"
  by (intro nth_equalityI) (auto simp: nth_list_update)

lemma received_of_all: "received_of cs {..<length cs} = map Some cs"
  by (intro nth_equalityI) auto

lemma received_of_none: "received_of cs {} = replicate (length cs) None"
  by (intro nth_equalityI) auto

lemma chunk_bytes_mono:
  "list_all2 (\<lambda>x y. x = None \<or> x = y) xs ys \<Longrightarrow> chunk_bytes xs \<le> chunk_bytes ys"
  by (induction rule: list_all2_induct) (auto split: option.splits)

lemma chunk_bytes_le: "chunk_bytes (received_of cs S) \<le> length (concat cs)"
proof -
  have "list_all2 (\<lambda>x y. x = None \<or> x = y) (received_of cs S) (map Some cs)"
    by (auto simp: list_all2_conv_all_nth)
  then have "chunk_bytes (received_of cs S) \<le> chunk_bytes (map Some cs)"
    by (rule chunk_bytes_mono)
  also have "chunk_bytes (map Some cs) = length (concat cs)"
    by (induction cs) auto
  finally show ?thesis .
qed

lemma received_of_complete:
  "S \<subseteq> {..<length cs} \<Longrightarrow> chunk_count (received_of cs S) = length cs \<longleftrightarrow> S = {..<length cs}"
  using chunk_count_all [of "received_of cs S"] by (auto simp: in_set_conv_nth subset_iff)

lemma update_entries:
  "\<forall>(k, x) \<in> set xs. P k x \<Longrightarrow> P k' v \<Longrightarrow> \<forall>(k, x) \<in> set (AList.update k' v xs). P k x"
  by (induction xs) auto

text \<open>Expired batches go, this one stays before its deadline.\<close>

lemma in_progress_expire:
  assumes "in_progress room b cs d K S c" and "polled < d"
  shows "in_progress room b cs d K S (c\<lparr>cn_fragments := fst (expire_fragments polled (cn_fragments c))\<rparr>) \<and>
    (\<exists>ks. set ks \<subseteq> K \<and> snd (expire_fragments polled (cn_fragments c)) =
      map (\<lambda>k. send_status CrdtLoro (fst k) (snd k) FragmentTimeout) ks)"
proof -
  let ?fs = "cn_fragments c"
  have entries: "\<forall>(k, x) \<in> set ?fs. if k = (room, b) then fb_deadline x = d else k \<in> K"
    using assms(1) by (simp add: in_progress_def)
  have "map_of [(k, x) \<leftarrow> fs. \<not> fb_deadline x \<le> polled] key = Some batch"
    if "map_of fs key = Some batch" "\<not> fb_deadline batch \<le> polled" for fs key batch
    using that by (induction fs) (auto split: if_splits)
  moreover have "\<not> fb_deadline batch \<le> polled" if "map_of ?fs (room, b) = Some batch" for batch
    using entries map_of_SomeD [OF that] assms(2) by auto
  ultimately have "map_of ?fs (room, b) = Some batch \<Longrightarrow>
      map_of (fst (expire_fragments polled ?fs)) (room, b) = Some batch" for batch
    by (simp add: expire_fragments_def)
  moreover have "set (fst (expire_fragments polled ?fs)) \<subseteq> set ?fs"
    by (auto simp: expire_fragments_def)
  ultimately have "in_progress room b cs d K S (c\<lparr>cn_fragments := fst (expire_fragments polled ?fs)\<rparr>)"
    using assms(1) unfolding in_progress_def by fastforce
  moreover have "set (map fst [(k, x) \<leftarrow> ?fs. fb_deadline x \<le> polled]) \<subseteq> K"
    using entries assms(2) by (auto split: if_splits)
  then have "\<exists>ks. set ks \<subseteq> K \<and> snd (expire_fragments polled ?fs) =
      map (\<lambda>k. send_status CrdtLoro (fst k) (snd k) FragmentTimeout) ks"
    by (intro exI [of _ "map fst [(k, x) \<leftarrow> ?fs. fb_deadline x \<le> polled]"])
      (simp add: expire_fragments_def comp_def case_prod_unfold)
  ultimately show ?thesis by blast
qed

text \<open>One more fragment, in any position that is still missing.\<close>

lemma fragment_step:
  assumes prog: "in_progress room b cs d K S c" and i: "i < length cs" "i \<notin> S" and S: "S \<subseteq> {..<length cs}"
    and small: "length cs < usize_limit" "length (concat cs) < usize_limit"
  shows "if insert i S = {..<length cs}
    then handle_fragment CrdtLoro room b (of_nat i) (cs ! i) c =
      (c\<lparr>cn_fragments := AList.delete (room, b) (cn_fragments c)\<rparr>,
       [Dispatch room (Update (cn_id c) b [concat cs] (cn_peer c))])
    else \<exists>c'. handle_fragment CrdtLoro room b (of_nat i) (cs ! i) c = (c', []) \<and>
      in_progress room b cs d K (insert i S) c' \<and> cn_id c' = cn_id c \<and> cn_peer c' = cn_peer c"
proof -
  from prog obtain batch where batch: "map_of (cn_fragments c) (room, b) = Some batch"
    and chunks: "fb_chunks batch = received_of cs S" and tot: "unat (fb_total_size batch) = length (concat cs)"
    and rcv: "fb_received batch = chunk_count (received_of cs S)"
    and bts: "unat (fb_received_bytes batch) = chunk_bytes (received_of cs S)"
    and joined: "room \<in> set (cn_joined c)"
    and entries: "\<forall>(k, x) \<in> set (cn_fragments c). if k = (room, b) then fb_deadline x = d else k \<in> K"
    by (auto simp: in_progress_def)
  have due: "fb_deadline batch = d"
    using entries map_of_SomeD [OF batch] by auto
  have idx: "unat (of_nat i :: u64) = i"
    using i small by (simp add: unat_of_nat usize_limit_def)
  have none: "received_of cs S ! i = None" using i by simp
  note upd = chunk_update [of i "received_of cs S" "cs ! i"]
  have ins: "(received_of cs S)[i := Some (cs ! i)] = received_of cs (insert i S)"
    by (rule received_of_insert [OF i(1)])
  have sum: "chunk_bytes (received_of cs (insert i S)) = chunk_bytes (received_of cs S) + length (cs ! i)"
    and cnt: "chunk_count (received_of cs (insert i S)) = Suc (chunk_count (received_of cs S))"
    using upd i none by (simp_all add: ins)
  have le: "chunk_bytes (received_of cs (insert i S)) \<le> length (concat cs)"
    by (rule chunk_bytes_le)
  have ulen: "length (cs ! i) < 2 ^ 64" "unat (of_nat (length (cs ! i)) :: u64) = length (cs ! i)"
    using le sum small by (auto simp: unat_of_nat usize_limit_def)
  have add: "u64_checked_add (fb_received_bytes batch) (of_nat (length (cs ! i))) =
      Some (fb_received_bytes batch + of_nat (length (cs ! i)))"
    using le sum small bts ulen by (simp add: u64_checked_add_def usize_limit_def)
  have addn: "unat (fb_received_bytes batch + of_nat (length (cs ! i))) = chunk_bytes (received_of cs (insert i S))"
    using u64_checked_add_unat [OF add] ulen bts sum by simp
  have fit: "\<not> fb_received_bytes batch + of_nat (length (cs ! i)) > fb_total_size batch"
    using addn le tot by (simp add: word_less_nat_alt)
  have "Suc (chunk_count (received_of cs S)) \<le> length cs"
    using chunk_count_le [of "received_of cs (insert i S)"] cnt by simp
  then have sat: "usize_saturating_add (fb_received batch) 1 = chunk_count (received_of cs (insert i S))"
    using small rcv cnt by (simp add: usize_saturating_add_def)
  let ?new = "batch\<lparr>fb_chunks := received_of cs (insert i S),
    fb_received := chunk_count (received_of cs (insert i S)),
    fb_received_bytes := fb_received_bytes batch + of_nat (length (cs ! i))\<rparr>"
  let ?c = "c\<lparr>cn_fragments := AList.update (room, b) ?new (cn_fragments c)\<rparr>"
  have run: "handle_fragment CrdtLoro room b (of_nat i) (cs ! i) c =
      (if chunk_count (received_of cs (insert i S)) = length cs then complete_batch CrdtLoro room b ?new ?c
       else (?c, []))"
    using joined batch chunks idx i none ulen add fit sat ins
    by (simp add: handle_fragment_def Let_def u64_of_usize_def)
  have cmp: "chunk_count (received_of cs (insert i S)) = length cs \<longleftrightarrow> insert i S = {..<length cs}"
    by (rule received_of_complete) (use S i in auto)
  show ?thesis
  proof (cases "insert i S = {..<length cs}")
    case True
    have "map the (received_of cs {..<length cs}) = cs" "None \<notin> set (received_of cs {..<length cs})"
      by (simp_all add: received_of_all comp_def image_iff)
    moreover have "u64_of_usize (length (concat cs)) = Some (fb_total_size batch)"
      by (simp add: tot [symmetric] del: length_concat)
    ultimately show ?thesis
      using run cmp True
      by (simp add: complete_batch_def Let_def join_chunks_eq delete_update_same del: length_concat)
  next
    case False
    with run cmp have "handle_fragment CrdtLoro room b (of_nat i) (cs ! i) c = (?c, [])" by simp
    moreover have "in_progress room b cs d K (insert i S) ?c"
      using joined tot addn due update_entries [OF entries, of "(room, b)" ?new]
      by (simp add: in_progress_def update_conv')
    ultimately show ?thesis using False by simp
  qed
qed

text \<open>
  The turns of the loop for several messages, each with the time its wait began, at which
  expired batches are dropped, and the time it is handled: \<open>connection_turn\<close> for binary frames
  that decode to these messages.
\<close>

fun handle_messages ::
  "server_config \<Rightarrow> (nat \<times> nat \<times> protocol_message) list \<Rightarrow> connection \<Rightarrow> connection \<times> effect list" where
  "handle_messages config [] c = (c, [])"
| "handle_messages config ((polled, now, m) # ms) c =
     (let (fragments, expired) = expire_fragments polled (cn_fragments c);
          (c, es) = handle_message config now m (c\<lparr>cn_fragments := fragments\<rparr>);
          (c, es') = handle_messages config ms c
      in (c, expired @ es @ es'))"

lemma connection_turn_messages:
  assumes "decode_bounded codec (sv_protocol_limits config) bs = Inr m"
  shows "connection_turn codec config polled now (BinaryFrame bs) c =
    (let (c, es) = handle_messages config [(polled, now, m)] c in (c, es, True))"
  using assms by (simp add: connection_turn_def split: prod.splits)

lemma fragments_complete:
  assumes "in_progress room b cs d K S c" and "distinct order" and "set order \<inter> S = {}"
    and "set order \<union> S = {..<length cs}" and "order \<noteq> []"
    and small: "length cs < usize_limit" "length (concat cs) < usize_limit"
    and "map (\<lambda>(_, _, m). m) ms = map (\<lambda>i. DocUpdateFragment CrdtLoro room b (of_nat i) (cs ! i)) order"
    and "\<forall>x \<in> set ms. fst x < d"
  shows "\<exists>c' ks. handle_messages config ms c =
      (c', map (\<lambda>k. send_status CrdtLoro (fst k) (snd k) FragmentTimeout) ks @
        [Dispatch room (Update (cn_id c) b [concat cs] (cn_peer c))]) \<and>
    set ks \<subseteq> K \<and> map_of (cn_fragments c') (room, b) = None"
  using assms(1-5,8,9)
proof (induction order arbitrary: S c ms)
  case (Cons i order)
  from Cons.prems(6) obtain p t ms' where ms: "ms = (p, t, DocUpdateFragment CrdtLoro room b (of_nat i) (cs ! i)) # ms'"
    "map (\<lambda>(_, _, m). m) ms' = map (\<lambda>i. DocUpdateFragment CrdtLoro room b (of_nat i) (cs ! i)) order"
    by (cases ms) auto
  have times: "p < d" "\<forall>x \<in> set ms'. fst x < d"
    using Cons.prems(7) by (simp_all add: ms(1))
  have i: "i < length cs" "i \<notin> S" and S: "S \<subseteq> {..<length cs}"
    using Cons.prems(3,4) by auto
  obtain fs expired where ex: "expire_fragments p (cn_fragments c) = (fs, expired)" by fastforce
  let ?c = "c\<lparr>cn_fragments := fs\<rparr>"
  obtain ks where prog: "in_progress room b cs d K S ?c" and ks: "set ks \<subseteq> K"
    "expired = map (\<lambda>k. send_status CrdtLoro (fst k) (snd k) FragmentTimeout) ks"
    using in_progress_expire [OF Cons.prems(1) times(1)] by (auto simp: ex)
  note step = fragment_step [OF prog i S small]
  show ?case
  proof (cases "order = []")
    case True
    with Cons.prems(4) have all: "insert i S = {..<length cs}" by simp
    have run: "handle_fragment CrdtLoro room b (of_nat i) (cs ! i) ?c =
        (?c\<lparr>cn_fragments := AList.delete (room, b) fs\<rparr>,
         [Dispatch room (Update (cn_id c) b [concat cs] (cn_peer c))])"
      using step unfolding all if_P [OF refl] by simp
    have "ms' = []" using ms(2) True by simp
    then show ?thesis
      using ms(1) run ks by (simp add: ex handle_message_def delete_conv') blast
  next
    case False
    then obtain j where j: "j \<in> set order" by (cases order) auto
    then have "j \<in> {..<length cs}" using Cons.prems(4) by (metis UnI1 list.set_intros(2))
    moreover have "j \<notin> insert i S" using Cons.prems(2,3) j by auto
    ultimately have "insert i S \<noteq> {..<length cs}" by blast
    with step obtain c' where c': "handle_fragment CrdtLoro room b (of_nat i) (cs ! i) ?c = (c', [])"
      "in_progress room b cs d K (insert i S) c'" "cn_id c' = cn_id c" "cn_peer c' = cn_peer c" by auto
    have "distinct order" and "set order \<inter> insert i S = {}" and "set order \<union> insert i S = {..<length cs}"
      using Cons.prems(2,3) by (auto simp flip: Cons.prems(4))
    from Cons.IH [OF c'(2) this False ms(2) times(2)] obtain c'' ks' where
      "handle_messages config ms' c' =
        (c'', map (\<lambda>k. send_status CrdtLoro (fst k) (snd k) FragmentTimeout) ks' @
          [Dispatch room (Update (cn_id c') b [concat cs] (cn_peer c'))])"
      "set ks' \<subseteq> K" "map_of (cn_fragments c'') (room, b) = None" by auto
    with c' ms ks show ?thesis
      by (intro exI [of _ c''] exI [of _ "ks @ ks'"]) (simp add: ex handle_message_def)
  qed
qed simp

text \<open>What a wait leaves of the batches, and what it tells the client.\<close>

lemma expire_shrinks:
  fixes polled fs defines "fs' \<equiv> fst (expire_fragments polled fs)"
  shows "fst ` set fs' \<subseteq> fst ` set fs" "length fs' \<le> length fs" "reserved fs' \<le> reserved fs"
    "map_of fs k = None \<Longrightarrow> map_of fs' k = None"
    "\<exists>ks. set ks \<subseteq> fst ` set fs \<and> snd (expire_fragments polled fs) =
      map (\<lambda>k. send_status CrdtLoro (fst k) (snd k) FragmentTimeout) ks"
proof -
  have fs': "fs' = [(k, x) \<leftarrow> fs. \<not> fb_deadline x \<le> polled]"
    by (simp add: fs'_def expire_fragments_def)
  show keys: "fst ` set fs' \<subseteq> fst ` set fs" and "length fs' \<le> length fs"
    by (auto simp: fs')
  show "reserved fs' \<le> reserved fs"
    unfolding fs' by (induction fs) auto
  show "map_of fs' k = None" if "map_of fs k = None"
    using that keys by (auto simp: map_of_eq_None_iff)
  show "\<exists>ks. set ks \<subseteq> fst ` set fs \<and> snd (expire_fragments polled fs) =
      map (\<lambda>k. send_status CrdtLoro (fst k) (snd k) FragmentTimeout) ks"
    by (intro exI [of _ "map fst [(k, x) \<leftarrow> fs. fb_deadline x \<le> polled]"])
      (auto simp: expire_fragments_def comp_def case_prod_unfold)
qed

lemma header_step:
  assumes "room \<in> set (cn_joined c)" and "map_of (cn_fragments c) (room, b) = None" and "cs \<noteq> []"
    and "concat cs \<noteq> []" and "length cs \<le> unat (sv_max_fragments_per_batch config)"
    and "length (concat cs) \<le> unat (sv_max_reassembled_bytes config)"
    and "length (cn_fragments c) < sv_max_fragment_batches config"
    and "reserved (cn_fragments c) + length (concat cs) \<le> unat (sv_max_fragment_bytes_per_connection config)"
  shows "\<exists>c'. handle_header config now CrdtLoro room b (of_nat (length cs)) (of_nat (length (concat cs))) c = (c', []) \<and>
    in_progress room b cs (now + sv_fragment_timeout config) (fst ` set (cn_fragments c)) {} c' \<and>
    cn_id c' = cn_id c \<and> cn_peer c' = cn_peer c"
proof -
  let ?n = "of_nat (length cs) :: u64" and ?t = "of_nat (length (concat cs)) :: u64"
  have lims: "length cs < 2 ^ 64" "length (concat cs) < 2 ^ 64"
    "reserved (cn_fragments c) + length (concat cs) < 2 ^ 64"
    using assms(5,6,8) unat_bound [of "sv_max_fragments_per_batch config"]
      unat_bound [of "sv_max_reassembled_bytes config"]
      unat_bound [of "sv_max_fragment_bytes_per_connection config"] by (simp_all del: length_concat)
  then have n: "unat ?n = length cs" and t: "unat ?t = length (concat cs)"
    by (simp_all add: unat_of_nat del: length_concat)
  let ?new = "\<lparr>fb_total_size = ?t, fb_chunks = replicate (length cs) None, fb_received = 0, fb_received_bytes = 0,
    fb_deadline = now + sv_fragment_timeout config\<rparr>"
  have entries: "\<forall>(k, x) \<in> set (AList.update (room, b) ?new (cn_fragments c)).
      if k = (room, b) then fb_deadline x = now + sv_fragment_timeout config else k \<in> fst ` set (cn_fragments c)"
  proof (rule update_entries)
    show "\<forall>(k, x) \<in> set (cn_fragments c).
        if k = (room, b) then fb_deadline x = now + sv_fragment_timeout config else k \<in> fst ` set (cn_fragments c)"
      using assms(2) by (force simp: map_of_eq_None_iff)
  qed simp
  have pos: "0 < length cs" "0 < length (concat cs)"
    unfolding length_greater_0_conv by (fact assms(3)) (fact assms(4))
  have "?n \<noteq> 0" "?t \<noteq> 0"
    using n t pos by (metis unat_0 less_irrefl)+
  moreover have "\<not> ?n > sv_max_fragments_per_batch config" "\<not> ?t > sv_max_reassembled_bytes config"
    using assms(5,6) n t by (simp_all add: word_less_nat_alt)
  moreover obtain r where r: "reserved_bytes 0 (map snd (cn_fragments c)) = Some r"
    "unat r = reserved (cn_fragments c)"
    using reserved_bytes_run [of 0 "cn_fragments c"] lims reserved_bytes_Some [of 0 "cn_fragments c"] by fastforce
  moreover have add: "u64_checked_add r ?t = Some (r + ?t)"
    using lims r t by (simp add: u64_checked_add_def del: length_concat)
  moreover have "\<not> r + ?t > sv_max_fragment_bytes_per_connection config"
    using u64_checked_add_unat [OF add] r t assms(8) by (simp add: word_less_nat_alt)
  ultimately show ?thesis
    using assms(1,2,7) n t entries
    by (simp add: handle_header_def in_progress_def update_conv' received_of_none del: length_concat)
qed

section \<open>What is dispatched to the rooms\<close>

lemma handle_message_dispatch:
  assumes "handle_message config now m c = (c', es)" and "Dispatch room (Update connection_id b us p) \<in> set es"
  shows "room \<in> set (cn_joined c) \<and> connection_id = cn_id c \<and> p = cn_peer c \<and>
    (\<exists>crdt. m = DocUpdate crdt room us b \<or> (\<exists>i u. m = DocUpdateFragment crdt room b i u \<and> length us = 1))"
  using assms
  by (cases m) (auto simp: handle_message_def handle_header_def handle_fragment_def complete_batch_def
      send_status_def Let_def split: if_splits option.splits)

lemma handle_message_id [simp]:
  assumes "handle_message config now m c = (c', es)"
  shows "cn_id c' = cn_id c" "cn_peer c' = cn_peer c"
  using assms
  by (cases m; auto simp: handle_message_def handle_header_def handle_fragment_def complete_batch_def
      Let_def split: if_splits option.splits)+

lemma expire_no_dispatch [simp]: "Dispatch r k \<notin> set (snd (expire_fragments now fs))"
  by (auto simp: expire_fragments_def send_status_def)

text \<open>A room stays joined until its leave is dispatched, and a join makes it joined.\<close>

lemma handle_message_joined:
  assumes "handle_message config now m c = (c', es)"
  shows "room \<in> set (cn_joined c) \<Longrightarrow> room \<in> set (cn_joined c') \<or> Dispatch room (command.Leave (cn_id c)) \<in> set es"
    and "Dispatch room (Join i v p) \<in> set es \<Longrightarrow>
      room \<in> set (cn_joined c') \<and> es = [Dispatch room (Join i v p)]"
  using assms
  by (cases m; auto simp: handle_message_def handle_header_def handle_fragment_def complete_batch_def
      send_status_def Let_def split: if_splits option.splits)+

lemma connection_turn_cases:
  assumes "connection_turn codec config polled now event c = (c', es, go)"
  obtains (quiet) "cn_joined c' = cn_joined c" and "cn_id c' = cn_id c" and "cn_peer c' = cn_peer c"
    and "\<And>r k. Dispatch r k \<notin> set es"
  | (message) m expired es' where "es = expired @ es'" and "\<And>r k. Dispatch r k \<notin> set expired"
      and "handle_message config now m (c\<lparr>cn_fragments := fst (expire_fragments polled (cn_fragments c))\<rparr>) = (c', es')"
      and "\<exists>bs. event = BinaryFrame bs \<and> decode_bounded codec (sv_protocol_limits config) bs = Inr m" and go
proof -
  obtain fs expired where e: "expire_fragments polled (cn_fragments c) = (fs, expired)" by fastforce
  then have none: "Dispatch r k \<notin> set expired" for r k
    by (metis expire_no_dispatch snd_conv)
  show thesis
  proof (cases "\<exists>bs m. event = BinaryFrame bs \<and> decode_bounded codec (sv_protocol_limits config) bs = Inr m")
    case True
    then obtain bs m where m: "event = BinaryFrame bs" "decode_bounded codec (sv_protocol_limits config) bs = Inr m"
      by auto
    obtain c'' es' where h: "handle_message config now m (c\<lparr>cn_fragments := fs\<rparr>) = (c'', es')"
      by fastforce
    with assms e m have "c'' = c'" "es = expired @ es'" go
      by (simp_all add: connection_turn_def)
    with h e m none show thesis by (intro message [of expired es' m]) auto
  next
    case False
    have "cn_joined c' = cn_joined c \<and> cn_id c' = cn_id c \<and> cn_peer c' = cn_peer c \<and>
        (\<forall>r k. Dispatch r k \<notin> set es)"
      using assms e none False by (cases event) (auto simp: connection_turn_def Let_def split: sum.splits)
    then show thesis by (auto intro: quiet)
  qed
qed

lemma connection_loop_leaves:
  "room \<in> set (cn_joined c) \<Longrightarrow>
   Dispatch room (command.Leave (cn_id c)) \<in> set (connection_loop codec config events c)"
proof (induction events arbitrary: c)
  case (Cons ev events)
  obtain polled now event where ev: "ev = (polled, now, event)" by (cases ev)
  obtain c' es go where t: "connection_turn codec config polled now event c = (c', es, go)"
    by (metis prod_cases3)
  from t have "cn_id c' = cn_id c \<and>
      (room \<in> set (cn_joined c') \<or> Dispatch room (command.Leave (cn_id c)) \<in> set es)"
    by (rule connection_turn_cases) (use Cons.prems in \<open>auto dest: handle_message_joined(1) [where room = room] handle_message_id\<close>)
  with Cons.IH [of c'] t show ?case by (auto simp: ev)
qed auto

section \<open>Properties\<close>

lemma sample_connection:
  "connection_run codec config \<lparr>cn_id = 7, cn_peer = 3, cn_joined = [], cn_fragments = []\<rparr>"
  using connection_run.open_connection [of codec config 7 3] by (simp add: connection_new_def)

text \<open>C36. On every connection a client can drive, there are at most
  \<open>max_fragment_batches\<close> fragmented updates under way, their declared sizes together stay
  within \<open>max_fragment_bytes_per_connection\<close>, and each belongs to a joined room, is within its
  limits, is not complete, and has exactly the counts of fragments and bytes it has received.\<close>

theorem fragments_bounded:
  assumes "connection_run codec config c"
  shows "length (cn_fragments c) \<le> sv_max_fragment_batches config \<and>
    (\<Sum>(k, b) \<leftarrow> cn_fragments c. unat (fb_total_size b)) \<le>
      unat (sv_max_fragment_bytes_per_connection config) \<and>
    (\<forall>((room, batch_id), b) \<in> set (cn_fragments c). room \<in> set (cn_joined c) \<and>
      0 < fb_total_size b \<and> fb_total_size b \<le> sv_max_reassembled_bytes config \<and>
      length (fb_chunks b) \<le> unat (sv_max_fragments_per_batch config) \<and>
      fb_received b = length [x \<leftarrow> fb_chunks b. x \<noteq> None] \<and> fb_received b < length (fb_chunks b) \<and>
      unat (fb_received_bytes b) = (\<Sum>x \<leftarrow> fb_chunks b. case x of None \<Rightarrow> 0 | Some u \<Rightarrow> length u) \<and>
      fb_received_bytes b \<le> fb_total_size b)"
  using connection_run_ok [OF assms]
  by (auto simp: connection_ok_def batch_ok_def reserved_def chunk_count_def chunk_bytes_def)

theorem fragments_bounded_witness:
  "length (cn_fragments (fst (connection_turn sample_codec (default_server_config sample_codec) 4 5
     (BinaryFrame sample_message) (connection_new 7 3)))) \<le> 8"
  using fragments_bounded [OF connection_run.turn [OF connection_run.open_connection
      [of sample_codec "default_server_config sample_codec" 7 3], of 4 5 "BinaryFrame sample_message"]]
  by (simp add: default_server_config_def)

text \<open>C35. A fragmented update, as the gateway itself cuts it, is put together from its
  fragments in any order: if every turn after the header's begins before the batch's deadline,
  the turns dispatch exactly the one update to the room, and the batch is gone. All else they
  send is that other batches, under way before, have expired.\<close>

theorem fragmented_update_reassembled:
  assumes "room \<in> set (cn_joined c)" and "map_of (cn_fragments c) (room, b) = None"
    and "fragment_size < length u"
    and "length (chunks fragment_size u) \<le> unat (sv_max_fragments_per_batch config)"
    and "length u \<le> unat (sv_max_reassembled_bytes config)"
    and "length (cn_fragments c) < sv_max_fragment_batches config"
    and "(\<Sum>(k, b) \<leftarrow> cn_fragments c. unat (fb_total_size b)) + length u \<le>
      unat (sv_max_fragment_bytes_per_connection config)"
    and "distinct order" and "set order = {..<length (chunks fragment_size u)}"
    and "map (\<lambda>(_, _, m). m) ms = hd (update_fragments room b u) # map (\<lambda>i. update_fragments room b u ! Suc i) order"
    and "\<forall>(polled, now, m) \<in> set (tl ms). polled < fst (snd (hd ms)) + sv_fragment_timeout config"
  shows "\<exists>c' ks. handle_messages config ms c =
      (c', map (\<lambda>k. send_status CrdtLoro (fst k) (snd k) FragmentTimeout) ks @
        [Dispatch room (Update (cn_id c) b [u] (cn_peer c))]) \<and>
    set ks \<subseteq> fst ` set (cn_fragments c) \<and> map_of (cn_fragments c') (room, b) = None"
proof -
  let ?cs = "chunks fragment_size u"
  have fs: "0 < fragment_size" by (simp add: fragment_size_def)
  have cat: "concat ?cs = u" by (rule concat_chunks [OF fs])
  have "u \<noteq> []" using assms(3) by auto
  then have ne: "?cs \<noteq> []" "concat ?cs \<noteq> []" using cat by auto
  have small: "length ?cs < usize_limit" "length (concat ?cs) < usize_limit"
    using assms(4,5) unat64_less [of "sv_max_fragments_per_batch config"]
      unat64_less [of "sv_max_reassembled_bytes config"] unfolding cat by linarith+
  have sat: "u64_saturating n = of_nat n" if "n < usize_limit" for n
    using that by (simp add: u64_saturating_def usize_limit_def)
  have hdr: "hd (update_fragments room b u) =
      DocUpdateFragmentHeader CrdtLoro room b (of_nat (length ?cs)) (of_nat (length (concat ?cs)))"
    using small by (simp add: update_fragments_def length_chunks [OF fs] cat sat)
  have frag: "update_fragments room b u ! Suc i = DocUpdateFragment CrdtLoro room b (of_nat i) (?cs ! i)"
    if "i < length ?cs" for i
    using that small by (simp add: update_fragments_def nth_enumerate_eq sat)
  obtain p t ms' where ms: "ms = (p, t, hd (update_fragments room b u)) # ms'"
    and ms': "map (\<lambda>(_, _, m). m) ms' = map (\<lambda>i. update_fragments room b u ! Suc i) order"
    using assms(10) by (cases ms) auto
  have times: "\<forall>x \<in> set ms'. fst x < t + sv_fragment_timeout config"
    using assms(11) by (auto simp: ms)
  obtain fs expired where ex: "expire_fragments p (cn_fragments c) = (fs, expired)" by fastforce
  let ?c = "c\<lparr>cn_fragments := fs\<rparr>"
  note shrinks = expire_shrinks [where polled = p and fs = "cn_fragments c", unfolded ex fst_conv snd_conv]
  obtain ks where ks: "set ks \<subseteq> fst ` set (cn_fragments c)"
    "expired = map (\<lambda>k. send_status CrdtLoro (fst k) (snd k) FragmentTimeout) ks"
    using shrinks(5) by blast
  have frags: "map (\<lambda>(_, _, m). m) ms' = map (\<lambda>i. DocUpdateFragment CrdtLoro room b (of_nat i) (?cs ! i)) order"
    unfolding ms' using assms(9) by (auto simp: frag)
  have lens: "length ?cs \<le> unat (sv_max_fragments_per_batch config)"
    "length (concat ?cs) \<le> unat (sv_max_reassembled_bytes config)"
    "length (cn_fragments ?c) < sv_max_fragment_batches config"
    "reserved (cn_fragments ?c) + length (concat ?cs) \<le> unat (sv_max_fragment_bytes_per_connection config)"
    using assms(4-7) shrinks(2,3) unfolding cat reserved_def by simp_all
  have "room \<in> set (cn_joined ?c)" "map_of (cn_fragments ?c) (room, b) = None"
    using assms(1,2) shrinks(4) by simp_all
  from header_step [OF this ne lens, of t]
  obtain c1 where c1: "handle_header config t CrdtLoro room b (of_nat (length ?cs)) (of_nat (length (concat ?cs))) ?c = (c1, [])"
    "in_progress room b ?cs (t + sv_fragment_timeout config) (fst ` set fs) {} c1" "cn_id c1 = cn_id c" "cn_peer c1 = cn_peer c"
    by auto
  have "0 \<in> set order"
    unfolding assms(9) using ne(1) by simp
  then have ord: "order \<noteq> []" by (cases order) simp_all
  have sets: "set order \<inter> {} = {}" "set order \<union> {} = {..<length ?cs}"
    by (simp_all add: assms(9))
  from fragments_complete [OF c1(2) assms(8) sets ord small frags times, of config]
  obtain c2 ks' where "handle_messages config ms' c1 =
      (c2, map (\<lambda>k. send_status CrdtLoro (fst k) (snd k) FragmentTimeout) ks' @
        [Dispatch room (Update (cn_id c1) b [concat ?cs] (cn_peer c1))])"
    "set ks' \<subseteq> fst ` set fs" "map_of (cn_fragments c2) (room, b) = None"
    by blast
  moreover have "handle_header config t CrdtLoro room b (of_nat (length ?cs)) (of_nat (length u)) ?c = (c1, [])"
    using c1(1) unfolding cat .
  ultimately show ?thesis
    using ks shrinks(1) unfolding ms hdr cat c1(3,4)
    by (intro exI [of _ c2] exI [of _ "ks @ ks'"]) (auto simp: handle_message_def ex)
qed

text \<open>A connection that joined a room, and the update of three fragments that arrive as the
  last, the first, and the middle one.\<close>

definition sample_large :: bytes where
  "sample_large = replicate (fragment_size + fragment_size + 5) 7"

lemma sample_large_chunks: "length (chunks fragment_size sample_large) = 3"
  by (simp add: length_chunks sample_large_def fragment_size_def)

theorem fragmented_update_reassembled_witness:
  "let fs = update_fragments ''a'' 9 sample_large
   in \<exists>c'. handle_messages (default_server_config sample_codec)
       [(0, 1, fs ! 0), (2, 10, fs ! 3), (11, 20, fs ! 1), (21, 30, fs ! 2)]
       \<lparr>cn_id = 7, cn_peer = 3, cn_joined = [''a''], cn_fragments = []\<rparr> =
     (c', [Dispatch ''a'' (Update 7 9 [sample_large] 3)]) \<and> map_of (cn_fragments c') (''a'', 9) = None"
proof -
  let ?c = "\<lparr>cn_id = 7, cn_peer = 3, cn_joined = [''a''], cn_fragments = []\<rparr>"
  let ?fs = "update_fragments ''a'' 9 sample_large"
  let ?config = "default_server_config sample_codec"
  let ?ms = "[(0, 1, ?fs ! 0), (2, 10, ?fs ! 3), (11, 20, ?fs ! 1), (21, 30, ?fs ! 2)]"
  have "?fs \<noteq> []" by (simp add: update_fragments_def)
  then have ms: "map (\<lambda>(_, _, m). m) ?ms = hd ?fs # map (\<lambda>i. ?fs ! Suc i) [2, 0, 1]"
    by (simp add: hd_conv_nth numeral_eq_Suc)
  have order: "set [2, 0, 1] = {..<length (chunks fragment_size sample_large)}"
    unfolding sample_large_chunks by auto
  have len: "length sample_large = 491525"
    by (simp add: sample_large_def fragment_size_def)
  have lims: "fragment_size < length sample_large"
    "length (chunks fragment_size sample_large) \<le> unat (sv_max_fragments_per_batch ?config)"
    "length sample_large \<le> unat (sv_max_reassembled_bytes ?config)"
    "length (cn_fragments ?c) < sv_max_fragment_batches ?config"
    "(\<Sum>(k, b) \<leftarrow> cn_fragments ?c. unat (fb_total_size b)) + length sample_large \<le>
      unat (sv_max_fragment_bytes_per_connection ?config)"
    unfolding len sample_large_chunks by (simp_all add: default_server_config_def fragment_size_def)
  have "''a'' \<in> set (cn_joined ?c)" "map_of (cn_fragments ?c) (''a'', 9) = None" "distinct [2, 0, 1 :: nat]"
    by simp_all
  moreover have "\<forall>(polled, now, m) \<in> set (tl ?ms). polled < fst (snd (hd ?ms)) + sv_fragment_timeout ?config"
    by (simp add: default_server_config_def)
  ultimately show ?thesis
    using fragmented_update_reassembled [OF _ _ lims _ order ms] unfolding Let_def by simp
qed

text \<open>C38. A connection dispatches updates only for rooms it has joined, and always under its
  own connection and channel.\<close>

theorem updates_only_to_joined_rooms:
  assumes "connection_turn codec config polled now event c = (c', es, go)"
    and "Dispatch room (Update connection_id b us p) \<in> set es"
  shows "room \<in> set (cn_joined c) \<and> connection_id = cn_id c \<and> p = cn_peer c"
  using assms(1)
proof (rule connection_turn_cases)
  fix m expired es'
  assume "es = expired @ es'" and "\<And>r k. Dispatch r k \<notin> set expired"
    and "handle_message config now m (c\<lparr>cn_fragments := fst (expire_fragments polled (cn_fragments c))\<rparr>) = (c', es')"
  with handle_message_dispatch [OF this(3), of room connection_id b us p] assms(2) show ?thesis by auto
qed (use assms(2) in auto)

text \<open>C37. Whatever ends the loop of a connection, every join it dispatched is followed by a
  leave of the same room.\<close>

theorem every_join_is_left:
  assumes "connection_loop codec config events c = before @ Dispatch room (Join connection_id version p) # after"
  shows "Dispatch room (command.Leave (cn_id c)) \<in> set after"
  using assms
proof (induction events arbitrary: c before)
  case Nil
  have "Dispatch room (Join connection_id version p) \<in> set (connection_loop codec config [] c)"
    unfolding Nil by simp
  then show ?case by auto
next
  case (Cons ev events)
  let ?join = "Dispatch room (Join connection_id version p)"
  obtain polled now event where ev: "ev = (polled, now, event)" by (cases ev)
  obtain c' es go where t: "connection_turn codec config polled now event c = (c', es, go)"
    by (metis prod_cases3)
  define es' where "es' = (if go then connection_loop codec config events c' else connection_loop codec config [] c')"
  have split: "es @ es' = before @ ?join # after"
    using Cons.prems t by (simp add: ev es'_def)
  have same: "cn_id c' = cn_id c"
    using t by (rule connection_turn_cases) (auto dest: handle_message_id)
  show ?case
  proof (cases "length before < length es")
    case False
    then obtain before' where "es' = before' @ ?join # after"
      using split by (auto simp: append_eq_append_conv2 not_less)
    moreover from this have "?join \<in> set es'" by simp
    then have go by (cases go) (auto simp: es'_def)
    ultimately show ?thesis
      using Cons.IH [of c' before'] same by (simp add: es'_def)
  next
    case True
    then obtain after' where es: "es = before @ ?join # after'" and after: "after = after' @ es'"
      using split by (fastforce simp: append_eq_append_conv2 append_eq_Cons_conv)
    from t have "room \<in> set (cn_joined c')"
    proof (rule connection_turn_cases)
      fix m expired sent
      assume e: "es = expired @ sent" and "\<And>r k. Dispatch r k \<notin> set expired"
        and h: "handle_message config now m (c\<lparr>cn_fragments := fst (expire_fragments polled (cn_fragments c))\<rparr>) = (c', sent)"
      moreover have "?join \<in> set es" unfolding es by simp
      ultimately show ?thesis using handle_message_joined(2) [OF h] by auto
    qed (auto simp: es)
    then have "Dispatch room (command.Leave (cn_id c')) \<in> set es'"
      using connection_loop_leaves by (auto simp: es'_def simp del: connection_loop.simps)
    then show ?thesis by (simp add: after same)
  qed
qed

text \<open>A connection that joins, sends an update, and is closed.\<close>

definition sample_join :: bytes where
  "sample_join = str_bytes ''%LOR'' @ [1, 0x61, 0, 0, 0]"

definition sample_join_codec :: protocol_codec where
  "sample_join_codec = \<lparr>pc_max_message_size = 1024, pc_decode = (\<lambda>bs.
     if bs = sample_join then Inr (JoinRequest CrdtLoro ''a'' []) else pc_decode sample_codec bs)\<rparr>"

lemma sample_join_decodes:
  "decode_bounded sample_join_codec (default_protocol_limits sample_join_codec) sample_join =
     Inr (JoinRequest CrdtLoro ''a'' [])"
  by (simp add: decode_bounded_def precheck_def precheck_body_def sample_join_codec_def sample_join_def
      default_protocol_limits_def protocol_enforce_limit_def reader_take_def reader_byte_def reader_var_len_def
      reader_var_bytes_def reader_uleb128_def reader_uleb_loop.simps checked_add_def usize_limit_def
      str_bytes_def Let_def)

lemma sample_join_loop:
  "connection_loop sample_join_codec (default_server_config sample_join_codec)
     [(0, 1, BinaryFrame sample_join), (1, 5, PingFrame), (5, 9, CloseFrame)] (connection_new 7 3) =
   [] @ Dispatch ''a'' (Join 7 [] 3) # [Send (Text ''pong''), Dispatch ''a'' (command.Leave 7)]"
  by (simp add: connection_turn_def sample_join_decodes handle_message_def connection_new_def
      expire_fragments_def default_server_config_def [of sample_join_codec])

theorem every_join_is_left_witness:
  "Dispatch ''a'' (command.Leave 7) \<in> set [Send (Text ''pong''), Dispatch ''a'' (command.Leave 7)]"
  using every_join_is_left [OF sample_join_loop]
  by (simp add: connection_new_def)

theorem updates_only_to_joined_rooms_witness:
  "''a'' \<in> set (cn_joined \<lparr>cn_id = 7, cn_peer = 3, cn_joined = [''a''], cn_fragments = []\<rparr>)"
proof -
  let ?c = "\<lparr>cn_id = 7, cn_peer = 3, cn_joined = [''a''], cn_fragments = []\<rparr>"
  have "connection_turn sample_codec (default_server_config sample_codec) 4 5 (BinaryFrame sample_message) ?c =
      (?c, [Dispatch ''a'' (Update 7 7 [[9, 9], [8]] 3)], True)"
    by (simp add: connection_turn_def sample_message_decodes handle_message_def expire_fragments_def
        default_server_config_def [of sample_codec])
  from updates_only_to_joined_rooms [OF this, of "''a''" 7 7 "[[9, 9], [8]]" 3] show ?thesis by simp
qed

end
