(* ===== verification/Gateway.thy ===== *)
theory Gateway
  imports Room_Manager Actor_Properties Server_Fragments
begin

text \<open>
  The gateway as a whole: its connections, the directory of rooms and the rooms' tasks, all
  interleaved. A connection takes one event from its socket at a time and carries out its
  effects in order, waiting while a room's channel is full; a room runs its activation and
  then one command at a time; operators send commands of their own; the store may change
  underneath; and the process may be lost at any time and start again with a new boot
  identity. The runs are an inductive relation, and what holds of a single connection and of a
  single room carries over to them.
\<close>

section \<open>Runs\<close>

record client =
  cl_connection :: connection
  cl_effects :: "effect list"
  cl_open :: bool

definition client_new :: "u64 \<Rightarrow> peer \<Rightarrow> client" where
  "client_new connection_id peer =
     \<lparr>cl_connection = connection_new connection_id peer, cl_effects = [], cl_open = True\<rparr>"

text \<open>One event of a connection; the end of its loop adds the leaves.\<close>

definition client_event ::
  "protocol_codec \<Rightarrow> server_config \<Rightarrow> nat \<Rightarrow> nat \<Rightarrow> socket_event \<Rightarrow> client \<Rightarrow> client" where
  "client_event codec sconfig polled now event c =
     (let (connection, effects, continue) = connection_turn codec sconfig polled now event (cl_connection c)
      in c\<lparr>cl_connection := connection, cl_open := continue,
           cl_effects := effects @ (if continue then [] else connection_loop codec sconfig [] connection)\<rparr>)"

text \<open>The channels of the connections are their positions in the list; \<open>None\<close> is one that was
  lost with its process.\<close>

record 'd gateway =
  gt_manager :: "'d room_manager"
  gt_clients :: "client option list"
  gt_next_connection :: u64

definition gateway_new :: "128 word \<Rightarrow> actor_config \<Rightarrow> 'd gateway" where
  "gateway_new boot_id config =
     \<lparr>gt_manager = room_manager_new boot_id config, gt_clients = [], gt_next_connection = 1\<rparr>"

definition set_client :: "nat \<Rightarrow> client \<Rightarrow> 'd gateway \<Rightarrow> 'd gateway" where
  "set_client i c g = g\<lparr>gt_clients := (gt_clients g)[i := Some c]\<rparr>"

definition client_at :: "'d gateway \<Rightarrow> nat \<Rightarrow> client \<Rightarrow> bool" where
  "client_at g i c \<longleftrightarrow> i < length (gt_clients g) \<and> gt_clients g ! i = Some c"

definition slot_at :: "'d gateway \<Rightarrow> string \<Rightarrow> 'd room_slot \<Rightarrow> bool" where
  "slot_at g room slot \<longleftrightarrow> map_of (rm_rooms (gt_manager g)) room = Some slot"

definition put_slot :: "string \<Rightarrow> 'd room_slot \<Rightarrow> 'd gateway \<Rightarrow> 'd gateway" where
  "put_slot room slot g = g\<lparr>gt_manager := set_slot room slot (gt_manager g)\<rparr>"

text \<open>The list holds the commands the rooms have handled so far, with their rooms.\<close>

inductive gateway_run ::
  "hashes \<Rightarrow> ('d, 'v, 'x) loro \<Rightarrow> 's ursula_store \<Rightarrow> protocol_codec \<Rightarrow> actor_config \<Rightarrow> server_config \<Rightarrow>
   ('s \<Rightarrow> bool) \<Rightarrow> ('s \<Rightarrow> 's \<Rightarrow> bool) \<Rightarrow> (string \<times> command) list \<Rightarrow> 'd gateway \<Rightarrow> 's world \<Rightarrow> bool"
  for h lo store codec config sconfig init env where
  boot: "init (wd_store w) \<Longrightarrow> wd_sent w = [] \<Longrightarrow>
     gateway_run h lo store codec config sconfig init env [] (gateway_new boot_id config) w"
| connect: "gateway_run h lo store codec config sconfig init env cmds g w \<Longrightarrow>
     gateway_run h lo store codec config sconfig init env cmds
       (g\<lparr>gt_clients := gt_clients g @ [Some (client_new (gt_next_connection g) (length (gt_clients g)))],
          gt_next_connection := gt_next_connection g + 1\<rparr>) w"
| event: "gateway_run h lo store codec config sconfig init env cmds g w \<Longrightarrow>
     client_at g i c \<Longrightarrow> cl_open c \<Longrightarrow> cl_effects c = [] \<Longrightarrow>
     gateway_run h lo store codec config sconfig init env cmds
       (set_client i (client_event codec sconfig polled now ev c) g) w"
| reply: "gateway_run h lo store codec config sconfig init env cmds g w \<Longrightarrow>
     client_at g i c \<Longrightarrow> cl_effects c = Send message # es \<Longrightarrow>
     gateway_run h lo store codec config sconfig init env cmds
       (set_client i (c\<lparr>cl_effects := es\<rparr>) g) (send_outbound (cn_peer (cl_connection c)) message w)"
| dispatch: "gateway_run h lo store codec config sconfig init env cmds g w \<Longrightarrow>
     client_at g i c \<Longrightarrow> cl_effects c = Dispatch room cmd # es \<Longrightarrow>
     manager_send h lo room cmd (gt_manager g) = Some m \<Longrightarrow>
     gateway_run h lo store codec config sconfig init env cmds
       ((set_client i (c\<lparr>cl_effects := es\<rparr>) g)\<lparr>gt_manager := m\<rparr>) w"
| operator: "gateway_run h lo store codec config sconfig init env cmds g w \<Longrightarrow>
     cmd \<in> {RetryAmbiguous, WaitForActivation, Rotate} \<Longrightarrow>
     manager_send h lo room cmd (gt_manager g) = Some m \<Longrightarrow>
     gateway_run h lo store codec config sconfig init env cmds (g\<lparr>gt_manager := m\<rparr>) w"
| activate: "gateway_run h lo store codec config sconfig init env cmds g w \<Longrightarrow>
     slot_at g room slot \<Longrightarrow> \<not> rs_started slot \<Longrightarrow> slot_activate h lo store slot w = (slot', w') \<Longrightarrow>
     gateway_run h lo store codec config sconfig init env cmds (put_slot room slot' g) w'"
| handle: "gateway_run h lo store codec config sconfig init env cmds g w \<Longrightarrow>
     slot_at g room slot \<Longrightarrow> rs_started slot \<Longrightarrow> rs_queue slot = cmd # queue \<Longrightarrow>
     slot_handle h lo store cmd slot w = (r, (slot', w')) \<Longrightarrow>
     gateway_run h lo store codec config sconfig init env (cmds @ [(room, cmd)]) (put_slot room slot' g) w'"
| environment: "gateway_run h lo store codec config sconfig init env cmds g w \<Longrightarrow> env (wd_store w) s \<Longrightarrow>
     gateway_run h lo store codec config sconfig init env cmds g (w\<lparr>wd_store := s\<rparr>)"
| restart: "gateway_run h lo store codec config sconfig init env cmds g w \<Longrightarrow>
     gateway_run h lo store codec config sconfig init env cmds
       (g\<lparr>gt_manager := room_manager_new boot_id config,
          gt_clients := replicate (length (gt_clients g)) None, gt_next_connection := 1\<rparr>) (w\<lparr>wd_next_batch := 1\<rparr>)"

section \<open>The connections\<close>

text \<open>
  Every connection has its own channel, keeps its bounds, and what it still has to carry out
  bears its own identity.
\<close>

definition effect_of :: "connection \<Rightarrow> effect \<Rightarrow> bool" where
  "effect_of c e \<longleftrightarrow>
     (case e of
        Send (Protocol (Ack crdt room b st)) \<Rightarrow> st \<noteq> Ok
      | Dispatch room (Update connection_id b us p) \<Rightarrow> connection_id = cn_id c \<and> p = cn_peer c
      | _ \<Rightarrow> True)"

definition client_ok :: "server_config \<Rightarrow> nat \<Rightarrow> client \<Rightarrow> bool" where
  "client_ok sconfig i c \<longleftrightarrow> cn_peer (cl_connection c) = i \<and> connection_ok sconfig (cl_connection c) \<and>
     list_all (effect_of (cl_connection c)) (cl_effects c)"

lemma handle_message_effects:
  "handle_message config now m c = (c', es) \<Longrightarrow> list_all (effect_of c) es"
  by (cases m) (auto simp: handle_message_def handle_header_def handle_fragment_def complete_batch_def
      send_status_def effect_of_def Let_def split: if_splits option.splits)

lemma expire_effects: "list_all (effect_of c) (snd (expire_fragments now fs))"
  by (auto simp: expire_fragments_def send_status_def effect_of_def list_all_iff)

lemma effect_of_same:
  assumes "cn_id c' = cn_id c" and "cn_peer c' = cn_peer c"
  shows "effect_of c' = effect_of c"
  unfolding effect_of_def assms ..

lemma effect_of_fragments [simp]: "effect_of (c\<lparr>cn_fragments := fs\<rparr>) = effect_of c"
  by (rule effect_of_same) simp_all

lemma connection_turn_effects:
  assumes "connection_turn codec config polled now event c = (c', es, go)"
  shows "list_all (effect_of c) es \<and> cn_id c' = cn_id c \<and> cn_peer c' = cn_peer c"
  using assms expire_effects [of c polled "cn_fragments c"]
  by (cases event) (auto simp: connection_turn_def Let_def effect_of_def [of c "Send (Text _)"]
      dest: handle_message_effects handle_message_id split: prod.splits sum.splits if_splits)

lemma client_event_ok:
  assumes "client_ok sconfig i c" and "cl_effects c = []"
  shows "client_ok sconfig i (client_event codec sconfig polled now event c)"
proof -
  obtain c' es go where turn: "connection_turn codec sconfig polled now event (cl_connection c) = (c', es, go)"
    by (metis prod_cases3)
  have same: "effect_of c' = effect_of (cl_connection c)"
    using connection_turn_effects [OF turn] by (auto intro: effect_of_same)
  have "list_all (effect_of c') (connection_loop codec sconfig [] c')"
    by (simp add: list_all_iff effect_of_def)
  with assms connection_turn_effects [OF turn] connection_turn_ok [OF _ turn] same show ?thesis
    by (simp add: client_ok_def client_event_def turn)
qed

definition clients_ok :: "server_config \<Rightarrow> 'd gateway \<Rightarrow> bool" where
  "clients_ok sconfig g \<longleftrightarrow> (\<forall>i c. client_at g i c \<longrightarrow> client_ok sconfig i c)"

lemma client_at_set [simp]:
  "client_at (set_client i c g) j d \<longleftrightarrow> (if j = i then i < length (gt_clients g) \<and> d = c else client_at g j d)"
  by (auto simp: client_at_def set_client_def nth_list_update)

lemma client_at_manager [simp]: "client_at (g\<lparr>gt_manager := m\<rparr>) j d = client_at g j d"
  by (simp add: client_at_def)

lemma client_at_put [simp]: "client_at (put_slot room slot g) j d = client_at g j d"
  by (simp add: client_at_def put_slot_def)

lemma set_client_ok:
  "clients_ok sconfig g \<Longrightarrow> client_ok sconfig i c \<Longrightarrow> clients_ok sconfig (set_client i c g)"
  by (simp add: clients_ok_def)

lemma client_new_ok: "client_ok sconfig i (client_new connection_id i)"
  by (simp add: client_ok_def client_new_def connection_new_def connection_ok_def)

lemma gateway_clients:
  "gateway_run h lo store codec config sconfig init env cmds g w \<Longrightarrow> clients_ok sconfig g"
proof (induction rule: gateway_run.induct)
  case (connect cmds g w)
  then show ?case
    by (auto simp: clients_ok_def client_at_def nth_append less_Suc_eq client_new_ok split: if_splits)
next
  case (event cmds g w i c polled now ev)
  then show ?case
    by (intro set_client_ok client_event_ok) (simp_all add: clients_ok_def)
next
  case (reply cmds g w i c message es)
  then have "client_ok sconfig i c" by (simp add: clients_ok_def)
  with reply.hyps(3) show ?case
    by (intro set_client_ok [OF reply.IH]) (simp add: client_ok_def)
next
  case (dispatch cmds g w i c room cmd es m)
  then have "client_ok sconfig i c" by (simp add: clients_ok_def)
  with dispatch.hyps(3) have "clients_ok sconfig (set_client i (c\<lparr>cl_effects := es\<rparr>) g)"
    by (intro set_client_ok [OF dispatch.IH]) (simp add: client_ok_def)
  then show ?case by (simp add: clients_ok_def)
qed (auto simp: clients_ok_def client_at_def gateway_new_def put_slot_def)

section \<open>The rooms\<close>

lemma slot_handle_eq:
  assumes "slot_handle h lo store cmd slot w = (r, (slot', w'))"
  shows "actor_handle h lo store cmd (rs_actor slot, w) = (r, (rs_actor slot', w'))"
    and "rs_started slot' = rs_started slot" and "rs_queue slot' = tl (rs_queue slot)"
  using assms by (auto simp: slot_handle_def split: prod.splits)

lemma slot_activate_eq:
  assumes "slot_activate h lo store slot w = (slot', w')"
  shows "actor_start h lo store (rs_actor slot, w) = (rs_actor slot', w')"
    and "rs_started slot'" and "rs_queue slot' = rs_queue slot"
  using assms by (auto simp: slot_activate_def split: prod.splits)

lemma slot_activate_ok:
  assumes ok: "slot_ok h lo boot_id config (room_ok h) room slot" and "\<not> rs_started slot"
    and run: "slot_activate h lo store slot w = (slot', w')"
  shows "slot_ok h lo boot_id config (room_ok h) room slot' \<and> wd_sent w' = wd_sent w"
proof -
  have a: "rs_actor slot = room_actor_new h lo room boot_id config"
    using assms(1,2) by (simp add: slot_ok_def)
  have boot: "ra_boot_id (room_actor_new h lo room boot_id config) = boot_id"
    by (simp add: room_actor_new_def Let_def)
  note start = slot_activate_eq [OF run, unfolded a]
  from actor_start_ok [OF _ _ start(1)] room_actor_new_ok [of h lo room boot_id config] boot start(2,3) ok
  show ?thesis by (simp add: slot_ok_def same_room_def)
qed

lemma slot_handle_ok:
  assumes ok: "slot_ok h lo boot_id config (room_ok h) room slot" and "rs_started slot"
    and run: "slot_handle h lo store cmd slot w = (r, (slot', w'))"
  shows "slot_ok h lo boot_id config (room_ok h) room slot'"
  using actor_handle_ok [OF _ slot_handle_eq(1) [OF run]] slot_handle_eq(2,3) [OF run] assms(1,2)
  by (auto simp: slot_ok_def same_room_def)

lemma put_slot_ok:
  assumes "manager_ok h lo ok config (gt_manager g)" and "slot_ok h lo (rm_boot_id (gt_manager g)) config ok room slot"
  shows "manager_ok h lo ok config (gt_manager (put_slot room slot g))"
  using manager_ok_set [OF assms] by (simp add: put_slot_def)

lemma gateway_rooms:
  "gateway_run h lo store codec config sconfig init env cmds g w \<Longrightarrow>
   manager_ok h lo (room_ok h) config (gt_manager g)"
proof (induction rule: gateway_run.induct)
  case (dispatch cmds g w i c room cmd es m)
  then show ?case by (auto intro: manager_send_ok)
next
  case (operator cmds g w cmd room m)
  then show ?case by (auto intro: manager_send_ok)
next
  case (activate cmds g w room slot slot' w')
  then have "slot_ok h lo (rm_boot_id (gt_manager g)) config (room_ok h) room slot"
    by (auto simp: slot_at_def intro: manager_ok_slot)
  from slot_activate_ok [OF this activate.hyps(3,4)] show ?case
    by (intro put_slot_ok [OF activate.IH]) simp
next
  case (handle cmds g w room slot cmd queue r slot' w')
  then have "slot_ok h lo (rm_boot_id (gt_manager g)) config (room_ok h) room slot"
    by (auto simp: slot_at_def intro: manager_ok_slot)
  from slot_handle_ok [OF this handle.hyps(3,5)] show ?case
    by (rule put_slot_ok [OF handle.IH])
qed (simp_all add: gateway_new_def manager_ok_new set_client_def)

section \<open>Acknowledgements across rooms\<close>

text \<open>Everything that is sent is added at the end; \<open>accepted\<close> are the acknowledgements in it.\<close>

definition accepted :: "(peer \<times> outbound) list \<Rightarrow> (peer \<times> string \<times> u64) set" where
  "accepted sent = {(p, r, b). \<exists>c. (p, Protocol (Ack c r b Ok)) \<in> set sent}"

lemma accepted_simps [simp]:
  "accepted [] = {}"
  "accepted (xs @ ys) = accepted xs \<union> accepted ys"
  "accepted ((p, Protocol (Ack c r b Ok)) # xs) = insert (p, r, b) (accepted xs)"
  "st \<noteq> Ok \<Longrightarrow> accepted ((p, Protocol (Ack c r b st)) # xs) = accepted xs"
  "accepted ((p, Protocol (RoomError c r code e)) # xs) = accepted xs"
  "accepted ((p, Protocol (JoinError c r jc e rv app)) # xs) = accepted xs"
  "accepted ((p, Protocol (JoinResponseOk c r pm v ex)) # xs) = accepted xs"
  "accepted (map (\<lambda>m. (p, Protocol m)) (update_messages r u n)) = {}"
  by (auto simp: accepted_def)

lemma forward_updates_accepted:
  "accepted (wd_sent (forward_updates c r us peers w)) = accepted (wd_sent w)"
proof -
  have one: "accepted (wd_sent (fold (\<lambda>u. send_update p r u) us w)) = accepted (wd_sent w)" for p us and w :: "'a world"
    by (induction us arbitrary: w) auto
  show ?thesis
    unfolding forward_updates_def
    by (induction peers arbitrary: w) (auto simp: one split: prod.splits)
qed

lemma reject_unavailable_accepted:
  "accepted (wd_sent (snd (snd (reject_unavailable cmd (a, w))))) = accepted (wd_sent w)"
  by (cases cmd) (simp_all add: reject_unavailable_def Let_def)

lemma actor_join_accepted:
  "actor_join lo c v peer (a, w) = (a', w') \<Longrightarrow> accepted (wd_sent w') = accepted (wd_sent w)"
  by (auto simp: actor_join_def Let_def split: if_splits sum.splits)

definition accepted_durable ::
  "('s \<Rightarrow> string \<Rightarrow> bytes) \<Rightarrow> ('s \<Rightarrow> bool) \<Rightarrow> hashes \<Rightarrow> frame_limits \<Rightarrow> (string \<times> command) list \<Rightarrow>
   's world \<Rightarrow> bool" where
  "accepted_durable content valid h limits cmds w \<longleftrightarrow> valid (wd_store w) \<and>
     (\<forall>(p, r, b) \<in> accepted (wd_sent w). \<exists>c us. (r, Update c b us p) \<in> set cmds \<and>
       durable_update h limits r (content (wd_store w)) b us)"

context append_only_store
begin

lemma actor_update_accepted:
  assumes ok: "room_ok h a" and v: "valid (wd_store w)"
    and run: "actor_update h lo store c b us peer (a, w) = (a', w')"
  shows "accepted (wd_sent w') = accepted (wd_sent w) \<or>
     accepted (wd_sent w') = insert (peer, ra_room_id a, b) (accepted (wd_sent w)) \<and>
     durable_update h (ag_frame_limits (ra_config a)) (ra_room_id a) (content (wd_store w')) b us"
proof (cases "prepare_update h lo c b us a")
  case (Inl st)
  with run prepare_update_not_ok [OF Inl] show ?thesis
    by (auto simp: actor_update_def)
next
  case (Inr x)
  obtain d q p where x: "x = (d, q, p)" by (cases x)
  note prep = prepare_update_Inr [OF Inr [unfolded x]]
  have gb: "generation_bound h a" and pn: "pending_next h a p"
    using prep ok by (auto simp: room_ok_def)
  obtain r s1 where res: "resolve_append h store (ra_config a) p (wd_store w) = (r, s1)" by fastforce
  have ps: "pending_ok h (ag_frame_limits (ra_config a)) p"
    using pn by (simp add: pending_next_def)
  note run1 = resolve_run [OF ps v res]
  show ?thesis
  proof (cases r)
    case (Inl f)
    with run res \<open>prepare_update h lo c b us a = Inr x\<close> x show ?thesis
      by (cases f) (auto simp: actor_update_def Let_def on_store_def)
  next
    case (Inr y)
    have "stored_at (content s1 (physical (delta_stream_for_generation h (ra_room_id a)
        (ra_active_delta_generation a)))) (next_offset y) (pa_bytes p)"
      using run1 Inr pn gb by (auto simp: pending_next_def generation_bound_def)
    then have "durable_update h (ag_frame_limits (ra_config a)) (ra_room_id a) (content s1) b us"
      using prep unfolding durable_update_def by blast
    with run res \<open>prepare_update h lo c b us a = Inr x\<close> x Inr show ?thesis
      by (auto simp: actor_update_def Let_def on_store_def forward_updates_accepted forward_updates_world)
  qed
qed

lemma actor_handle_accepted:
  assumes ok: "room_ok h a" and v: "valid (wd_store w)"
    and run: "actor_handle h lo store cmd (a, w) = (r, (a', w'))"
  shows "accepted (wd_sent w') = accepted (wd_sent w) \<or>
     (\<exists>c b us peer. cmd = Update c b us peer \<and>
       accepted (wd_sent w') = insert (peer, ra_room_id a, b) (accepted (wd_sent w)) \<and>
       durable_update h (ag_frame_limits (ra_config a)) (ra_room_id a) (content (wd_store w')) b us)"
proof (cases cmd)
  case (Join c vs peer)
  with assms actor_join_accepted [of lo c vs peer a w] reject_unavailable_accepted [of cmd a w] show ?thesis
    by (auto simp: actor_handle_def split: if_splits)
next
  case (Update c b us peer)
  with assms actor_update_accepted [OF ok v, of lo c b us peer] reject_unavailable_accepted [of cmd a w]
  show ?thesis by (auto simp: actor_handle_def split: if_splits)
next
  case (Leave c)
  with assms reject_unavailable_accepted [of cmd a w] show ?thesis
    by (auto simp: actor_handle_def split: if_splits)
next
  case RetryAmbiguous
  with run obtain b where "retry_pending h lo store (a, w) = (b, (a', w'))"
    by (auto simp: actor_handle_def split: prod.splits)
  with retry_pending_ok [OF ok this] show ?thesis by simp
next
  case Rotate
  with run obtain b where "rotate_generation h lo store (a, w) = (b, (a', w'))"
    by (auto simp: actor_handle_def split: prod.splits)
  with rotate_generation_ok [OF ok this] show ?thesis by simp
qed (use assms in \<open>auto simp: actor_handle_def\<close>)

lemma accepted_durable_grows:
  assumes "accepted_durable content valid h limits cmds w" and "grows content valid (wd_store w) (wd_store w')"
    and "accepted (wd_sent w') = accepted (wd_sent w)" and "set cmds \<subseteq> set cmds'"
  shows "accepted_durable content valid h limits cmds' w'"
  using assms durable_update_grows [OF _ assms(2)]
  unfolding accepted_durable_def by (fastforce simp: grows_def)

lemma gateway_accepted_durable:
  "gateway_run h lo store codec config sconfig valid (grows content valid) cmds g w \<Longrightarrow>
   accepted_durable content valid h (ag_frame_limits config) cmds w"
proof (induction rule: gateway_run.induct)
  case (boot w boot_id)
  then show ?case by (simp add: accepted_durable_def)
next
  case (reply cmds g w i c message es)
  have "client_ok sconfig i c"
    using gateway_clients [OF reply.hyps(1)] reply.hyps(2) by (simp add: clients_ok_def)
  then have "effect_of (cl_connection c) (Send message)"
    using reply.hyps(3) by (simp add: client_ok_def)
  then have "accepted [(cn_peer (cl_connection c), message)] = {}"
    by (auto simp: accepted_def effect_of_def)
  moreover have "grows content valid (wd_store w) (wd_store w)"
    using reply.IH by (simp add: accepted_durable_def grows_refl)
  ultimately show ?case
    by (intro accepted_durable_grows [OF reply.IH]) simp_all
next
  case (activate cmds g w room slot slot' w')
  have slot: "slot_ok h lo (rm_boot_id (gt_manager g)) config (room_ok h) room slot"
    using gateway_rooms [OF activate.hyps(1)] activate.hyps(2) by (auto simp: slot_at_def intro: manager_ok_slot)
  have "grows content valid (wd_store w) (wd_store w')"
    by (rule actor_start_grows [OF _ slot_activate_eq(1) [OF activate.hyps(4)]])
      (use activate.IH in \<open>simp add: accepted_durable_def\<close>)
  with slot_activate_ok [OF slot activate.hyps(3,4)] show ?case
    by (intro accepted_durable_grows [OF activate.IH]) simp_all
next
  case (handle cmds g w room slot cmd queue r slot' w')
  have slot: "slot_ok h lo (rm_boot_id (gt_manager g)) config (room_ok h) room slot"
    using gateway_rooms [OF handle.hyps(1)] handle.hyps(2) by (auto simp: slot_at_def intro: manager_ok_slot)
  then have ok: "room_ok h (rs_actor slot)" "ra_room_id (rs_actor slot) = room" "ra_config (rs_actor slot) = config"
    using handle.hyps(3) by (auto simp: slot_ok_def)
  have v: "valid (wd_store w)" using handle.IH by (simp add: accepted_durable_def)
  note run = slot_handle_eq(1) [OF handle.hyps(5)]
  have g: "grows content valid (wd_store w) (wd_store w')"
    using actor_handle_durable [OF ok(1) v run] by simp
  from actor_handle_accepted [OF ok(1) v run] show ?case
  proof (elim disjE exE conjE)
    assume "accepted (wd_sent w') = accepted (wd_sent w)"
    then show ?thesis by (intro accepted_durable_grows [OF handle.IH g]) auto
  next
    fix c b us peer
    assume cmd: "cmd = Update c b us peer"
      and acc: "accepted (wd_sent w') = insert (peer, ra_room_id (rs_actor slot), b) (accepted (wd_sent w))"
      and dur: "durable_update h (ag_frame_limits (ra_config (rs_actor slot))) (ra_room_id (rs_actor slot))
        (content (wd_store w')) b us"
    have old: "accepted_durable content valid h (ag_frame_limits config) (cmds @ [(room, cmd)]) (w'\<lparr>wd_sent := wd_sent w\<rparr>)"
      by (rule accepted_durable_grows [OF handle.IH]) (use g in auto)
    show ?thesis
      using old dur unfolding accepted_durable_def acc cmd ok by fastforce
  qed
next
  case (environment cmds g w s)
  then show ?case by (intro accepted_durable_grows [OF environment.IH]) simp_all
qed (auto simp: accepted_durable_def)

end

section \<open>A run of the gateway\<close>

text \<open>
  On the in-memory store, one connection joins a room and sends it one update; the room is
  activated, handles both, and acknowledges the update.
\<close>

definition demo_join :: bytes where
  "demo_join = str_bytes ''%LOR'' @ [6] @ str_bytes ''room-a'' @ [0, 0, 0]"

definition demo_update :: bytes where
  "demo_update = str_bytes ''%LOR'' @ [6] @ str_bytes ''room-a'' @ [3, 1, 2, 2, 9, 0, 0, 0, 0, 0, 0, 0, 5]"

definition demo_codec :: protocol_codec where
  "demo_codec = \<lparr>pc_max_message_size = 1024, pc_decode = (\<lambda>bs.
     if bs = demo_join then Inr (JoinRequest CrdtLoro ''room-a'' [])
     else if bs = demo_update then Inr (DocUpdate CrdtLoro ''room-a'' [[2, 9]] 5)
     else Inl ''not a message of the sample'')\<rparr>"

lemma precheck_one:
  "precheck_updates limits input 1 n cursor = precheck_updates limits input (Suc 0) n cursor"
  by simp

lemma demo_decodes:
  "decode_bounded demo_codec (default_protocol_limits demo_codec) demo_join = Inr (JoinRequest CrdtLoro ''room-a'' [])"
  "decode_bounded demo_codec (default_protocol_limits demo_codec) demo_update =
     Inr (DocUpdate CrdtLoro ''room-a'' [[2, 9]] 5)"
  by (simp_all add: decode_bounded_def precheck_def precheck_body_def demo_codec_def demo_join_def demo_update_def
      default_protocol_limits_def protocol_enforce_limit_def reader_take_def reader_byte_def reader_var_len_def
      reader_var_bytes_def reader_uleb128_def reader_uleb_loop.simps checked_add_def usize_limit_def
      str_bytes_def Let_def)

definition demo_connection :: connection where
  "demo_connection = \<lparr>cn_id = 1, cn_peer = 0, cn_joined = [''room-a''], cn_fragments = []\<rparr>"

lemma demo_events:
  "client_event demo_codec (default_server_config demo_codec) 0 1 (BinaryFrame demo_join) (client_new 1 0) =
     \<lparr>cl_connection = demo_connection, cl_effects = [Dispatch ''room-a'' (Join 1 [] 0)], cl_open = True\<rparr>"
  "client_event demo_codec (default_server_config demo_codec) 1 2 (BinaryFrame demo_update)
     \<lparr>cl_connection = demo_connection, cl_effects = [], cl_open = True\<rparr> =
     \<lparr>cl_connection = demo_connection, cl_effects = [Dispatch ''room-a'' (Update 1 5 [[2, 9]] 0)], cl_open = True\<rparr>"
  by (simp_all add: client_event_def connection_turn_def expire_fragments_def client_new_def connection_new_def
      default_server_config_def [of demo_codec] demo_decodes handle_message_def demo_connection_def)

definition demo_gateway :: "client \<Rightarrow> bytes room_slot \<Rightarrow> bytes gateway" where
  "demo_gateway c slot = \<lparr>gt_manager = \<lparr>rm_boot_id = 0, rm_config = default_actor_config,
     rm_rooms = [(''room-a'', slot)]\<rparr>, gt_clients = [Some c], gt_next_connection = 2\<rparr>"

lemma demo_gateway_simps:
  "client_at (demo_gateway c slot) 0 c"
  "slot_at (demo_gateway c slot) ''room-a'' slot"
  "set_client 0 d (demo_gateway c slot) = demo_gateway d slot"
  "put_slot ''room-a'' slot' (demo_gateway c slot) = demo_gateway c slot'"
  "(demo_gateway c slot)\<lparr>gt_manager := gt_manager (demo_gateway d slot')\<rparr> = demo_gateway c slot'"
  by (simp_all add: client_at_def slot_at_def set_client_def put_slot_def set_slot_def demo_gateway_def)

lemma demo_run:
  "\<exists>g. gateway_run sample_hashes toy_loro memory_store demo_codec default_actor_config
     (default_server_config demo_codec) (\<lambda>_. True) env
     [(''room-a'', Join 1 [] 0), (''room-a'', Update 1 5 [[2, 9]] 0)] g (snd (sample_updated_by 1 0 []))"
proof -
  let ?run = "gateway_run sample_hashes toy_loro memory_store demo_codec default_actor_config
    (default_server_config demo_codec) (\<lambda>_. True) env"
  let ?client = "\<lambda>es. \<lparr>cl_connection = demo_connection, cl_effects = es, cl_open = True\<rparr>"
  let ?join = "Join 1 [] 0" and ?update = "Update 1 5 [[2, 9]] 0"
  let ?slot = "\<lambda>a st q. \<lparr>rs_actor = a, rs_started = st, rs_queue = q\<rparr>"
  let ?w = "sample_world []"
  let ?handle = "\<lambda>cmd aw. snd (actor_handle sample_hashes toy_loro memory_store cmd aw)"
  have "?run [] (gateway_new 0 default_actor_config) ?w"
    by (rule gateway_run.boot) (simp_all add: sample_world_def)
  from gateway_run.connect [OF this]
  have "?run [] \<lparr>gt_manager = room_manager_new 0 default_actor_config, gt_clients = [Some (client_new 1 0)],
      gt_next_connection = 2\<rparr> ?w"
    by (simp add: gateway_new_def)
  from gateway_run.event [OF this, of 0 "client_new 1 0" 0 1 "BinaryFrame demo_join"]
  have "?run [] \<lparr>gt_manager = room_manager_new 0 default_actor_config,
      gt_clients = [Some (?client [Dispatch ''room-a'' ?join])], gt_next_connection = 2\<rparr> ?w"
    unfolding demo_events by (simp add: client_at_def client_new_def set_client_def)
  moreover have "manager_send sample_hashes toy_loro ''room-a'' ?join (room_manager_new 0 default_actor_config) =
      Some \<lparr>rm_boot_id = 0, rm_config = default_actor_config,
        rm_rooms = [(''room-a'', ?slot sample_new False [?join])]\<rparr>"
    by (simp add: manager_send_def manager_room_def handle_send_def room_manager_new_def set_slot_def sample_new_def
        default_actor_config_def)
  ultimately have "?run [] (demo_gateway (?client []) (?slot sample_new False [?join])) ?w"
    using gateway_run.dispatch [of sample_hashes toy_loro memory_store demo_codec default_actor_config
        "default_server_config demo_codec" "\<lambda>_. True" env "[]" _ ?w 0 "?client [Dispatch ''room-a'' ?join]"
        "''room-a''" ?join "[]"]
    by (fastforce simp: client_at_def set_client_def demo_gateway_def)
  from gateway_run.event [OF this demo_gateway_simps(1), of 1 2 "BinaryFrame demo_update"]
  have "?run [] (demo_gateway (?client [Dispatch ''room-a'' ?update]) (?slot sample_new False [?join])) ?w"
    unfolding demo_events by (simp add: demo_gateway_simps)
  note ready = this
  have sent: "manager_send sample_hashes toy_loro ''room-a'' ?update
      (gt_manager (demo_gateway (?client [Dispatch ''room-a'' ?update]) (?slot sample_new False [?join]))) =
      Some (gt_manager (demo_gateway (?client []) (?slot sample_new False [?join, ?update])))"
    by (simp add: manager_send_def manager_room_def handle_send_def set_slot_def demo_gateway_def
        default_actor_config_def)
  have "cl_effects (?client [Dispatch ''room-a'' ?update]) = [Dispatch ''room-a'' ?update]" by simp
  from gateway_run.dispatch [OF ready demo_gateway_simps(1) this sent]
  have run2: "?run [] (demo_gateway (?client []) (?slot sample_new False [?join, ?update])) ?w"
    by (simp add: demo_gateway_simps)
  obtain a1 w1 where started: "sample_started [] = (a1, w1)" by fastforce
  then have "slot_activate sample_hashes toy_loro memory_store (?slot sample_new False [?join, ?update]) ?w =
      (?slot a1 True [?join, ?update], w1)"
    by (simp add: slot_activate_def sample_started_def)
  from gateway_run.activate [OF run2 demo_gateway_simps(2) _ this]
  have run3: "?run [] (demo_gateway (?client []) (?slot a1 True [?join, ?update])) w1"
    by (simp add: demo_gateway_simps)
  obtain r2 a2 w2 where h2: "actor_handle sample_hashes toy_loro memory_store ?join (a1, w1) = (r2, (a2, w2))"
    by (metis prod_cases3)
  then have "slot_handle sample_hashes toy_loro memory_store ?join (?slot a1 True [?join, ?update]) w1 =
      (r2, (?slot a2 True [?update], w2))"
    by (simp add: slot_handle_def)
  from gateway_run.handle [OF run3 demo_gateway_simps(2) _ _ this]
  have run4: "?run [(''room-a'', ?join)] (demo_gateway (?client []) (?slot a2 True [?update])) w2"
    by (simp add: demo_gateway_simps)
  obtain r3 a3 w3 where h3: "actor_handle sample_hashes toy_loro memory_store ?update (a2, w2) = (r3, (a3, w3))"
    by (metis prod_cases3)
  then have "slot_handle sample_hashes toy_loro memory_store ?update (?slot a2 True [?update]) w2 =
      (r3, (?slot a3 True [], w3))"
    by (simp add: slot_handle_def)
  from gateway_run.handle [OF run4 demo_gateway_simps(2) _ _ this]
  have "?run [(''room-a'', ?join), (''room-a'', ?update)] (demo_gateway (?client []) (?slot a3 True [])) w3"
    by (simp add: demo_gateway_simps)
  moreover have "snd (sample_updated_by 1 0 []) = w3"
    by (simp add: sample_updated_by_def started h2 h3)
  ultimately show ?thesis by blast
qed

section \<open>Properties\<close>

text \<open>
  C2. Acknowledged updates are durable in the whole gateway. Take any run with any number of
  connections and rooms, on any append-only store: events and commands interleaved in any
  order, full channels, lost answers, rotations, other writers, and losses of the process. If
  a connection was sent the acknowledgement that a batch was accepted in a room, then that
  room had handled the batch from that connection, and the frame with exactly its updates is
  stored in a delta stream of that room.
\<close>

theorem gateway_acknowledged_durable:
  assumes "append_only_store store content valid"
    and "gateway_run h lo store codec config sconfig valid (grows content valid) cmds g w"
    and "(peer, Protocol (Ack c room b Ok)) \<in> set (wd_sent w)"
  shows "\<exists>conn us f bs gen k. (room, Update conn b us peer) \<in> set cmds \<and>
    frame_encode_with_limits h (ag_frame_limits config) f = Inr bs \<and> fr_batch_id f = b \<and> fr_updates f = us \<and>
    stored_at (content (wd_store w) (physical (delta_stream_for_generation h room gen))) k bs"
proof -
  have "(peer, room, b) \<in> accepted (wd_sent w)"
    using assms(3) by (auto simp: accepted_def)
  with append_only_store.gateway_accepted_durable [OF assms(1,2)]
  obtain conn us where "(room, Update conn b us peer) \<in> set cmds"
    and "durable_update h (ag_frame_limits config) room (content (wd_store w)) b us"
    unfolding accepted_durable_def by fastforce
  then show ?thesis
    unfolding durable_update_def by blast
qed

theorem gateway_acknowledged_durable_witness:
  "\<exists>f bs gen k. frame_encode_with_limits sample_hashes default_frame_limits f = Inr bs \<and> fr_updates f = [[2, 9]] \<and>
    stored_at (stream_bytes (wd_store (snd (sample_updated_by 1 0 [])))
      (physical (delta_stream_for_generation sample_hashes ''room-a'' gen))) k bs"
proof -
  obtain a w where u: "sample_updated_by 1 0 [] = (a, w)"
    and ack: "(0, Protocol (Ack CrdtLoro ''room-a'' 5 Ok)) \<in> set (wd_sent w)"
    using sample_updated_commit by blast
  obtain g where "gateway_run sample_hashes toy_loro memory_store demo_codec default_actor_config
      (default_server_config demo_codec) (\<lambda>_. True) (grows stream_bytes (\<lambda>_. True))
      [(''room-a'', Join 1 [] 0), (''room-a'', Update 1 5 [[2, 9]] 0)] g w"
    using demo_run unfolding u by auto
  from gateway_acknowledged_durable [OF memory.append_only_store_axioms this ack] show ?thesis
    by (auto simp: u default_actor_config_def)
qed

text \<open>
  C32. What the whole gateway keeps, in any run on any store. Each room has one actor, of the
  manager's boot identity and of its own name, whose channel holds no more commands than its
  capacity; an activated room has no pending append while it is ready and has one while it is
  blocked by one, and it is bound to the stream and the producer of its active generation. Each
  connection has its own channel and keeps its bounds on fragmented updates.
\<close>

theorem gateway_invariant:
  assumes "gateway_run h lo store codec config sconfig init env cmds g w"
  shows "distinct (map fst (rm_rooms (gt_manager g))) \<and>
    (\<forall>(room, slot) \<in> set (rm_rooms (gt_manager g)).
      ra_room_id (rs_actor slot) = room \<and> ra_boot_id (rs_actor slot) = rm_boot_id (gt_manager g) \<and>
      length (rs_queue slot) \<le> ag_command_capacity config \<and>
      (rs_started slot \<longrightarrow>
        (ra_lifecycle (rs_actor slot) = Ready \<longrightarrow> ra_blocked (rs_actor slot) = None) \<and>
        (ra_lifecycle (rs_actor slot) = AppendAmbiguous \<longrightarrow> ra_blocked (rs_actor slot) \<noteq> None) \<and>
        ra_stream (rs_actor slot) = physical (delta_stream_for_generation h room
          (ra_active_delta_generation (rs_actor slot))) \<and>
        ra_producer_id (rs_actor slot) = producer_id_for_generation h (rm_boot_id (gt_manager g)) room
          (ra_active_delta_generation (rs_actor slot)))) \<and>
    (\<forall>i < length (gt_clients g). \<forall>c. gt_clients g ! i = Some c \<longrightarrow> cn_peer (cl_connection c) = i \<and>
      length (cn_fragments (cl_connection c)) \<le> sv_max_fragment_batches sconfig \<and>
      (\<Sum>(k, b) \<leftarrow> cn_fragments (cl_connection c). unat (fb_total_size b)) \<le>
        unat (sv_max_fragment_bytes_per_connection sconfig))"
proof (intro conjI)
  have rooms: "manager_ok h lo (room_ok h) config (gt_manager g)"
    by (rule gateway_rooms [OF assms])
  show "distinct (map fst (rm_rooms (gt_manager g)))"
    using rooms by (simp add: manager_ok_def)
  show "\<forall>(room, slot) \<in> set (rm_rooms (gt_manager g)).
      ra_room_id (rs_actor slot) = room \<and> ra_boot_id (rs_actor slot) = rm_boot_id (gt_manager g) \<and>
      length (rs_queue slot) \<le> ag_command_capacity config \<and>
      (rs_started slot \<longrightarrow>
        (ra_lifecycle (rs_actor slot) = Ready \<longrightarrow> ra_blocked (rs_actor slot) = None) \<and>
        (ra_lifecycle (rs_actor slot) = AppendAmbiguous \<longrightarrow> ra_blocked (rs_actor slot) \<noteq> None) \<and>
        ra_stream (rs_actor slot) = physical (delta_stream_for_generation h room
          (ra_active_delta_generation (rs_actor slot))) \<and>
        ra_producer_id (rs_actor slot) = producer_id_for_generation h (rm_boot_id (gt_manager g)) room
          (ra_active_delta_generation (rs_actor slot)))"
  proof (intro ballI, unfold case_prod_beta)
    fix x assume "x \<in> set (rm_rooms (gt_manager g))"
    then have "slot_ok h lo (rm_boot_id (gt_manager g)) config (room_ok h) (fst x) (snd x)"
      using rooms by (auto simp: manager_ok_def)
    then show "ra_room_id (rs_actor (snd x)) = fst x \<and> ra_boot_id (rs_actor (snd x)) = rm_boot_id (gt_manager g) \<and>
      length (rs_queue (snd x)) \<le> ag_command_capacity config \<and>
      (rs_started (snd x) \<longrightarrow>
        (ra_lifecycle (rs_actor (snd x)) = Ready \<longrightarrow> ra_blocked (rs_actor (snd x)) = None) \<and>
        (ra_lifecycle (rs_actor (snd x)) = AppendAmbiguous \<longrightarrow> ra_blocked (rs_actor (snd x)) \<noteq> None) \<and>
        ra_stream (rs_actor (snd x)) = physical (delta_stream_for_generation h (fst x)
          (ra_active_delta_generation (rs_actor (snd x)))) \<and>
        ra_producer_id (rs_actor (snd x)) = producer_id_for_generation h (rm_boot_id (gt_manager g)) (fst x)
          (ra_active_delta_generation (rs_actor (snd x))))"
      by (auto simp: slot_ok_def room_ok_def generation_bound_def)
  qed
  show "\<forall>i < length (gt_clients g). \<forall>c. gt_clients g ! i = Some c \<longrightarrow> cn_peer (cl_connection c) = i \<and>
      length (cn_fragments (cl_connection c)) \<le> sv_max_fragment_batches sconfig \<and>
      (\<Sum>(k, b) \<leftarrow> cn_fragments (cl_connection c). unat (fb_total_size b)) \<le>
        unat (sv_max_fragment_bytes_per_connection sconfig)"
    using gateway_clients [OF assms]
    by (auto simp: clients_ok_def client_at_def client_ok_def connection_ok_def reserved_def)
qed

theorem gateway_invariant_witness:
  "\<exists>g. distinct (map fst (rm_rooms (gt_manager (g :: bytes gateway)))) \<and>
    gateway_run sample_hashes toy_loro memory_store demo_codec default_actor_config
     (default_server_config demo_codec) (\<lambda>_. True) (\<lambda>_ _. True)
     [(''room-a'', Join 1 [] 0), (''room-a'', Update 1 5 [[2, 9]] 0)] g (snd (sample_updated_by 1 0 []))"
proof -
  obtain g where run: "gateway_run sample_hashes toy_loro memory_store demo_codec default_actor_config
     (default_server_config demo_codec) (\<lambda>_. True) (\<lambda>_ _. True)
     [(''room-a'', Join 1 [] 0), (''room-a'', Update 1 5 [[2, 9]] 0)] g (snd (sample_updated_by 1 0 []))"
    using demo_run by blast
  with gateway_invariant [OF this] show ?thesis by blast
qed

end
