(* ===== verification/Actor_Limits.thy ===== *)
theory Actor_Limits
  imports Actor_Properties
begin

text \<open>
  Where the room actor's own promises end: what the retry of an ambiguous append reloads, and
  what a definite rejection means after an ambiguous attempt. The last two sections state what
  happens to a leave of a room that is not available and to a manifest that is full.
\<close>

section \<open>The reload after a retry\<close>

lemma load_history_append:
  "load_history lo history frames = Inr result \<Longrightarrow> result = history @ concat (map fr_updates frames)"
proof (induction frames arbitrary: history)
  case (Cons f frames)
  then have "load_history lo (history @ fr_updates f) frames = Inr result"
    by (auto elim: r_bind_InrE)
  from Cons.IH [OF this] show ?case by simp
qed simp

lemma load_from_store_Inr:
  assumes "load_from_store h lo store (a, w) = (Inr (history, doc), (a', w'))"
  shows "\<exists>observation frames replayed.
    us_read_all_observed store (ra_stream a) (wd_store w) = (Inr observation, wd_store w') \<and>
    frame_decode_all_with_limits h (ag_frame_limits (ra_config a)) (ro_bytes observation) = Inr frames \<and>
    length (ro_bytes observation) < 2 ^ 64 \<and> load_history lo [] frames = Inr history \<and> history = concat (map fr_updates frames) \<and>
    replay lo history = Inr replayed \<and> doc = rp_doc replayed"
  using assms
  by (auto simp: load_from_store_def Let_def map_err_Inl_iff ok_or_Inl_iff u64_of_usize_Some_iff
      elim!: s_bindE on_storeE dest!: load_history_append split: prod.splits sum.splits)

text \<open>
  The room after a successful retry of an ambiguous append: it is ready, its next sequence
  follows the pending one, and its history and document are what the frames of its active
  delta stream give, from an empty document. Nothing of the document before the retry, and
  nothing of the checkpoint of the room's manifest, enters the result; for a room that has
  been rotated or recovered from a checkpoint that is not the document it had.
\<close>

lemma retry_reloads_active_stream:
  assumes "retry_pending h lo store (a, w) = (True, (a', w'))"
  shows "\<exists>pending appended s observation frames replayed. ra_blocked a = Some pending \<and>
    resolve_append h store (ra_config a) pending (wd_store w) = (Inr appended, s) \<and>
    us_read_all_observed store (ra_stream a) s = (Inr observation, wd_store w') \<and>
    frame_decode_all_with_limits h (ag_frame_limits (ra_config a)) (ro_bytes observation) = Inr frames \<and>
    ra_history a' = concat (map fr_updates frames) \<and>
    replay lo (ra_history a') = Inr replayed \<and> ra_doc a' = rp_doc replayed \<and>
    unat (ra_producer_sequence a') = Suc (unat (pt_sequence (pa_producer pending))) \<and>
    ra_lifecycle a' = Ready \<and> ra_blocked a' = None"
proof -
  from assms obtain pending where p: "ra_blocked a = Some pending"
    by (auto simp: retry_pending_def split: option.splits)
  let ?a = "publish_status (a\<lparr>ra_blocked := None\<rparr>)"
  obtain x s where res: "resolve_append h store (ra_config a) pending (wd_store w) = (x, s)" by fastforce
  obtain y a2 w2 where load: "load_from_store h lo store (?a, w\<lparr>wd_store := s\<rparr>) = (y, (a2, w2))"
    by (metis prod.collapse)
  have config: "ra_config ?a = ra_config a" by simp
  from assms p res load obtain appended history doc q where x: "x = Inr appended" and y: "y = Inr (history, doc)"
    and q: "u64_checked_add (pt_sequence (pa_producer pending)) 1 = Some q"
    and a': "a' = transition Ready None (a2\<lparr>ra_producer_sequence := q, ra_history := history, ra_doc := doc\<rparr>)"
    and w': "w' = w2"
    by (auto simp: retry_pending_def on_store_def Let_def
        split: sum.splits option.splits prod.splits append_failure.splits)
  have "ra_blocked a2 = None"
    using load_from_store_frame [OF load] by simp
  moreover have "unat q = Suc (unat (pt_sequence (pa_producer pending)))"
    using u64_checked_add_unat [OF q] by simp
  moreover from load_from_store_Inr [OF load [unfolded y]]
  obtain observation frames replayed where
    "us_read_all_observed store (ra_stream a) s = (Inr observation, wd_store w2)"
    "frame_decode_all_with_limits h (ag_frame_limits (ra_config a)) (ro_bytes observation) = Inr frames"
    "history = concat (map fr_updates frames)" "replay lo history = Inr replayed" "doc = rp_doc replayed"
    by auto
  ultimately show ?thesis
    using p res unfolding x a' w'
    by (intro exI [of _ pending] exI [of _ appended] exI [of _ s] exI [of _ observation] exI [of _ frames]
        exI [of _ replayed]) simp
qed

text \<open>The frame of the sample room, alone on its stream.\<close>

lemma prepare_update_target: "prepare_update h lo c b us a = Inr (d, q, p) \<Longrightarrow> pa_target_stream p = ra_stream a"
  by (auto simp: prepare_update_def Let_def elim!: r_bind_InrE split: if_splits)

lemma sample_pending_decodes:
  "frame_decode_all_with_limits sample_hashes default_frame_limits (pa_bytes sample_room_pending) =
     Inr [pa_frame sample_room_pending]"
proof -
  have fits: "frame_fits default_frame_limits (pa_frame sample_room_pending)"
    and wf: "frame_wf sample_hashes (pa_frame sample_room_pending)"
    and bs: "pa_bytes sample_room_pending = frame_bytes sample_hashes (pa_frame sample_room_pending)"
    using sample_room_encode by (auto simp: sample_room_pending_def Let_def frame_encode_Inr_iff frame_wf_new)
  show ?thesis
    using frame_decode_loop_run [of "[pa_frame sample_room_pending]" sample_hashes default_frame_limits 0]
      fits wf sample_room_pending_sel(4)
    by (simp add: frame_decode_all_with_limits_def bs usize_limit_def frame_enforce_limit_run)
qed

section \<open>A rejection after an ambiguous attempt\<close>

text \<open>
  The store's rejection of a retry is reported as a definite rejection of the update, although
  the earlier, ambiguous attempt may have been committed: the room stays ready and its next
  frame reuses the sequence.
\<close>

lemma rejection_after_ambiguity:
  assumes prep: "prepare_update h lo c b us a = Inr (candidate, q, pending)"
    and first: "us_append store (pa_target_stream pending) (pa_producer pending) (pa_bytes pending) (wd_store w) =
      (Inl (Ambiguous lost), s)"
    and retry: "us_append store (pa_target_stream pending) (pa_producer pending) (pa_bytes pending) s =
      (Inl (Rejected kind m), t)"
    and "0 < ag_ambiguous_retries (ra_config a)"
  shows "actor_update h lo store c b us peer (a, w) =
    (a, send_ack peer (ra_room_id a) b (rejection_status kind) (w\<lparr>wd_store := t\<rparr>))"
proof -
  have "resolve_append h store (ra_config a) pending (wd_store w) = (Inl (DefinitelyRejected kind m), t)"
    using assms(4)
    by (simp add: resolve_append_def resolve_append_loop.simps [of h store _ _ _ 0] first)
      (simp add: resolve_append_loop.simps retry)
  then show ?thesis
    by (simp add: actor_update_def prep on_store_def)
qed

section \<open>A leave of a room that is not available\<close>

text \<open>
  A leave is forgotten while the room is corrupt or unavailable: the peer is still among the
  peers of the room afterwards, and receives its updates once the room is ready again.
\<close>

lemma leave_of_unavailable_room:
  "ra_lifecycle a \<in> {Corrupt, Unavailable} \<Longrightarrow>
    actor_handle h lo store (command.Leave c) (a, w) = (NoReply, (a, w))"
  by (auto simp: actor_handle_def reject_unavailable_def Let_def)

lemma retry_keeps_peers:
  "retry_pending h lo store (a, w) = (True, (a', w')) \<Longrightarrow> ra_peers a' = ra_peers a"
  by (auto simp: retry_pending_def Let_def split: option.splits sum.splits prod.splits append_failure.splits
      dest!: load_from_store_frame)

section \<open>A full manifest\<close>

text \<open>
  A manifest that holds the largest number of records it may hold is still extended by the
  next record of its chain, and what is then stored is refused by every later reader.
\<close>

lemma full_manifest_is_extended:
  assumes dec: "decode_manifest_stream h default_manifest_limits existing = Inr records"
    and full: "length records = ml_max_records default_manifest_limits"
    and chain: "validate_manifest_chain h (records @ [r]) room = Inr r"
    and enc: "manifest_encode h r = Inr encoded"
    and size: "length (existing @ encoded) < usize_limit"
  shows "manifest_extend h room r encoded existing = Inr (Some records)"
    and "decode_manifest_stream h default_manifest_limits (existing @ encoded) \<noteq> Inr rs"
proof -
  let ?l = default_manifest_limits
  have ne: "records \<noteq> []"
    using full by (auto simp: default_manifest_limits_def)
  have mc: "manifest_chain h room (records @ [r])"
    using chain by (simp add: validate_manifest_chain_eq)
  have existing: "existing = concat (map (manifest_layout h) records)"
    and adm: "\<forall>x \<in> set records. manifest_admitted h ?l x"
    using dec size by (auto simp: decode_manifest_stream_Inr_iff)
  have r: "manifest_admitted h ?l r" "encoded = manifest_layout h r"
    using enc by (auto simp: manifest_encode_layout)
  have last: "validate_manifest_chain h records room = Inr (last records)"
    using manifest_chain_prefix [OF mc ne] by (simp add: validate_manifest_chain_eq)
  have link: "unat (mf_revision r) = length records" "mf_previous_record_digest r = mf_digest (last records)"
    using mc ne by (auto simp: manifest_chain_def nth_append last_conv_nth dest!: spec [of _ "length records"])
  have rev: "unat (mf_revision (last records)) = length records - 1"
    using last by (simp add: validate_manifest_chain_eq manifest_chain_revision_last)
  have succ: "u64_checked_add (mf_revision (last records)) 1 = Some (mf_revision r)"
    using rev link(1) ne by (cases records) (simp_all add: u64_checked_succ_iff)
  have "existing \<noteq> []"
    using dec ne by (auto simp: decode_manifest_stream_def manifest_decode_loop.simps elim!: r_bind_InrE)
  moreover have "last records \<noteq> r"
    using rev link(1) ne by (cases records) auto
  ultimately show "manifest_extend h room r encoded existing = Inr (Some records)"
    by (simp add: manifest_extend_def dec last succ link(2))
  show "decode_manifest_stream h ?l (existing @ encoded) \<noteq> Inr rs"
  proof
    assume rs: "decode_manifest_stream h ?l (existing @ encoded) = Inr rs"
    obtain l' where same: "\<And>x. manifest_admitted h l' x \<longleftrightarrow> manifest_admitted h ?l x"
      and l': "ml_max_stream_bytes l' = ml_max_stream_bytes ?l" "ml_max_records l' = Suc (ml_max_records ?l)"
      by (rule that [of "?l\<lparr>ml_max_records := Suc (ml_max_records ?l)\<rparr>"])
        (simp_all add: manifest_admitted_def)
    note iff = decode_manifest_stream_Inr_iff [OF size, where h = h]
    note rs = rs [unfolded iff]
    have "decode_manifest_stream h l' (existing @ encoded) = Inr rs"
      unfolding iff same l' using rs by (blast intro: le_SucI)
    moreover have "existing @ encoded = concat (map (manifest_layout h) (records @ [r]))"
        "\<forall>x \<in> set (records @ [r]). manifest_admitted h ?l x"
        "length (records @ [r]) \<le> Suc (ml_max_records ?l)"
      using adm r full by (simp_all add: existing)
    then have "decode_manifest_stream h l' (existing @ encoded) = Inr (records @ [r])"
      unfolding iff same l' using rs by blast
    moreover have "length rs \<le> ml_max_records ?l"
      using rs by (cases rs) simp_all
    ultimately show False
      using full by (metis Suc_n_not_le_n length_append_singleton sum.inject(2))
  qed
qed

end
