(* ===== verification/Room_Start.thy ===== *)
theory Room_Start
  imports Actor_Limits
begin

text \<open>
  What a room's document is made of, in every run on every store, and what a start makes ready
  when the reads of the store may lag behind its tail, as those of an Ursula follower do.
\<close>

section \<open>The document and the history\<close>

text \<open>The document after the import of the updates, in their order, in one batch or several.\<close>

inductive imported :: "('d, 'v, 'x) loro \<Rightarrow> 'd \<Rightarrow> bytes list \<Rightarrow> 'd \<Rightarrow> bool" for lo where
  none: "imported lo d [] d"
| batch: "imported lo d us d' \<Longrightarrow> lo_import_batch lo d' vs = Inr (d'', pending) \<Longrightarrow> imported lo d (us @ vs) d''"

text \<open>A document the gateway imports into: an empty one or one restored from a snapshot.\<close>

definition import_base :: "('d, 'v, 'x) loro \<Rightarrow> 'd \<Rightarrow> bool" where
  "import_base lo d \<longleftrightarrow> d = lo_new lo \<or> (\<exists>snapshot. lo_from_snapshot lo snapshot = Inr d)"

text \<open>
  The document holds the history: it is observably a document into which all updates of the
  history have been imported.
\<close>

definition holds_history :: "('d, 'v, 'x) loro \<Rightarrow> bytes list \<Rightarrow> 'd \<Rightarrow> bool" where
  "holds_history lo history doc \<longleftrightarrow>
     (\<exists>base d. import_base lo base \<and> imported lo base history d \<and> same_document lo d doc)"

lemma holds_historyI:
  "import_base lo base \<Longrightarrow> imported lo base history d \<Longrightarrow> holds_history lo history d"
  by (auto simp: holds_history_def same_document_def)

lemma import_outcome_imported:
  "import_outcome lo d us = Inr x \<Longrightarrow> imported lo d us (rp_doc x)"
  using imported.batch [OF imported.none]
  by (fastforce simp: import_outcome_def intro: imported.none elim!: r_bind_InrE split: if_splits)

lemma replay_updates_imported:
  "imported lo d us d' \<Longrightarrow> replay_updates lo d' vs = Inr d'' \<Longrightarrow> imported lo d (us @ vs) d''"
  by (auto simp: replay_updates_def intro: imported.batch elim!: r_bind_InrE split: if_splits)

lemma replay_holds: "replay lo history = Inr x \<Longrightarrow> holds_history lo history (rp_doc x)"
  using import_outcome_imported by (intro holds_historyI [of lo "lo_new lo"]) (auto simp: replay_def import_base_def)

lemma candidate_holds:
  assumes "build_candidate lo doc history us = Inr x"
  shows "holds_history lo (history @ us) (rp_doc x)"
proof -
  from assms obtain snapshot base where "lo_from_snapshot lo snapshot = Inr base"
    "import_outcome lo base (history @ us) = Inr x"
    by (auto simp: build_candidate_def elim!: r_bind_InrE)
  then show ?thesis
    by (intro holds_historyI [OF _ import_outcome_imported]) (auto simp: import_base_def)
qed

lemma restored_imported:
  assumes "restore_checkpoint lo cp = Inr d"
  shows "\<exists>base. import_base lo base \<and> imported lo base (cp_pending_updates cp) d"
proof -
  from assms obtain base where base: "lo_from_snapshot lo (cp_snapshot cp) = Inr base"
    and d: "replay_updates lo base (cp_pending_updates cp) = Inr d"
    by (auto simp: restore_checkpoint_def replay_updates_def elim!: r_bind_InrE)
  then show ?thesis
    using replay_updates_imported [OF imported.none d] by (auto simp: import_base_def)
qed

lemma recovery_holds:
  assumes "recovery_of h lo room l held = Inr (Some rv)"
  shows "holds_history lo (rv_history rv) (rv_doc rv)"
  using assms
proof (rule recovery_of_Some)
  fix m cp d fs
  assume ck: "recover_checkpoint h lo room m
      (held (physical (checkpoint_stream h room (GenerationId (mf_checkpoint_generation m))))) = Inr (cp, d)"
    and hist: "rv_history rv = cp_pending_updates cp @ concat (map fr_updates fs)"
    and doc: "replay_updates lo d (concat (map fr_updates fs)) = Inr (rv_doc rv)"
  from recover_checkpoint_Inr [OF ck] obtain base where
    "import_base lo base" "imported lo base (cp_pending_updates cp) d"
    using restored_imported [of lo cp d] by auto
  then show ?thesis
    unfolding hist by (intro holds_historyI replay_updates_imported [OF _ doc])
qed

text \<open>Every handler keeps this.\<close>

abbreviation document_holds :: "('d, 'v, 'x) loro \<Rightarrow> 'd room_actor \<Rightarrow> bool" where
  "document_holds lo a \<equiv> holds_history lo (ra_history a) (ra_doc a)"

lemma recover_from_manifest_of:
  assumes "recover_from_manifest h lo store room l s = (Inr (Some rv), s')"
  shows "\<exists>held. recovery_of h lo room l held = Inr (Some rv)"
proof -
  let ?m = "physical (manifest_stream h room)"
  from assms obtain ms m cs cp d ds doc hist n where
    "ms \<noteq> []" "manifest_head_of h room ms = Inr m" "recover_checkpoint h lo room m cs = Inr (cp, d)"
    "recover_delta h lo l cp d ds = Inr (doc, hist, n)"
    and rv: "rv = \<lparr>rv_doc = doc, rv_history = hist,
       rv_checkpoint_generation = GenerationId (mf_checkpoint_generation m),
       rv_active_delta_generation = GenerationId (mf_active_delta_generation m),
       rv_active_delta_stream = physical (delta_stream_for_generation h room (GenerationId (mf_active_delta_generation m))),
       rv_active_delta_end_offset = n, rv_recovered_checkpoint_bytes = length cs,
       rv_recovered_delta_bytes = length ds\<rparr>"
    by (auto simp: recover_from_manifest_def Let_def elim!: s_bindE split: if_splits prod.splits)
  then have "recovery_of h lo room l ((\<lambda>_. [])(?m := ms,
      physical (checkpoint_stream h room (GenerationId (mf_checkpoint_generation m))) := cs,
      physical (delta_stream_for_generation h room (GenerationId (mf_active_delta_generation m))) := ds)) = Inr (Some rv)"
    by (simp add: recovery_of_def Let_def)
  then show ?thesis by blast
qed

lemma load_holds:
  assumes "load_from_store h lo store (a, w) = (Inr (history, doc), aw)"
  shows "holds_history lo history doc"
  using load_from_store_Inr [of h lo store a w history doc "fst aw" "snd aw"] assms replay_holds by auto

lemma start_holds:
  assumes "actor_start h lo store (room_actor_new h lo room boot config, w) = (a', w')"
  shows "document_holds lo a'"
proof -
  let ?n = "room_actor_new h lo room boot config"
  have new: "holds_history lo (ra_history ?n) (ra_doc ?n)"
    by (intro holds_historyI [of lo "lo_new lo"])
      (simp_all add: room_actor_new_def Let_def import_base_def imported.none)
  obtain r a w1 where init: "initialize h lo store (?n, w) = (r, (a, w1))" by (metis prod.collapse)
  have "document_holds lo a"
    using init new
    by (auto simp: initialize_def on_store_def elim!: s_bindE split: sum.splits option.splits prod.splits
        dest: load_holds load_from_store_frame recover_from_manifest_of [THEN exE, OF _ recovery_holds])
  with assms init show ?thesis
    by (auto simp: actor_start_def split: sum.splits)
qed

lemma update_holds:
  assumes "document_holds lo a" and "actor_update h lo store c b us peer (a, w) = (a', w')"
  shows "document_holds lo a'"
proof (cases "prepare_update h lo c b us a")
  case (Inl st)
  with assms show ?thesis by (auto simp: actor_update_def)
next
  case (Inr x)
  obtain d q p where x: "x = (d, q, p)" by (cases x)
  obtain pending where "build_candidate lo (ra_doc a) (ra_history a) us = Inr \<lparr>rp_doc = d, rp_has_pending = pending\<rparr>"
    using prepare_update_Inr [OF Inr [unfolded x]] by blast
  from candidate_holds [OF this] have new: "holds_history lo (ra_history a @ us) d" by simp
  obtain ro s where "resolve_append h store (ra_config a) p (wd_store w) = (ro, s)" by fastforce
  with assms Inr x new show ?thesis
    by (cases ro) (auto simp: actor_update_def on_store_def Let_def split: append_failure.splits)
qed

lemma retry_holds:
  assumes "document_holds lo a" and "retry_pending h lo store (a, w) = (r, (a', w'))"
  shows "document_holds lo a'"
  using assms
  by (auto simp: retry_pending_def Let_def dest: load_holds load_from_store_frame
      split: prod.splits option.splits sum.splits append_failure.splits)

lemma rotate_holds:
  assumes "document_holds lo a" and "rotate_generation h lo store (a, w) = (r, (a', w'))"
  shows "document_holds lo a'"
proof -
  have new: "holds_history lo (rt_retained_history x) (ra_doc a)"
    if "rotate_room h lo store (ra_room_id a) (ra_active_delta_generation a) (ra_active_delta_end_offset a)
      (ra_doc a) (ra_history a) (ag_ambiguous_retries (ra_config a)) s = (Inr x, s')" for s x s'
    using that
  proof (rule rotate_success)
    assume build: "build_checkpoint_record h lo (ra_room_id a) (gen_value (ra_active_delta_generation a))
        (gen_value (ra_active_delta_generation a)) (ra_active_delta_end_offset a) (ra_doc a) (ra_history a) =
      Inr (rt_checkpoint x)"
      and ret: "rt_retained_history x = cp_pending_updates (rt_checkpoint x)"
    from build show ?thesis
    proof (rule build_checkpoint_Inr)
      fix d assume "restore_checkpoint lo (rt_checkpoint x) = Inr d" "same_document lo d (ra_doc a)"
      with restored_imported [of lo "rt_checkpoint x" d] show ?thesis
        by (auto simp: holds_history_def ret)
    qed
  qed
  from assms show ?thesis
    by (auto simp: rotate_generation_def on_store_def dest!: new split: prod.splits sum.splits if_splits)
qed

lemma handle_holds:
  assumes "document_holds lo a" and "actor_handle h lo store cmd (a, w) = (r, (a', w'))"
  shows "document_holds lo a'"
proof (cases cmd)
  case (Update c b us peer)
  with assms update_holds [OF assms(1), of h store c b us peer w] show ?thesis
    by (auto simp: actor_handle_def reject_unavailable_def Let_def split: if_splits)
next
  case RetryAmbiguous
  with assms retry_holds [OF assms(1)] show ?thesis
    by (auto simp: actor_handle_def split: prod.splits)
next
  case Rotate
  with assms rotate_holds [OF assms(1)] show ?thesis
    by (auto simp: actor_handle_def split: prod.splits)
qed (use assms in \<open>auto simp: actor_handle_def actor_join_def reject_unavailable_def Let_def
      split: if_splits sum.splits\<close>)

lemma room_run_holds:
  "room_run h lo store room config init env cmds aw \<Longrightarrow> document_holds lo (fst aw)"
proof (induction rule: room_run.induct)
  case (handle cmds aw cmd)
  then show ?case using handle_holds by (metis prod.collapse)
next
  case (environment cmds a w s n)
  then show ?case by simp
qed (metis start_holds prod.collapse)+

section \<open>A start on reads that lag behind\<close>

lemma initialize_failure:
  "initialize h lo store (a, w) = (Inl f, (a', w')) \<Longrightarrow> if_state f \<in> {Corrupt, Unavailable}"
  using initialization_failure_state
  by (auto simp: initialize_def elim!: s_bindE on_storeE dest!: load_from_store_frame
      split: prod.splits sum.splits option.splits)

text \<open>A room recovered from its manifest, in terms of the prefixes its recovery has read.\<close>

definition recovered_from ::
  "hashes \<Rightarrow> ('d, 'v, 'x) loro \<Rightarrow> string \<Rightarrow> (string \<Rightarrow> bytes) \<Rightarrow> 'd room_actor \<Rightarrow> bool" where
  "recovered_from h lo room held a \<longleftrightarrow>
     (\<exists>rs m cp bs d fs.
       prefix (concat (map (manifest_layout h) (rs @ [m]))) (held (physical (manifest_stream h room))) \<and>
       validate_manifest_chain h (rs @ [m]) room = Inr m \<and>
       prefix bs (held (physical (checkpoint_stream h room (GenerationId (mf_checkpoint_generation m))))) \<and>
       verifies_checkpoint_bytes h m bs \<and> checkpoint_encode h cp = Inr bs \<and>
       checkpoint_belongs_to_room h cp room \<and> cp_checkpoint_generation cp = mf_checkpoint_generation m \<and>
       restore_checkpoint lo cp = Inr d \<and>
       ra_active_delta_generation a = GenerationId (mf_active_delta_generation m) \<and>
       prefix (concat (map (frame_bytes h) fs)) (held (physical (delta_stream_for_generation h room (ra_active_delta_generation a)))) \<and>
       (\<forall>f \<in> set fs. frame_wf h f) \<and> replay_updates lo d (concat (map fr_updates fs)) = Inr (ra_doc a) \<and>
       ra_history a = cp_pending_updates cp @ concat (map fr_updates fs))"

text \<open>A room loaded from its first delta stream, likewise.\<close>

definition loaded_from ::
  "hashes \<Rightarrow> ('d, 'v, 'x) loro \<Rightarrow> string \<Rightarrow> (string \<Rightarrow> bytes) \<Rightarrow> 'd room_actor \<Rightarrow> bool" where
  "loaded_from h lo room held a \<longleftrightarrow> ra_active_delta_generation a = gen_zero \<and>
     (\<exists>fs x. prefix (concat (map (frame_bytes h) fs)) (held (physical (delta_stream_for_generation h room gen_zero))) \<and>
       (\<forall>f \<in> set fs. frame_wf h f) \<and> ra_history a = concat (map fr_updates fs) \<and> replay lo (ra_history a) = Inr x \<and> ra_doc a = rp_doc x)"

lemma recovery_of_recovered_from:
  assumes rv: "recovery_of h lo room l held = Inr (Some rv)" and held: "\<forall>n. prefix (held n) (held' n)"
    and a: "ra_active_delta_generation a = rv_active_delta_generation rv" "ra_history a = rv_history rv"
      "ra_doc a = rv_doc rv"
  shows "recovered_from h lo room held' a"
  using rv
proof (rule recovery_of_Some)
  fix m cp d fs
  assume head: "manifest_head_of h room (held (physical (manifest_stream h room))) = Inr m"
    and ck: "recover_checkpoint h lo room m
      (held (physical (checkpoint_stream h room (GenerationId (mf_checkpoint_generation m))))) = Inr (cp, d)"
    and gen: "rv_active_delta_generation rv = GenerationId (mf_active_delta_generation m)"
    and stream: "rv_active_delta_stream rv = physical (delta_stream_for_generation h room (rv_active_delta_generation rv))"
    and dec: "frame_decode_all_with_limits h l (held (rv_active_delta_stream rv)) = Inr fs"
    and hist: "rv_history rv = cp_pending_updates cp @ concat (map fr_updates fs)"
      "replay_updates lo d (concat (map fr_updates fs)) = Inr (rv_doc rv)"
  from manifest_head_of_Inr [OF head] obtain rs where
    rs: "held (physical (manifest_stream h room)) = concat (map (manifest_layout h) (rs @ [m]))"
      "validate_manifest_chain h (rs @ [m]) room = Inr m"
    by (auto simp: chain_with_head_def validate_manifest_chain_eq)
  have bytes: "held (rv_active_delta_stream rv) = concat (map (frame_bytes h) fs)" and wf: "\<forall>f \<in> set fs. frame_wf h f"
    using frame_decode_all_Inr [OF dec] by simp_all
  have "prefix (concat (map (manifest_layout h) (rs @ [m]))) (held' (physical (manifest_stream h room)))"
    using held by (metis rs(1))
  moreover have "prefix (concat (map (frame_bytes h) fs))
      (held' (physical (delta_stream_for_generation h room (ra_active_delta_generation a))))"
    using held by (metis bytes stream a(1))
  ultimately show ?thesis
    using held rs(2) recover_checkpoint_Inr [OF ck] hist gen wf unfolding recovered_from_def a by blast
qed

context append_only_store
begin

lemma start_from_prefixes:
  assumes v: "valid (wd_store w)"
    and run: "actor_start h lo store (room_actor_new h lo room boot config, w) = (a', w')"
    and ready: "ra_lifecycle a' = Ready"
  shows "loaded_from h lo room (content (wd_store w')) a' \<or> recovered_from h lo room (content (wd_store w')) a'"
proof -
  let ?n = "room_actor_new h lo room boot config" and ?l = "ag_frame_limits config"
  have new: "ra_room_id ?n = room" "ra_config ?n = config" "ra_active_delta_generation ?n = gen_zero"
    "ra_stream ?n = physical (delta_stream_for_generation h room gen_zero)"
    by (simp_all add: room_actor_new_def Let_def delta_stream_def)
  obtain r a1 w1 where init: "initialize h lo store (?n, w) = (r, (a1, w1))" by (metis prod.collapse)
  have w': "w' = w1" and r: "r = Inr ()" and a': "a' = transition Ready None a1"
    using run ready init initialize_failure [of h lo store ?n w]
    by (cases r; force simp: actor_start_def)+
  obtain rr s1 where rec: "recover_from_manifest h lo store room ?l (wd_store w) = (rr, s1)" by fastforce
  have v1: "valid s1"
    using recover_step [OF grows_start [OF v], of h lo room ?l] by (simp add: rec grows_def)
  consider rv where "rr = Inr (Some rv)" | "rr = Inr None"
    using init rec by (cases rr) (auto simp: initialize_def on_store_def new r split: option.splits)
  then show ?thesis
  proof cases
    case (1 rv)
    from recover_prefixes [OF v rec] 1 obtain held where
      "\<forall>n. prefix (held n) (content s1 n)" "recovery_of h lo room ?l held = Inr (Some rv)" by blast
    moreover have "wd_store w1 = s1" "ra_active_delta_generation a' = rv_active_delta_generation rv"
      "ra_history a' = rv_history rv" "ra_doc a' = rv_doc rv"
      using init rec 1 by (auto simp: initialize_def on_store_def new a')
    ultimately show ?thesis
      by (auto simp: w' intro: recovery_of_recovered_from)
  next
    case 2
    obtain re s2 where ens: "us_ensure_stream store (ra_stream ?n) s1 = (re, s2)" by fastforce
    have v2: "valid s2"
      using ensure_law [OF v1 ens] by simp
    obtain rl a3 w3 where load: "load_from_store h lo store (?n, w\<lparr>wd_store := s2\<rparr>) = (rl, (a3, w3))"
      by (metis prod.collapse)
    from init rec 2 ens load r obtain history doc where rl: "rl = Inr (history, doc)"
      and a1: "a1 = a3\<lparr>ra_history := history, ra_doc := doc\<rparr>" and w1: "w1 = w3"
      by (auto simp: initialize_def on_store_def new split: sum.splits elim!: s_bindE)
    from load_from_store_Inr [OF load [unfolded rl]] obtain ob fs x where
      ob: "us_read_all_observed store (ra_stream ?n) s2 = (Inr ob, wd_store w3)"
      and dec: "frame_decode_all_with_limits h ?l (ro_bytes ob) = Inr fs"
      and hist: "history = concat (map fr_updates fs)" "replay lo history = Inr x" "doc = rp_doc x"
      by (auto simp: new)
    have "prefix (ro_bytes ob) (content (wd_store w3) (ra_stream ?n))"
      using read_all_observed_law [OF v2 ob] by simp
    moreover have "ra_active_delta_generation a3 = gen_zero"
      using load_from_store_frame [OF load] by (simp add: new)
    ultimately show ?thesis
      using frame_decode_all_Inr [OF dec] hist
      by (auto simp: loaded_from_def a' a1 w' w1 new)
  qed
qed

end

section \<open>Property\<close>

text \<open>
  C34. What a start makes ready on a store whose reads may be stale, as Ursula's are. On every
  append-only store, the HTTP client included, a room that is ready after a start was loaded
  from whole frames at the beginning of its first delta stream, or recovered from a valid chain
  at the beginning of its manifest, a checkpoint that the chain's head binds and that belongs to
  the room, and whole frames at the beginning of the delta stream the head names; its history
  and document are exactly what these give. Nothing torn, foreign or reordered gets in. That the
  prefixes are the whole streams is not promised, and the witness is a start that is ready
  without a frame its stream holds.
\<close>

theorem start_reads_prefixes:
  assumes "append_only_store store content valid" and "valid (wd_store w)"
    and "actor_start h lo store (room_actor_new h lo room boot config, w) = (a, w')" and "ra_lifecycle a = Ready"
  shows "(ra_active_delta_generation a = gen_zero \<and> (\<exists>fs x.
      prefix (concat (map (frame_bytes h) fs))
        (content (wd_store w') (physical (delta_stream_for_generation h room gen_zero))) \<and>
      (\<forall>f \<in> set fs. frame_wf h f) \<and> ra_history a = concat (map fr_updates fs) \<and> replay lo (ra_history a) = Inr x \<and> ra_doc a = rp_doc x)) \<or>
    (\<exists>rs m cp bs d fs.
      prefix (concat (map (manifest_layout h) (rs @ [m]))) (content (wd_store w') (physical (manifest_stream h room))) \<and>
      validate_manifest_chain h (rs @ [m]) room = Inr m \<and>
      prefix bs (content (wd_store w')
        (physical (checkpoint_stream h room (GenerationId (mf_checkpoint_generation m))))) \<and>
      verifies_checkpoint_bytes h m bs \<and> checkpoint_encode h cp = Inr bs \<and>
      checkpoint_belongs_to_room h cp room \<and> cp_checkpoint_generation cp = mf_checkpoint_generation m \<and>
      restore_checkpoint lo cp = Inr d \<and>
      ra_active_delta_generation a = GenerationId (mf_active_delta_generation m) \<and>
      prefix (concat (map (frame_bytes h) fs)) (content (wd_store w')
        (physical (delta_stream_for_generation h room (ra_active_delta_generation a)))) \<and>
      (\<forall>f \<in> set fs. frame_wf h f) \<and> replay_updates lo d (concat (map fr_updates fs)) = Inr (ra_doc a) \<and>
      ra_history a = cp_pending_updates cp @ concat (map fr_updates fs))"
  using append_only_store.start_from_prefixes [OF assms]
  unfolding loaded_from_def recovered_from_def .

text \<open>The in-memory store behind a follower that has not seen anything yet.\<close>

definition stale_memory :: "memory_state ursula_store" where
  "stale_memory = memory_store
     \<lparr>us_read_all := \<lambda>n s. (Inr [], s),
      us_read_all_observed := \<lambda>n s. (Inr \<lparr>ro_bytes = [], ro_request_count = 1\<rparr>, s)\<rparr>"

interpretation stale_memory: append_only_store stale_memory stream_bytes "\<lambda>_. True"
  using memory.ensure_law memory.read_range_law memory.append_law
  by unfold_locales (auto simp: stale_memory_def)

definition stale_world :: "memory_state world" where
  "stale_world = (sample_world [])
     \<lparr>wd_store := set_stream_bytes sample_delta (frame_bytes sample_hashes sample_frame) memory_new\<rparr>"

theorem start_reads_prefixes_witness:
  "\<exists>a w fs. actor_start sample_hashes toy_loro stale_memory (sample_new, stale_world) = (a, w) \<and>
    ra_lifecycle a = Ready \<and> ra_history a = [] \<and>
    prefix (concat (map (frame_bytes sample_hashes) fs)) (frame_bytes sample_hashes sample_frame) \<and>
    concat (map fr_updates fs) = [] \<and>
    stream_bytes (wd_store w) sample_delta = frame_bytes sample_hashes sample_frame"
proof -
  have mem: "us_ensure_stream stale_memory = memory_ensure_stream"
    by (simp add: stale_memory_def)
  obtain a w where run: "actor_start sample_hashes toy_loro stale_memory (sample_new, stale_world) = (a, w)"
    by fastforce
  then have a: "ra_lifecycle a = Ready" "ra_history a = []" "ra_active_delta_generation a = gen_zero"
    and w: "stream_bytes (wd_store w) sample_delta = frame_bytes sample_hashes sample_frame"
      "stream_bytes (wd_store w) (physical (manifest_stream sample_hashes ''room-a'')) = []"
    by (auto simp: actor_start_def initialize_def sample_new_def stale_world_def sample_world_def
        room_actor_new_def Let_def delta_stream_def on_store_def recover_from_manifest_def mem stale_memory_def
        memory_ensure_stream_def memory_new_def stream_bytes_def set_stream_bytes_def
        load_from_store_def frame_decode_empty replay_def import_outcome_def u64_of_usize_def)
  from start_reads_prefixes [OF stale_memory.append_only_store_axioms TrueI run [unfolded sample_new_def] a(1)] a(3)
  have "\<exists>fs. prefix (concat (map (frame_bytes sample_hashes) fs)) (frame_bytes sample_hashes sample_frame) \<and>
      concat (map fr_updates fs) = []"
    using manifest_codec.layout_nonempty by (auto simp: w a(2))
  then show ?thesis
    using run a(1,2) w(1) by blast
qed

end
