(* ===== verification/Idempotent_Store.thy ===== *)
theory Idempotent_Store
  imports Resolve_Append
begin

text \<open>
  What a store has to promise so that a retried append is neither lost nor repeated: an
  \<open>exclusive_store\<close> that answers a tuple it has taken with a duplicate, before any other
  check, and no other tuple so. An append under a tuple the store has not taken then ends in
  one of three ways: the body is appended exactly once, it is rejected and not appended, or the
  outcome is unknown. The in-memory store meets the contract while its script answers neither
  with rejections nor with duplicates of its own.
\<close>

section \<open>The contract\<close>

text \<open>The last sequence taken from a producer is below, or at most, the one it sends next.\<close>

definition taken_below :: "u64 option \<Rightarrow> u64 \<Rightarrow> bool" where
  "taken_below latest q \<longleftrightarrow> (\<forall>t. latest = Some t \<longrightarrow> t < q)"

definition taken_upto :: "u64 option \<Rightarrow> u64 \<Rightarrow> bool" where
  "taken_upto latest q \<longleftrightarrow> (\<forall>t. latest = Some t \<longrightarrow> t \<le> q)"

lemma taken_none [simp]: "taken_below None q" "taken_upto None q"
  by (simp_all add: taken_below_def taken_upto_def)

lemma taken_below_iff: "taken_below latest (pt_sequence p) \<longleftrightarrow> taken_upto latest (pt_sequence p) \<and> \<not> covered latest p"
  by (auto simp: taken_below_def taken_upto_def covered_def split: option.splits)

lemma taken_upto_next:
  "taken_upto latest q \<Longrightarrow> u64_checked_add q 1 = Some q' \<Longrightarrow> taken_below latest q'"
  by (auto simp: taken_upto_def taken_below_def word_less_nat_alt word_le_nat_alt u64_checked_succ_iff le_imp_less_Suc)

locale idempotent_store = exclusive_store store content valid seen
  for store :: "'s ursula_store" and content :: "'s \<Rightarrow> string \<Rightarrow> bytes" and valid :: "'s \<Rightarrow> bool"
    and seen :: "'s \<Rightarrow> string \<Rightarrow> string \<Rightarrow> u64 option" +
  assumes read_all_observed_fresh: "valid s \<Longrightarrow> us_read_all_observed store n s = (ro, s') \<Longrightarrow>
      content s' = content s \<and> seen s' = seen s \<and> (\<forall>ob. ro = Inr ob \<longrightarrow> ro_bytes ob = content s n)"
    and append_seen: "valid s \<Longrightarrow> body \<noteq> [] \<Longrightarrow> us_append store n p body s = (rp, s') \<Longrightarrow>
      seen s' n \<in> {seen s n, (seen s n)(pt_id p \<mapsto> pt_sequence p)}"
    and duplicate_covered: "valid s \<Longrightarrow> body \<noteq> [] \<Longrightarrow> us_append store n p body s = (Inr (Duplicate k), s') \<Longrightarrow>
      covered (seen s n (pt_id p)) p"
    and rejected_uncovered: "valid s \<Longrightarrow> body \<noteq> [] \<Longrightarrow> us_append store n p body s = (Inl (Rejected kind m), s') \<Longrightarrow>
      \<not> covered (seen s n (pt_id p)) p"
    and empty_unseen: "valid s \<Longrightarrow> content s n = [] \<Longrightarrow> seen s n i = None"
begin

section \<open>The exact append\<close>

lemma append_upto:
  assumes "valid s" and "body \<noteq> []" and "us_append store n p body s = (r, s')"
    and "taken_upto (seen s n (pt_id p)) (pt_sequence p)"
  shows "taken_upto (seen s' n (pt_id p)) (pt_sequence p)"
  using append_seen [OF assms(1-3)] assms(4) by (auto simp: taken_upto_def)

lemma exact_loop_upto:
  assumes "valid s" and "body \<noteq> []" and "append_exact_loop store n p body m i s = (r, s')"
    and "taken_upto (seen s n (pt_id p)) (pt_sequence p)"
  shows "taken_upto (seen s' n (pt_id p)) (pt_sequence p)"
  using assms
proof (induction "m - i" arbitrary: i s rule: less_induct)
  case less
  obtain ro t where ap: "us_append store n p body s = (ro, t)"
    by (cases "us_append store n p body s") auto
  have vt: "valid t" and ut: "taken_upto (seen t n (pt_id p)) (pt_sequence p)"
    using append_law [OF less.prems(1,2) ap] append_upto [OF less.prems(1,2) ap less.prems(4)] by auto
  consider k where "ro = Inr (Duplicate k)" | e where "ro = Inl (Ambiguous e)" "i < m"
    | "s' = t"
    using less.prems(3) ap
    by (cases ro) (auto simp: append_exact_loop.simps [of store n p body m i]
        split: append_outcome.splits store_error.splits if_splits)
  then show ?case
  proof cases
    case (1 k)
    obtain rv u where v: "exact_verify_duplicate_bytes store n k body t = (rv, u)"
      by (cases "exact_verify_duplicate_bytes store n k body t") auto
    then have "s' = u"
      using less.prems(3) ap 1 by (cases rv) (auto simp: append_exact_loop.simps)
    with exact_verify_same [OF vt v] ut show ?thesis by (simp add: taken_upto_def)
  next
    case (2 e)
    with less.prems(3) ap have "append_exact_loop store n p body m (i + 1) t = (r, s')"
      by (simp add: append_exact_loop.simps [of store n p body m i])
    with less.hyps [of "i + 1" t] 2 vt ut less.prems(2) show ?thesis by simp
  qed (use ut in simp)
qed

lemma resolve_upto:
  assumes "pending_ok h (ag_frame_limits config) p" and "valid s" and "resolve_append h store config p s = (r, s')"
    and "taken_upto (seen s (pa_target_stream p) (pt_id (pa_producer p))) (pt_sequence (pa_producer p))"
  shows "taken_upto (seen s' (pa_target_stream p) (pt_id (pa_producer p))) (pt_sequence (pa_producer p))"
proof -
  from resolve_exact [OF assms(1,3)] obtain x where
    "append_exact_with_retry store (pa_target_stream p) (pa_producer p) (pa_bytes p)
      (ag_ambiguous_retries config) s = (x, s')" by metis
  with exact_loop_upto [OF assms(2) pending_ok_decodes(2) [OF assms(1)] _ assms(4)] pending_ok_decodes(2) [OF assms(1)]
  show ?thesis by (simp add: append_exact_with_retry_def)
qed

lemma verify_duplicate_same:
  assumes "valid s" and "verify_duplicate h store l p k s = (r, s')"
  shows "content s' = content s \<and> (\<forall>kind m. r \<noteq> Inl (DefinitelyRejected kind m))"
proof -
  have "content (snd (us_read_range store n start len s)) = content s" for n start len
    using read_range_same [OF assms(1)] by (metis prod.collapse)
  with assms(2) show ?thesis
    by (auto simp: verify_duplicate_def Let_def s_bind_def s_err_def map_err_def ok_or_def
        split: sum.splits prod.splits option.splits)
qed

text \<open>
  How the attempts end. \<open>c0\<close> is the stream before the first one; at every attempt the body has
  been appended exactly when the store has taken the tuple.
\<close>

lemma resolve_loop_ends:
  fixes p defines "n \<equiv> pa_target_stream p" and "body \<equiv> pa_bytes p" and "pr \<equiv> pa_producer p"
  assumes "valid s" and body: "body \<noteq> []" and "resolve_append_loop h store l m p i s = (r, s')"
    and "content s n = (if covered (seen s n (pt_id pr)) pr then c0 @ body else c0)"
  shows "(\<forall>y. r = Inr y \<longrightarrow> content s' n = c0 @ body) \<and>
    (\<forall>kind e. r = Inl (DefinitelyRejected kind e) \<longrightarrow> content s' n = c0 \<and> \<not> covered (seen s' n (pt_id pr)) pr)"
  using assms(4,6,7)
proof (induction "m - i" arbitrary: i s rule: less_induct)
  case less
  obtain ro t where ap: "us_append store n pr body s = (ro, t)"
    by (cases "us_append store n pr body s") auto
  note step = resolve_append_loop.simps [of h store l m p i s, folded n_def body_def pr_def]
  note law = append_exclusive [OF less.prems(1) body ap] and same = append_covered_same [OF less.prems(1) body ap]
  have vt: "valid t"
    using append_law [OF less.prems(1) body ap] by simp
  consider k where "ro = Inr (append_outcome.Committed k)" | k where "ro = Inr (Duplicate k)"
    | kind e where "ro = Inl (Rejected kind e)" | e where "ro = Inl (Ambiguous e)" "i < m"
    | e where "r = Inl (OutcomeUnknown e)"
    using less.prems(2) ap
    by (cases ro) (auto simp: step split: append_outcome.splits store_error.splits if_splits)
  then show ?case
  proof cases
    case (1 k)
    with law ap less.prems(2,3) show ?thesis by (auto simp: step)
  next
    case (2 k)
    have cov: "covered (seen s n (pt_id pr)) pr"
      using duplicate_covered [OF less.prems(1) body] ap 2 by blast
    have "verify_duplicate h store l p k t = (r, s')"
      using less.prems(2) ap 2 by (simp add: step)
    from verify_duplicate_same [OF vt this] same cov less.prems(3) show ?thesis by simp
  next
    case (3 kind e)
    have "\<not> covered (seen s n (pt_id pr)) pr"
      using rejected_uncovered [OF less.prems(1) body] ap 3 by blast
    with law ap 3 less.prems(2,3) show ?thesis by (auto simp: step)
  next
    case (4 e)
    have "content t n = (if covered (seen t n (pt_id pr)) pr then c0 @ body else c0)"
    proof (cases "covered (seen s n (pt_id pr)) pr")
      case True
      with same less.prems(3) show ?thesis by simp
    next
      case False
      with law 4 less.prems(3) show ?thesis by (auto simp: covered_def)
    qed
    moreover have "resolve_append_loop h store l m p (i + 1) t = (r, s')"
      using less.prems(2) ap 4 by (simp add: step)
    ultimately show ?thesis
      using less.hyps [of "i + 1" t] 4 vt by simp
  qed simp
qed

text \<open>
  The append of a tuple the store has not taken: on success the stream has grown by exactly
  the body, after a definite rejection it is what it was.
\<close>

lemma resolve_ends:
  assumes ok: "pending_ok h (ag_frame_limits config) p" and v: "valid s"
    and run: "resolve_append h store config p s = (r, s')"
    and below: "taken_below (seen s (pa_target_stream p) (pt_id (pa_producer p))) (pt_sequence (pa_producer p))"
  shows "\<And>y. r = Inr y \<Longrightarrow> content s' (pa_target_stream p) = content s (pa_target_stream p) @ pa_bytes p"
    and "\<And>kind e. r = Inl (DefinitelyRejected kind e) \<Longrightarrow>
      content s' (pa_target_stream p) = content s (pa_target_stream p) \<and>
      taken_below (seen s' (pa_target_stream p) (pt_id (pa_producer p))) (pt_sequence (pa_producer p))"
  using resolve_loop_ends [OF v pending_ok_decodes(2) [OF ok] run [unfolded resolve_append_def]]
    resolve_upto [OF ok v run] below by (auto simp: taken_below_iff)

end

section \<open>The in-memory store\<close>

text \<open>The script neither rejects, nor invents duplicates, nor corrupts; untouched streams have no producers.\<close>

definition memory_faithful :: "memory_state \<Rightarrow> bool" where
  "memory_faithful s \<longleftrightarrow> memory_honest s \<and>
     (\<forall>b \<in> set (ms_behaviors s). b \<noteq> Reject \<and> (\<forall>k. b \<noteq> DuplicateAt k)) \<and>
     (\<forall>n i. stream_bytes s n = [] \<longrightarrow> memory_seen s n i = None)"

lemma memory_commit_sequences:
  "memory_commit n p body s = (r, s') \<Longrightarrow>
    ms_behaviors s' = ms_behaviors s \<and> memory_seen s' n \<in> {memory_seen s n, (memory_seen s n)(pt_id p \<mapsto> pt_sequence p)}"
  by (auto simp: memory_commit_def Let_def set_stream_bytes_def memory_seen_def fun_eq_iff split: option.splits)

lemma memory_behave_faithful:
  assumes run: "memory_behave b n p body s = (r, s')" and b: "b \<noteq> Reject" "\<forall>k. b \<noteq> DuplicateAt k"
    "b \<noteq> CommitCorruptThenAmbiguous"
  shows "ms_behaviors s' = ms_behaviors s \<and>
    memory_seen s' n \<in> {memory_seen s n, (memory_seen s n)(pt_id p \<mapsto> pt_sequence p)} \<and>
    (\<forall>k. r \<noteq> Inr (Duplicate k)) \<and> (\<forall>kind m. r \<noteq> Inl (Rejected kind m))"
proof (cases "memory_commit n p body s")
  case (Pair c t)
  note commit = memory_commit_sequences [OF Pair] memory_commit_cases [OF Pair]
  show ?thesis
  proof (cases c)
    case (Inl e)
    with commit have "\<exists>m. e = Integrity m" by auto
    with run b commit(1) Pair Inl show ?thesis by (cases b) auto
  next
    case (Inr k)
    with run b commit(1) Pair show ?thesis by (cases b) auto
  qed
qed

lemma memory_admit_answers:
  assumes "memory_admit n p s = Some r"
  shows "(\<forall>k. r = Inr (Duplicate k) \<longrightarrow> covered (memory_seen s n (pt_id p)) p) \<and>
    (\<forall>kind m. r = Inl (Rejected kind m) \<longrightarrow> \<not> covered (memory_seen s n (pt_id p)) p)"
  using assms by (auto simp: memory_admit_def covered_def memory_seen_def split: option.splits if_splits)

lemma memory_append_faithful:
  assumes run: "memory_append n p body s = (r, s')" and f: "memory_faithful s" and body: "body \<noteq> []"
  shows "memory_faithful s' \<and>
    memory_seen s' n \<in> {memory_seen s n, (memory_seen s n)(pt_id p \<mapsto> pt_sequence p)} \<and>
    (\<forall>k. r = Inr (Duplicate k) \<longrightarrow> covered (memory_seen s n (pt_id p)) p) \<and>
    (\<forall>kind m. r = Inl (Rejected kind m) \<longrightarrow> \<not> covered (memory_seen s n (pt_id p)) p)"
proof -
  let ?s = "s\<lparr>ms_attempts := ms_attempts s @ [(p, body)]\<rparr>"
  have "memory_honest s"
    using f by (simp add: memory_faithful_def)
  note excl = memory_append_exclusive [OF run this]
  have unseen: "memory_seen s' m i = None" if "stream_bytes s' m = []" for m i
  proof (cases "m = n")
    case True
    with excl that body have "stream_bytes s n = []" "memory_seen s' n = memory_seen s n" by auto
    with True f show ?thesis by (simp add: memory_faithful_def)
  next
    case False
    with excl that f show ?thesis by (simp add: memory_faithful_def)
  qed
  show ?thesis
  proof (cases "memory_admit n p ?s")
    case (Some o1)
    then have "r = o1" and s': "s' = ?s"
      using run by (simp_all add: memory_append_def Let_def)
    with memory_admit_answers [OF Some] f show ?thesis
      by (simp add: memory_faithful_def)
  next
    case None
    obtain b t where pop: "pop_behavior ?s = (b, t)" by fastforce
    then have beh: "memory_behave b n p body t = (r, s')"
      using run None by (simp add: memory_append_def Let_def)
    have t: "memory_seen t = memory_seen s" "memory_honest t" "b \<noteq> CommitCorruptThenAmbiguous"
      using pop_behavior_same [OF pop] f by (simp_all add: memory_faithful_def)
    have script: "b \<noteq> Reject" "\<forall>k. b \<noteq> DuplicateAt k" "set (ms_behaviors t) \<subseteq> set (ms_behaviors s)"
      using pop f by (auto simp: pop_behavior_def memory_faithful_def split: list.splits)
    have bs: "ms_behaviors s' = ms_behaviors t" "\<forall>k. r \<noteq> Inr (Duplicate k)" "\<forall>kind m. r \<noteq> Inl (Rejected kind m)"
      "memory_seen s' n \<in> {memory_seen s n, (memory_seen s n)(pt_id p \<mapsto> pt_sequence p)}"
      using memory_behave_faithful [OF beh script(1,2) t(3)] by (simp_all add: t(1))
    have "memory_faithful s'"
      using excl unseen script(3) f by (auto simp: memory_faithful_def bs(1))
    with bs show ?thesis by blast
  qed
qed

lemma memory_faithful_ensure [simp]:
  "memory_faithful (set_stream_bytes n (stream_bytes s n) s) = memory_faithful s"
proof -
  have "ms_behaviors (set_stream_bytes n (stream_bytes s n) s) = ms_behaviors s"
    by (simp add: set_stream_bytes_def)
  moreover have "stream_bytes (set_stream_bytes n (stream_bytes s n) s) = stream_bytes s"
    by (simp add: fun_eq_iff)
  ultimately show ?thesis
    by (simp add: memory_faithful_def)
qed

text \<open>
  The laws of \<open>exclusive_store\<close> hold for the smaller set of states too; only the invariant is new.
\<close>

interpretation memory_idempotent: idempotent_store memory_store stream_bytes memory_faithful memory_seen
proof
  note E = memory_exclusive.ensure_law memory_exclusive.read_all_law memory_exclusive.read_all_observed_law
    memory_exclusive.read_range_law memory_exclusive.append_law
  fix s s' n m offset len p body
  assume f: "memory_faithful s"
  then have hon: "memory_honest s"
    by (simp add: memory_faithful_def)
  show "memory_faithful s' \<and> prefix (stream_bytes s m) (stream_bytes s' m)"
    if "us_ensure_stream memory_store n s = (re, s')" for re
    using E(1) [OF hon that] that f by (auto simp: memory_ensure_stream_def split: if_splits)
  show "memory_faithful s' \<and> prefix (stream_bytes s m) (stream_bytes s' m) \<and>
      (\<forall>bs. ra = Inr bs \<longrightarrow> prefix bs (stream_bytes s' n))"
    if "us_read_all memory_store n s = (ra, s')" for ra
    using E(2) [OF hon that] that f by (auto simp: memory_read_all_def split: if_splits)
  show "memory_faithful s' \<and> prefix (stream_bytes s m) (stream_bytes s' m) \<and>
      (\<forall>ob. ro = Inr ob \<longrightarrow> prefix (ro_bytes ob) (stream_bytes s' n))"
    if "us_read_all_observed memory_store n s = (ro, s')" for ro
    using E(3) [OF hon that] that f
    by (auto simp: default_read_all_observed_def memory_read_all_def split: if_splits)
  show "memory_faithful s' \<and> prefix (stream_bytes s m) (stream_bytes s' m) \<and>
      (\<forall>bs. rr = Inr bs \<and> 0 < len \<longrightarrow> unat offset + len \<le> length (stream_bytes s' n) \<and>
        bs = take len (drop (unat offset) (stream_bytes s' n)))"
    if "us_read_range memory_store n offset len s = (rr, s')" for rr
    using E(4) [OF hon that] that f by (simp add: memory_read_range_def)
  show "memory_faithful s' \<and> prefix (stream_bytes s m) (stream_bytes s' m) \<and>
      (\<forall>k. rp = Inr (append_outcome.Committed k) \<longrightarrow> stored_at (stream_bytes s' n) k body)"
    if "body \<noteq> []" and "us_append memory_store n p body s = (rp, s')" for rp
    using E(5) [OF hon that] memory_append_faithful [OF _ f that(1)] that(2) by simp
  show "stream_bytes s' = stream_bytes s \<and> memory_seen s' = memory_seen s"
    if "us_ensure_stream memory_store n s = (re, s')" for re
    by (rule memory_exclusive.ensure_same [OF hon that])
  show "stream_bytes s' = stream_bytes s \<and> memory_seen s' = memory_seen s \<and>
      (\<forall>bs. ra = Inr bs \<longrightarrow> bs = stream_bytes s n)"
    if "us_read_all memory_store n s = (ra, s')" for ra
    by (rule memory_exclusive.read_all_fresh [OF hon that])
  show "stream_bytes s' = stream_bytes s \<and> memory_seen s' = memory_seen s"
    if "us_read_range memory_store n offset len s = (rr, s')" for rr
    by (rule memory_exclusive.read_range_same [OF hon that])
  show "(\<forall>m. m \<noteq> n \<longrightarrow> stream_bytes s' m = stream_bytes s m \<and> memory_seen s' m = memory_seen s m) \<and>
      (stream_bytes s' n = stream_bytes s n \<and> memory_seen s' n = memory_seen s n \<and>
         (\<forall>k. rp \<noteq> Inr (append_outcome.Committed k)) \<or>
       stream_bytes s' n = stream_bytes s n @ body \<and> \<not> covered (memory_seen s n (pt_id p)) p \<and>
         (memory_seen s' n = (memory_seen s n)(pt_id p \<mapsto> pt_sequence p) \<and>
            (rp = Inr (append_outcome.Committed (of_nat (length (stream_bytes s' n)))) \<or> (\<exists>e. rp = Inl (Ambiguous e))) \<or>
          (\<exists>e. rp = Inl (Integrity e))))"
    if "body \<noteq> []" and "us_append memory_store n p body s = (rp, s')" for rp
    by (rule memory_exclusive.append_exclusive [OF hon that])
  show "stream_bytes s' = stream_bytes s \<and> memory_seen s' = memory_seen s \<and>
      (\<forall>ob. ro = Inr ob \<longrightarrow> ro_bytes ob = stream_bytes s n)"
    if "us_read_all_observed memory_store n s = (ro, s')" for ro
    using that by (auto simp: default_read_all_observed_def memory_read_all_def split: if_splits)
  show "memory_seen s' n \<in> {memory_seen s n, (memory_seen s n)(pt_id p \<mapsto> pt_sequence p)}"
    if "body \<noteq> []" and "us_append memory_store n p body s = (rp, s')" for rp
    using memory_append_faithful [OF _ f that(1)] that(2) by simp
  show "covered (memory_seen s n (pt_id p)) p"
    if "body \<noteq> []" and "us_append memory_store n p body s = (Inr (Duplicate k), s')" for k
    using memory_append_faithful [OF _ f that(1)] that(2) by simp
  show "\<not> covered (memory_seen s n (pt_id p)) p"
    if "body \<noteq> []" and "us_append memory_store n p body s = (Inl (Rejected kind e), s')" for kind e
    using memory_append_faithful [OF _ f that(1)] that(2) by simp
  show "memory_seen s n i = None" if "stream_bytes s n = []" for i
    using f that by (simp add: memory_faithful_def)
qed

end
