(* ===== verification/Room_Log.thy ===== *)
theory Room_Log
  imports Room_Start Idempotent_Store
begin

text \<open>
  The contract of a room with its own streams: a room is the log of its active delta stream.
  On a store that keeps the idempotent contract, and while nobody else writes to the room's
  streams, a ready room has in memory exactly what its streams hold, frame by frame, so that a
  restart gives the same room again.
\<close>

section \<open>The log of a room\<close>

text \<open>
  What a room starts from before the frames of its active stream: nothing, if it was never
  rotated, or the updates that the checkpoint of the manifest's head retains.
\<close>

definition base_history ::
  "hashes \<Rightarrow> ('d, 'v, 'x) loro \<Rightarrow> string \<Rightarrow> (string \<Rightarrow> bytes) \<Rightarrow> generation_id \<Rightarrow> bytes list \<Rightarrow> bool" where
  "base_history h lo room held g base \<longleftrightarrow>
     (if held (physical (manifest_stream h room)) = [] then g = gen_zero \<and> base = []
      else \<exists>m cp d. chain_with_head h room (held (physical (manifest_stream h room))) m \<and>
        GenerationId (mf_active_delta_generation m) = g \<and>
        recover_checkpoint h lo room m
          (held (physical (checkpoint_stream h room (GenerationId (mf_checkpoint_generation m))))) = Inr (cp, d) \<and>
        base = cp_pending_updates cp)"

text \<open>The frames of the active stream, and the history they make on top of the base.\<close>

definition room_logged ::
  "hashes \<Rightarrow> ('d, 'v, 'x) loro \<Rightarrow> (string \<Rightarrow> bytes) \<Rightarrow> 'd room_actor \<Rightarrow> bool" where
  "room_logged h lo held a \<longleftrightarrow>
     (\<exists>base fs. base_history h lo (ra_room_id a) held (ra_active_delta_generation a) base \<and>
       held (ra_stream a) = concat (map (frame_bytes h) fs) \<and>
       (\<forall>f \<in> set fs. frame_wf h f \<and> frame_fits (ag_frame_limits (ra_config a)) f) \<and>
       ra_history a = base @ concat (map fr_updates fs) \<and>
       (held (physical (manifest_stream h (ra_room_id a))) = [] \<longrightarrow> load_history lo [] fs = Inr (ra_history a)))"

lemma base_history_cong:
  assumes "held' (physical (manifest_stream h room)) = held (physical (manifest_stream h room))"
    and "\<And>g. held' (physical (checkpoint_stream h room g)) = held (physical (checkpoint_stream h room g))"
  shows "base_history h lo room held' g base = base_history h lo room held g base"
  by (simp add: base_history_def assms)

text \<open>The log depends on the room's stream, history, generation and name only.\<close>

lemma room_logged_cong:
  assumes "room_logged h lo held a"
    and "ra_room_id a' = ra_room_id a" "ra_active_delta_generation a' = ra_active_delta_generation a"
      "ra_stream a' = ra_stream a" "ra_history a' = ra_history a" "ra_config a' = ra_config a"
  shows "room_logged h lo held a'"
  using assms by (simp add: room_logged_def)

lemma load_history_snoc:
  "load_history lo history fs = Inr past \<Longrightarrow> validate_update_blobs lo (fr_updates f) (past = []) = Inr () \<Longrightarrow>
    load_history lo history (fs @ [f]) = Inr (past @ fr_updates f)"
  by (induction fs arbitrary: history) (auto simp: r_bind_Inr_iff)

text \<open>One more frame at the end of the stream is one more batch at the end of the history.\<close>

lemma room_logged_snoc:
  assumes old: "room_logged h lo held a"
    and bound: "ra_stream a = physical (delta_stream_for_generation h (ra_room_id a) (ra_active_delta_generation a))"
    and bytes: "held' = held(ra_stream a := held (ra_stream a) @ frame_bytes h f)"
    and f: "frame_wf h f" "frame_fits (ag_frame_limits (ra_config a)) f"
    and admitted: "validate_update_blobs lo (fr_updates f) (ra_history a = []) = Inr ()"
    and same: "ra_room_id a' = ra_room_id a" "ra_active_delta_generation a' = ra_active_delta_generation a"
      "ra_stream a' = ra_stream a" "ra_config a' = ra_config a"
    and hist: "ra_history a' = ra_history a @ fr_updates f"
  shows "room_logged h lo held' a'"
proof -
  from old obtain base fs where base: "base_history h lo (ra_room_id a) held (ra_active_delta_generation a) base"
    and fs: "held (ra_stream a) = concat (map (frame_bytes h) fs)"
      "\<forall>f \<in> set fs. frame_wf h f \<and> frame_fits (ag_frame_limits (ra_config a)) f"
      "ra_history a = base @ concat (map fr_updates fs)"
      "held (physical (manifest_stream h (ra_room_id a))) = [] \<Longrightarrow> load_history lo [] fs = Inr (ra_history a)"
    by (auto simp: room_logged_def)
  have others: "held' (physical (manifest_stream h (ra_room_id a))) = held (physical (manifest_stream h (ra_room_id a)))"
    "held' (physical (checkpoint_stream h (ra_room_id a) g)) = held (physical (checkpoint_stream h (ra_room_id a) g))" for g
    by (simp_all add: bytes bound)
  have "base_history h lo (ra_room_id a) held' (ra_active_delta_generation a) base"
    using base by (simp only: base_history_def others)
  moreover have "held' (ra_stream a) = concat (map (frame_bytes h) (fs @ [f]))"
    by (simp add: bytes fs(1))
  moreover have "load_history lo [] (fs @ [f]) = Inr (ra_history a')"
    if "held' (physical (manifest_stream h (ra_room_id a))) = []"
    using load_history_snoc [OF fs(4) admitted] that by (simp add: others hist)
  ultimately show ?thesis
    unfolding room_logged_def
    by (intro exI [of _ base] exI [of _ "fs @ [f]"]) (use fs f same hist in auto)
qed

section \<open>Runs with streams of one's own\<close>

text \<open>The environment leaves the streams of the room, and what was taken on them, alone.\<close>

definition own_streams_kept ::
  "('s \<Rightarrow> string \<Rightarrow> bytes) \<Rightarrow> ('s \<Rightarrow> string \<Rightarrow> string \<Rightarrow> u64 option) \<Rightarrow> hashes \<Rightarrow> string \<Rightarrow> 's \<Rightarrow> 's \<Rightarrow> bool" where
  "own_streams_kept content seen h room s t \<longleftrightarrow>
     content t (physical (manifest_stream h room)) = content s (physical (manifest_stream h room)) \<and>
     (\<forall>g. content t (physical (checkpoint_stream h room g)) = content s (physical (checkpoint_stream h room g)) \<and>
       content t (physical (delta_stream_for_generation h room g)) =
         content s (physical (delta_stream_for_generation h room g)) \<and>
       seen t (physical (delta_stream_for_generation h room g)) =
         seen s (physical (delta_stream_for_generation h room g)))"

text \<open>A boot identity no delta stream of the room has a producer of: it was not used before.\<close>

definition boot_fresh ::
  "('s \<Rightarrow> string \<Rightarrow> string \<Rightarrow> u64 option) \<Rightarrow> hashes \<Rightarrow> string \<Rightarrow> 's \<Rightarrow> 128 word \<Rightarrow> bool" where
  "boot_fresh seen h room s boot \<longleftrightarrow>
     (\<forall>g. seen s (physical (delta_stream_for_generation h room g)) (producer_id_for_generation h boot room g) = None)"

text \<open>
  What a command adds to the updates the room has accepted: the updates of an update command
  that is acknowledged with \<open>Ok\<close> while it is handled, under the generation then active.
\<close>

definition accepted_by ::
  "command \<Rightarrow> 'd room_actor \<times> 's world \<Rightarrow> 'd room_actor \<times> 's world \<Rightarrow> (generation_id \<times> bytes list) list" where
  "accepted_by cmd aw aw' =
     (case cmd of
        Update c b us peer \<Rightarrow>
          if (peer, Protocol (Ack CrdtLoro (ra_room_id (fst aw)) b Ok)) \<in>
            set (drop (length (wd_sent (snd aw))) (wd_sent (snd aw')))
          then [(ra_active_delta_generation (fst aw), us)] else []
      | _ \<Rightarrow> [])"

text \<open>
  The runs of a room that owns its streams: as \<open>room_run\<close>, with the environment and the boot
  identities restricted to these, and with the updates accepted so far, in order.
\<close>

inductive owned_run ::
  "('s \<Rightarrow> string \<Rightarrow> bytes) \<Rightarrow> ('s \<Rightarrow> bool) \<Rightarrow> ('s \<Rightarrow> string \<Rightarrow> string \<Rightarrow> u64 option) \<Rightarrow>
   hashes \<Rightarrow> ('d, 'v, 'x) loro \<Rightarrow> 's ursula_store \<Rightarrow> string \<Rightarrow> actor_config \<Rightarrow>
   command list \<Rightarrow> (generation_id \<times> bytes list) list \<Rightarrow> 'd room_actor \<times> 's world \<Rightarrow> bool"
  for content valid seen h lo store room_id config where
  start: "valid (wd_store w) \<Longrightarrow> wd_sent w = [] \<Longrightarrow> boot_fresh seen h room_id (wd_store w) boot_id \<Longrightarrow>
     owned_run content valid seen h lo store room_id config [] []
       (actor_start h lo store (room_actor_new h lo room_id boot_id config, w))"
| handle: "owned_run content valid seen h lo store room_id config cmds acc aw \<Longrightarrow>
     aw' = snd (actor_handle h lo store cmd aw) \<Longrightarrow>
     owned_run content valid seen h lo store room_id config (cmds @ [cmd]) (acc @ accepted_by cmd aw aw') aw'"
| environment: "owned_run content valid seen h lo store room_id config cmds acc (a, w) \<Longrightarrow> valid s \<Longrightarrow>
     own_streams_kept content seen h room_id (wd_store w) s \<Longrightarrow>
     owned_run content valid seen h lo store room_id config cmds acc (a, w\<lparr>wd_store := s, wd_next_batch := n\<rparr>)"
| restart: "owned_run content valid seen h lo store room_id config cmds acc (a, w) \<Longrightarrow>
     boot_fresh seen h room_id (wd_store w) boot_id \<Longrightarrow>
     owned_run content valid seen h lo store room_id config cmds acc
       (actor_start h lo store (room_actor_new h lo room_id boot_id config, w))"

lemma owned_run_room_run:
  "owned_run content valid seen h lo store room config cmds acc aw \<Longrightarrow>
    room_run h lo store room config valid (\<lambda>s t. valid t) cmds aw"
  by (induction rule: owned_run.induct) (auto intro: room_run.intros)

section \<open>The invariant\<close>

definition owns_log ::
  "('s \<Rightarrow> string \<Rightarrow> bytes) \<Rightarrow> ('s \<Rightarrow> bool) \<Rightarrow> ('s \<Rightarrow> string \<Rightarrow> string \<Rightarrow> u64 option) \<Rightarrow>
   hashes \<Rightarrow> ('d, 'v, 'x) loro \<Rightarrow> bool \<Rightarrow> 'd room_actor \<Rightarrow> 's \<Rightarrow> bool" where
  "owns_log content valid seen h lo retried a s \<longleftrightarrow>
     room_ok h a \<and> valid s \<and>
     (content s (physical (manifest_stream h (ra_room_id a))) = [] \<longrightarrow> ra_active_delta_generation a = gen_zero) \<and>
     (ra_lifecycle a = Ready \<longrightarrow>
       taken_below (seen s (ra_stream a) (ra_producer_id a)) (ra_producer_sequence a) \<and>
       (\<not> retried \<or> content s (physical (manifest_stream h (ra_room_id a))) = [] \<longrightarrow>
         room_logged h lo (content s) a)) \<and>
     (ra_blocked a \<noteq> None \<longrightarrow> taken_upto (seen s (ra_stream a) (ra_producer_id a)) (ra_producer_sequence a))"

text \<open>A recovered room is logged.\<close>

lemma recovered_logged:
  assumes rv: "recovery_of h lo (ra_room_id a) (ag_frame_limits (ra_config a)) held = Inr (Some rv)"
    and a: "ra_stream a = rv_active_delta_stream rv" "ra_active_delta_generation a = rv_active_delta_generation rv"
      "ra_history a = rv_history rv"
  shows "room_logged h lo held a"
  using rv
proof (rule recovery_of_Some)
  fix m cp d fs
  assume head: "manifest_head_of h (ra_room_id a) (held (physical (manifest_stream h (ra_room_id a)))) = Inr m"
    and ck: "recover_checkpoint h lo (ra_room_id a) m
      (held (physical (checkpoint_stream h (ra_room_id a) (GenerationId (mf_checkpoint_generation m))))) = Inr (cp, d)"
    and gen: "rv_active_delta_generation rv = GenerationId (mf_active_delta_generation m)"
    and dec: "frame_decode_all_with_limits h (ag_frame_limits (ra_config a)) (held (rv_active_delta_stream rv)) = Inr fs"
    and hist: "rv_history rv = cp_pending_updates cp @ concat (map fr_updates fs)"
  have ne: "held (physical (manifest_stream h (ra_room_id a))) \<noteq> []"
    using rv recovery_of_None [of h lo "ra_room_id a" "ag_frame_limits (ra_config a)" held] by auto
  have "base_history h lo (ra_room_id a) held (ra_active_delta_generation a) (cp_pending_updates cp)"
    using manifest_head_of_Inr [OF head] ck ne unfolding base_history_def a gen by auto
  with ne frame_decode_all_Inr [OF dec] hist show ?thesis
    unfolding room_logged_def a by (intro exI [of _ "cp_pending_updates cp"] exI [of _ fs]) simp
qed

text \<open>A room loaded from its first delta stream is logged.\<close>

lemma loaded_logged:
  assumes "frame_decode_all_with_limits h (ag_frame_limits (ra_config a)) (held (ra_stream a)) = Inr fs"
    and "load_history lo [] fs = Inr (ra_history a)"
    and "held (physical (manifest_stream h (ra_room_id a))) = []" "ra_active_delta_generation a = gen_zero"
  shows "room_logged h lo held a"
  using frame_decode_all_Inr [OF assms(1)] load_history_append [OF assms(2)] assms(2-4)
  by (auto simp: room_logged_def base_history_def)

context idempotent_store
begin

abbreviation owns :: "hashes \<Rightarrow> ('d, 'v, 'x) loro \<Rightarrow> bool \<Rightarrow> 'd room_actor \<Rightarrow> 's \<Rightarrow> bool" where
  "owns \<equiv> owns_log content valid seen"

text \<open>Loading a room reads its stream and leaves the store as it is.\<close>

lemma load_own_stream:
  assumes v: "valid (wd_store w)" and run: "load_from_store h lo store (a, w) = (r, (a', w'))"
  shows "valid (wd_store w') \<and> content (wd_store w') = content (wd_store w) \<and> seen (wd_store w') = seen (wd_store w) \<and>
    (\<forall>history doc. r = Inr (history, doc) \<longrightarrow>
      (\<exists>fs. frame_decode_all_with_limits h (ag_frame_limits (ra_config a)) (content (wd_store w) (ra_stream a)) = Inr fs \<and>
        load_history lo [] fs = Inr history \<and> length (content (wd_store w) (ra_stream a)) < 2 ^ 64))"
proof -
  obtain ob where ob: "us_read_all_observed store (ra_stream a) (wd_store w) = (ob, wd_store w')"
    using load_from_store_frame [OF run] by blast
  have fresh: "valid (wd_store w')" "content (wd_store w') = content (wd_store w)" "seen (wd_store w') = seen (wd_store w)"
    "\<And>x. ob = Inr x \<Longrightarrow> ro_bytes x = content (wd_store w) (ra_stream a)"
    using read_all_observed_law [OF v ob] read_all_observed_fresh [OF v ob] by auto
  moreover have "\<exists>fs. frame_decode_all_with_limits h (ag_frame_limits (ra_config a)) (content (wd_store w) (ra_stream a)) = Inr fs \<and>
        load_history lo [] fs = Inr history \<and> length (content (wd_store w) (ra_stream a)) < 2 ^ 64"
    if "r = Inr (history, doc)" for history doc
    using load_from_store_Inr [OF run [unfolded that]] fresh(4) ob by fastforce
  ultimately show ?thesis by blast
qed

text \<open>A start leaves the store as it is, and a room it makes ready is logged.\<close>

lemma initialize_owns:
  assumes v: "valid (wd_store w)" and init: "initialize h lo store (a, w) = (r, (a', w'))"
    and fresh: "ra_active_delta_generation a = gen_zero"
  shows "valid (wd_store w') \<and> content (wd_store w') = content (wd_store w) \<and> seen (wd_store w') = seen (wd_store w) \<and>
    (content (wd_store w) (physical (manifest_stream h (ra_room_id a))) = [] \<longrightarrow> ra_active_delta_generation a' = gen_zero) \<and>
    (r = Inr () \<longrightarrow> room_logged h lo (content (wd_store w)) a')"
proof -
  let ?l = "ag_frame_limits (ra_config a)"
  obtain rr s1 where rec: "recover_from_manifest h lo store (ra_room_id a) ?l (wd_store w) = (rr, s1)" by fastforce
  note r1 = recover_refines [OF v rec]
  consider e where "rr = Inl e" | rv where "rr = Inr (Some rv)" | "rr = Inr None"
    by (metis option.exhaust sum.exhaust)
  then show ?thesis
  proof cases
    case (1 e)
    with init rec r1 fresh show ?thesis by (auto simp: initialize_def on_store_def)
  next
    case (2 rv)
    then have rv: "recovery_of h lo (ra_room_id a) ?l (content (wd_store w)) = Inr (Some rv)"
      using r1 by simp
    with recovery_of_None [of h lo "ra_room_id a" ?l "content (wd_store w)"]
    have "content (wd_store w) (physical (manifest_stream h (ra_room_id a))) \<noteq> []" by auto
    with init rec 2 r1 recovered_logged [of h lo a', OF _] rv show ?thesis
      by (auto simp: initialize_def on_store_def intro!: recovered_logged)
  next
    case 3
    then have none: "content (wd_store w) (physical (manifest_stream h (ra_room_id a))) = []"
      using r1 recovery_of_None [of h lo "ra_room_id a" ?l "content (wd_store w)"] by auto
    obtain re s2 where ens: "us_ensure_stream store (ra_stream a) s1 = (re, s2)" by fastforce
    have s2: "valid s2" "content s2 = content (wd_store w)" "seen s2 = seen (wd_store w)"
      using ensure_law [OF _ ens] ensure_same [OF _ ens] r1 by auto
    show ?thesis
    proof (cases re)
      case (Inl e)
      with init rec 3 ens s2 fresh show ?thesis by (auto simp: initialize_def on_store_def)
    next
      case (Inr u)
      obtain rl a3 w3 where load: "load_from_store h lo store (a, w\<lparr>wd_store := s2\<rparr>) = (rl, (a3, w3))"
        by (metis prod.collapse)
      note frame = load_from_store_frame [OF load]
      have l: "valid (wd_store w3) \<and> content (wd_store w3) = content (wd_store w) \<and> seen (wd_store w3) = seen (wd_store w) \<and>
        (\<forall>history doc. rl = Inr (history, doc) \<longrightarrow>
          (\<exists>fs. frame_decode_all_with_limits h ?l (content (wd_store w) (ra_stream a)) = Inr fs \<and>
            load_history lo [] fs = Inr history))"
        using load_own_stream [OF _ load] s2 by auto
      show ?thesis
      proof (cases rl)
        case (Inl e)
        with init rec 3 ens \<open>re = Inr u\<close> load l frame fresh show ?thesis
          by (auto simp: initialize_def on_store_def)
      next
        case (Inr hd)
        obtain history doc where hd: "hd = (history, doc)" by (cases hd)
        with init rec 3 ens \<open>re = Inr u\<close> load Inr
        have r: "r = Inr ()" and a': "a' = a3\<lparr>ra_history := history, ra_doc := doc\<rparr>" and w': "w' = w3"
          by (auto simp: initialize_def on_store_def)
        from l Inr hd obtain fs where
          "frame_decode_all_with_limits h ?l (content (wd_store w) (ra_stream a)) = Inr fs" "load_history lo [] fs = Inr history"
          by auto
        with frame none fresh have "room_logged h lo (content (wd_store w)) a'"
          unfolding a' by (intro loaded_logged) simp_all
        with l frame fresh show ?thesis
          by (simp add: a' w')
      qed
    qed
  qed
qed

lemma start_owns:
  assumes v: "valid (wd_store w)" and fresh: "boot_fresh seen h room (wd_store w) boot"
    and run: "actor_start h lo store (room_actor_new h lo room boot config, w) = (a', w')"
  shows "owns h lo retried a' (wd_store w')"
proof -
  let ?a = "room_actor_new h lo room boot config"
  obtain r a1 w1 where init: "initialize h lo store (?a, w) = (r, (a1, w1))"
    by (metis prod.collapse)
  have new: "ra_active_delta_generation ?a = gen_zero" "ra_room_id ?a = room"
    by (simp_all add: room_actor_new_def Let_def)
  have ok: "room_ok h a'" "ra_room_id a' = room" "ra_boot_id a' = boot"
    using actor_start_ok [OF _ _ run] room_actor_new_ok [of h lo room boot config]
    by (auto simp: same_room_def room_actor_new_def Let_def)
  note i = initialize_owns [OF v init new(1)]
  have "if_state f \<in> {Corrupt, Unavailable}" if "r = Inl f" for f
    using init that by (auto dest: initialize_failure)
  then have w': "w' = w1" and a': "a' = transition (ra_lifecycle a') (ra_last_error a') a1"
    and ready: "ra_lifecycle a' = Ready \<Longrightarrow> r = Inr ()"
    using run init by (auto simp: actor_start_def split: sum.splits)
  have "seen (wd_store w) (ra_stream a') (ra_producer_id a') = None"
    using ok fresh by (auto simp: room_ok_def generation_bound_def boot_fresh_def)
  moreover have "ra_blocked a' = None"
    by (rule actor_start_blocked [OF run])
  moreover have "room_logged h lo (content (wd_store w)) a'" if "ra_lifecycle a' = Ready"
  proof -
    have "room_logged h lo (content (wd_store w)) a1"
      using i ready that by simp
    then show ?thesis
      by (rule room_logged_cong) (subst a'; simp)+
  qed
  moreover have "ra_active_delta_generation a' = ra_active_delta_generation a1"
    by (subst a') simp
  ultimately show ?thesis
    using ok i by (simp add: owns_log_def w' new)
qed

text \<open>
  An update that is accepted adds its frame to the stream and its updates to the history; one
  that is refused changes neither; one that stays unknown blocks the room.
\<close>

lemma update_owns:
  assumes own: "owns h lo retried a (wd_store w)"
    and run: "actor_update h lo store c b us peer (a, w) = (a', w')"
  shows "owns h lo retried a' (wd_store w')"
proof (cases "prepare_update h lo c b us a")
  case (Inl st)
  with own run show ?thesis by (auto simp: actor_update_def)
next
  case (Inr x)
  obtain d q p where x: "x = (d, q, p)" by (cases x)
  have ok: "room_ok h a" and v: "valid (wd_store w)"
    using own by (simp_all add: owns_log_def)
  note prep = prepare_update_Inr [OF Inr [unfolded x]]
  have gb: "generation_bound h a" and pn: "pending_next h a p"
    using prep ok by (auto simp: room_ok_def)
  then have ps: "pending_ok h (ag_frame_limits (ra_config a)) p" and tgt: "pa_target_stream p = ra_stream a"
    "pt_id (pa_producer p) = ra_producer_id a" "pt_sequence (pa_producer p) = ra_producer_sequence a"
    by (auto simp: pending_next_def)
  have frame: "pa_bytes p = frame_bytes h (pa_frame p)" "frame_wf h (pa_frame p)"
    "frame_fits (ag_frame_limits (ra_config a)) (pa_frame p)"
    using ps by (auto simp: pending_ok_def frame_encode_Inr_iff)
  obtain r s1 where res: "resolve_append h store (ra_config a) p (wd_store w) = (r, s1)" by fastforce
  have v1: "valid s1"
    using resolve_run [OF ps v res] by (simp add: grows_def)
  have below: "taken_below (seen (wd_store w) (ra_stream a) (ra_producer_id a)) (ra_producer_sequence a)"
    using own prep by (simp add: owns_log_def)
  note ends = resolve_ends [OF ps v res, unfolded tgt, OF below]
  have upto: "taken_upto (seen s1 (ra_stream a) (ra_producer_id a)) (ra_producer_sequence a)"
    using resolve_upto [OF ps v res] below by (simp add: tgt taken_below_def taken_upto_def less_imp_le)
  have others: "content s1 l = content (wd_store w) l" if "l \<noteq> ra_stream a" for l
    using resolve_once [OF ps v res] that by (simp add: tgt)
  have apart: "physical (manifest_stream h (ra_room_id a)) \<noteq> ra_stream a"
    using gb by (simp add: generation_bound_def)
  have ok': "room_ok h a'"
    using actor_update_ok [OF ok run] by simp
  show ?thesis
  proof (cases r)
    case (Inl f)
    show ?thesis
    proof (cases f)
      case (DefinitelyRejected kind m)
      then have "content s1 (ra_stream a) = content (wd_store w) (ra_stream a)"
        and below1: "taken_below (seen s1 (ra_stream a) (ra_producer_id a)) (ra_producer_sequence a)"
        using ends(2) Inl by auto
      then have "content s1 l = content (wd_store w) l" for l
        using others by (cases "l = ra_stream a") simp_all
      then have "content s1 = content (wd_store w)" by (rule ext)
      moreover have "a' = a" "wd_store w' = s1"
        using run res Inl DefinitelyRejected \<open>prepare_update h lo c b us a = Inr x\<close> x
        by (auto simp: actor_update_def Let_def on_store_def)
      ultimately show ?thesis
        using own v1 upto below1 by (simp add: owns_log_def)
    next
      case (OutcomeUnknown e)
      with run res Inl \<open>prepare_update h lo c b us a = Inr x\<close> x
      have "wd_store w' = s1" "ra_lifecycle a' = AppendAmbiguous" "ra_stream a' = ra_stream a"
        "ra_producer_id a' = ra_producer_id a" "ra_producer_sequence a' = ra_producer_sequence a"
        "ra_room_id a' = ra_room_id a" "ra_active_delta_generation a' = ra_active_delta_generation a"
        by (auto simp: actor_update_def Let_def on_store_def)
      then show ?thesis
        using own v1 upto ok' others [OF apart] by (simp add: owns_log_def)
    qed
  next
    case (Inr y)
    with run res \<open>prepare_update h lo c b us a = Inr x\<close> x
    have w': "wd_store w' = s1"
      and a': "ra_stream a' = ra_stream a" "ra_producer_id a' = ra_producer_id a" "ra_producer_sequence a' = q"
        "ra_room_id a' = ra_room_id a" "ra_active_delta_generation a' = ra_active_delta_generation a"
        "ra_config a' = ra_config a" "ra_history a' = ra_history a @ us" "ra_blocked a' = None"
      using prep by (auto simp: actor_update_def Let_def on_store_def forward_updates_world)
    have new: "content s1 = (content (wd_store w))(ra_stream a := content (wd_store w) (ra_stream a) @ frame_bytes h (pa_frame p))"
      using ends(1) [OF Inr] others by (simp add: fun_eq_iff frame)
    have "taken_below (seen s1 (ra_stream a) (ra_producer_id a)) q"
      using taken_upto_next [OF upto] prep by simp
    moreover have "room_logged h lo (content s1) a'"
      if "\<not> retried \<or> content (wd_store w) (physical (manifest_stream h (ra_room_id a))) = []"
    proof (rule room_logged_snoc [OF _ _ new frame(2,3)])
      show "room_logged h lo (content (wd_store w)) a"
        using own that prep by (simp add: owns_log_def)
      show "ra_stream a = physical (delta_stream_for_generation h (ra_room_id a) (ra_active_delta_generation a))"
        using gb by (simp add: generation_bound_def)
    qed (use prep a' in auto)
    ultimately show ?thesis
      using own v1 ok' others [OF apart] by (simp add: owns_log_def a' w')
  qed
qed

text \<open>A retry that succeeds reloads the stream, which is the whole history of a room never rotated.\<close>

lemma retry_owns:
  assumes own: "owns h lo retried a (wd_store w)"
    and run: "retry_pending h lo store (a, w) = (r, (a', w'))"
  shows "owns h lo True a' (wd_store w')"
proof (cases "ra_blocked a")
  case None
  with own run show ?thesis by (auto simp: retry_pending_def owns_log_def)
next
  case (Some p)
  let ?a = "publish_status (a\<lparr>ra_blocked := None\<rparr>)"
  have ok: "room_ok h a" and v: "valid (wd_store w)"
    using own by (simp_all add: owns_log_def)
  then have ps: "pending_ok h (ag_frame_limits (ra_config a)) p" and tgt: "pa_target_stream p = ra_stream a"
    "pt_id (pa_producer p) = ra_producer_id a" "pt_sequence (pa_producer p) = ra_producer_sequence a"
    and gb: "generation_bound h a"
    using Some by (auto simp: room_ok_def pending_next_def)
  obtain x s1 where res: "resolve_append h store (ra_config a) p (wd_store w) = (x, s1)" by fastforce
  have v1: "valid s1"
    using resolve_run [OF ps v res] by (simp add: grows_def)
  have upto: "taken_upto (seen s1 (ra_stream a) (ra_producer_id a)) (ra_producer_sequence a)"
    using resolve_upto [OF ps v res] own Some by (simp add: tgt owns_log_def)
  have manifest: "content s1 (physical (manifest_stream h (ra_room_id a))) =
      content (wd_store w) (physical (manifest_stream h (ra_room_id a)))"
    using resolve_once [OF ps v res] gb by (simp add: tgt generation_bound_def)
  have ok': "room_ok h a'" and same: "same_room a a'"
    using retry_pending_ok [OF ok run] by simp_all
  obtain l a2 w2 where load: "load_from_store h lo store (?a, w\<lparr>wd_store := s1\<rparr>) = (l, (a2, w2))"
    by (metis prod.collapse)
  note frame = load_from_store_frame [OF load] and loaded = load_own_stream [OF _ load]
  show ?thesis
  proof (cases "r")
    case False
    have "wd_store w' = s1 \<or> wd_store w' = wd_store w2"
      using run Some res load by (auto simp: retry_pending_def on_store_def Let_def
          split: sum.splits option.splits prod.splits append_failure.splits)
    then have "valid (wd_store w')" "content (wd_store w') = content s1" "seen (wd_store w') = seen s1"
      using loaded v1 by auto
    moreover have "ra_lifecycle a' \<noteq> Ready" "ra_stream a' = ra_stream a" "ra_producer_id a' = ra_producer_id a"
      "ra_producer_sequence a' = ra_producer_sequence a" "ra_room_id a' = ra_room_id a"
      "ra_active_delta_generation a' = ra_active_delta_generation a"
      using run Some res load frame False by (auto simp: retry_pending_def on_store_def Let_def
          split: sum.splits option.splits prod.splits append_failure.splits)
    ultimately show ?thesis
      using own upto ok' manifest by (simp add: owns_log_def)
  next
    case True
    with run Some res load obtain y history doc q where
      l: "l = Inr (history, doc)" and q: "u64_checked_add (ra_producer_sequence a) 1 = Some q"
      and a': "a' = transition Ready None (a2\<lparr>ra_producer_sequence := q, ra_history := history, ra_doc := doc\<rparr>)"
      and w': "w' = w2"
      by (auto simp: retry_pending_def on_store_def Let_def tgt
          split: sum.splits option.splits prod.splits append_failure.splits)
    have s2: "valid (wd_store w2)" "content (wd_store w2) = content s1" "seen (wd_store w2) = seen s1"
      using loaded v1 by auto
    obtain fs where "frame_decode_all_with_limits h (ag_frame_limits (ra_config a)) (content s1 (ra_stream a)) = Inr fs"
      "load_history lo [] fs = Inr history"
      using loaded v1 l by auto
    then have "room_logged h lo (content s1) a'" if "content s1 (physical (manifest_stream h (ra_room_id a))) = []"
      unfolding a' using frame that own manifest by (intro loaded_logged) (simp_all add: owns_log_def)
    moreover have "taken_below (seen s1 (ra_stream a) (ra_producer_id a)) q"
      by (rule taken_upto_next [OF upto q])
    moreover have "ra_blocked a' = None" "ra_stream a' = ra_stream a" "ra_producer_id a' = ra_producer_id a"
      "ra_producer_sequence a' = q" "ra_room_id a' = ra_room_id a"
      "ra_active_delta_generation a' = ra_active_delta_generation a"
      using frame by (simp_all add: a')
    ultimately show ?thesis
      using own ok' manifest s2 by (simp add: owns_log_def w')
  qed
qed

text \<open>A rotation replaces the base by the updates its checkpoint retains, with an empty stream after it.\<close>

lemma rotate_owns:
  assumes own: "owns h lo retried a (wd_store w)"
    and run: "rotate_generation h lo store (a, w) = (r, (a', w'))"
  shows "owns h lo retried a' (wd_store w')"
proof (cases "ra_lifecycle a \<noteq> Ready \<or> ra_blocked a \<noteq> None")
  case True
  with own run show ?thesis by (auto simp: rotate_generation_def)
next
  case False
  have ok: "room_ok h a" and v: "valid (wd_store w)"
    using own by (simp_all add: owns_log_def)
  let ?m = "physical (manifest_stream h (ra_room_id a))"
  obtain x s1 where rot: "rotate_room h lo store (ra_room_id a) (ra_active_delta_generation a)
      (ra_active_delta_end_offset a) (ra_doc a) (ra_history a) (ag_ambiguous_retries (ra_config a))
      (wd_store w) = (x, s1)" by fastforce
  have g: "grows content valid (wd_store w) s1"
    using rotate_run [OF v rot] by simp
  have ok': "room_ok h a'"
    using rotate_generation_ok [OF ok run] by simp
  show ?thesis
  proof (cases x)
    case (Inl e)
    with run rot False have "wd_store w' = s1" "ra_lifecycle a' = Unavailable" "ra_blocked a' = None"
      "ra_room_id a' = ra_room_id a" "ra_active_delta_generation a' = ra_active_delta_generation a"
      by (auto simp: rotate_generation_def on_store_def)
    moreover have "content (wd_store w) ?m = []" if "content s1 ?m = []"
      using grows_prefix [OF g, of ?m] that by simp
    ultimately show ?thesis
      using own ok' grows_inv [OF g] by (simp add: owns_log_def)
  next
    case (Inr y)
    note rot = rot [unfolded Inr]
    note held = rotate_exclusive [OF v rot] and rec = rotate_recoverable [OF v rot]
    from run rot False Inr have w': "wd_store w' = s1"
      and a': "ra_stream a' = rt_next_delta_stream y" "ra_active_delta_generation a' = rt_next_delta_generation y"
        "ra_history a' = rt_retained_history y" "ra_room_id a' = ra_room_id a" "ra_blocked a' = None"
      by (auto simp: rotate_generation_def on_store_def)
    have ne: "content s1 ?m \<noteq> []"
      using held manifest_codec.layout_nonempty by (auto simp: chain_with_head_def)
    have id: "GenerationId (gen_value g) = g" for g
      by (cases g) simp
    have "base_history h lo (ra_room_id a) (content s1) (rt_next_delta_generation y) (rt_retained_history y)"
      using ne held rec by (auto simp: base_history_def id intro!: exI [of _ "rt_manifest y"])
    then have "room_logged h lo (content s1) a'"
      unfolding room_logged_def using held ne
      by (intro exI [of _ "rt_retained_history y"] exI [of _ "[]"]) (simp add: a')
    moreover have "seen s1 (ra_stream a') (ra_producer_id a') = None"
      using empty_unseen [of s1 "rt_next_delta_stream y"] held by (simp add: a')
    ultimately show ?thesis
      using ok' held ne by (simp add: owns_log_def w' a')
  qed
qed

lemma owns_cong:
  assumes "owns h lo retried a s" and "room_ok h a'"
    and "ra_room_id a' = ra_room_id a" "ra_active_delta_generation a' = ra_active_delta_generation a"
      "ra_stream a' = ra_stream a" "ra_history a' = ra_history a" "ra_config a' = ra_config a"
      "ra_lifecycle a' = ra_lifecycle a" "ra_producer_id a' = ra_producer_id a"
      "ra_producer_sequence a' = ra_producer_sequence a" "ra_blocked a' = ra_blocked a"
  shows "owns h lo retried a' s"
  using assms room_logged_cong [of h lo "content s" a a'] by (auto simp: owns_log_def)

lemma owns_retried: "owns h lo retried a s \<Longrightarrow> owns h lo True a s"
  by (auto simp: owns_log_def)

lemma handle_owns:
  assumes own: "owns h lo retried a (wd_store w)"
    and run: "actor_handle h lo store cmd (a, w) = (r, (a', w'))"
  shows "owns h lo (retried \<or> cmd = RetryAmbiguous) a' (wd_store w')"
proof -
  have ok: "room_ok h a"
    using own by (simp add: owns_log_def)
  have ok': "room_ok h a'"
    using actor_handle_ok [OF ok run] by simp
  show ?thesis
  proof (cases cmd)
    case (Join c v peer)
    have "wd_store w' = wd_store w" "ra_room_id a' = ra_room_id a" "ra_stream a' = ra_stream a"
      "ra_active_delta_generation a' = ra_active_delta_generation a" "ra_history a' = ra_history a"
      "ra_config a' = ra_config a" "ra_lifecycle a' = ra_lifecycle a" "ra_producer_id a' = ra_producer_id a"
      "ra_producer_sequence a' = ra_producer_sequence a" "ra_blocked a' = ra_blocked a"
      using run Join by (auto simp: actor_handle_def actor_join_def reject_unavailable_def Let_def
          split: if_splits sum.splits)
    with Join own ok' show ?thesis
      by (simp add: owns_cong [OF own ok'])
  next
    case (Update c b us peer)
    with run own update_owns [OF own, of c b us peer] show ?thesis
      by (auto simp: actor_handle_def reject_unavailable_def Let_def split: if_splits)
  next
    case (Leave c)
    have "wd_store w' = wd_store w" "ra_room_id a' = ra_room_id a" "ra_stream a' = ra_stream a"
      "ra_active_delta_generation a' = ra_active_delta_generation a" "ra_history a' = ra_history a"
      "ra_config a' = ra_config a" "ra_lifecycle a' = ra_lifecycle a" "ra_producer_id a' = ra_producer_id a"
      "ra_producer_sequence a' = ra_producer_sequence a" "ra_blocked a' = ra_blocked a"
      using run Leave by (auto simp: actor_handle_def reject_unavailable_def Let_def split: if_splits)
    with Leave own ok' show ?thesis
      by (simp add: owns_cong [OF own ok'])
  next
    case RetryAmbiguous
    with run retry_owns [OF own] show ?thesis
      by (auto simp: actor_handle_def split: prod.splits)
  next
    case Rotate
    with run rotate_owns [OF own] show ?thesis
      by (auto simp: actor_handle_def split: prod.splits)
  next
    case WaitForActivation
    with run own show ?thesis by (simp add: actor_handle_def)
  qed
qed

lemma environment_owns:
  assumes own: "owns h lo retried a s" and "valid t" and kept: "own_streams_kept content seen h (ra_room_id a) s t"
  shows "owns h lo retried a t"
proof -
  have bound: "ra_stream a = physical (delta_stream_for_generation h (ra_room_id a) (ra_active_delta_generation a))"
    using own by (simp add: owns_log_def room_ok_def generation_bound_def)
  have "base_history h lo (ra_room_id a) (content t) g base = base_history h lo (ra_room_id a) (content s) g base" for g base
    using kept by (intro base_history_cong) (simp_all add: own_streams_kept_def)
  then have "room_logged h lo (content t) a = room_logged h lo (content s) a"
    using kept by (simp add: room_logged_def own_streams_kept_def bound)
  moreover have "seen t (ra_stream a) = seen s (ra_stream a)"
    using kept by (simp add: own_streams_kept_def bound)
  moreover have "content t (physical (manifest_stream h (ra_room_id a))) = content s (physical (manifest_stream h (ra_room_id a)))"
    using kept by (simp add: own_streams_kept_def)
  ultimately show ?thesis
    using own assms(2) by (simp add: owns_log_def)
qed

text \<open>On every run of a room that owns its streams, whatever it handled.\<close>

lemma owned_run_owns:
  "owned_run content valid seen h lo store room config cmds acc aw \<Longrightarrow>
    owns h lo (RetryAmbiguous \<in> set cmds) (fst aw) (wd_store (snd aw))"
proof (induction rule: owned_run.induct)
  case (start w boot)
  then show ?case
    using start_owns [of w h room boot lo config] by (metis prod.collapse)
next
  case (handle cmds acc aw aw' cmd)
  obtain a w where aw: "aw = (a, w)" by (cases aw)
  obtain r a' w' where run: "actor_handle h lo store cmd (a, w) = (r, (a', w'))" by (metis prod.collapse)
  have "RetryAmbiguous \<in> set (cmds @ [cmd]) \<longleftrightarrow> RetryAmbiguous \<in> set cmds \<or> cmd = RetryAmbiguous"
    by auto
  with handle_owns [OF _ run] handle.IH handle.hyps(2) show ?case
    by (simp only: aw run fst_conv snd_conv)
next
  case (environment cmds acc a w s n)
  then have "ra_room_id a = room"
    using room_run_ok [OF owned_run_room_run] by fastforce
  with environment show ?case
    by (auto intro: environment_owns)
next
  case (restart cmds acc a w boot)
  then have "valid (wd_store w)"
    by (simp add: owns_log_def)
  with restart.hyps show ?case
    using start_owns [of w h room boot lo config] by (metis prod.collapse)
qed

end

end
