(* ===== verification/Room_Accepted.thy ===== *)
theory Room_Accepted
  imports Room_Log
begin

text \<open>
  The accepted updates of a room and its streams: whatever a command does, it adds at most one
  frame to the active delta stream, and an update is accepted only with the frame that holds
  it. With the log of a ready room this makes a room that owns its streams a refinement of a
  list of accepted updates.
\<close>

section \<open>What one command adds\<close>

text \<open>From \<open>held\<close> to \<open>held'\<close>, the delta stream of \<open>g\<close> has grown by frames, the others are as before.\<close>

definition grown_by ::
  "hashes \<Rightarrow> frame_limits \<Rightarrow> string \<Rightarrow> (string \<Rightarrow> bytes) \<Rightarrow> (string \<Rightarrow> bytes) \<Rightarrow> generation_id \<Rightarrow>
   delta_frame list \<Rightarrow> bool" where
  "grown_by h l room held held' g new \<longleftrightarrow>
     (\<forall>f \<in> set new. frame_wf h f \<and> frame_fits l f) \<and>
     (\<forall>g'. held' (physical (delta_stream_for_generation h room g')) =
       held (physical (delta_stream_for_generation h room g')) @
       (if g' = g then concat (map (frame_bytes h) new) else []))"

lemma grown_by_none:
  "(\<And>g'. held' (physical (delta_stream_for_generation h room g')) = held (physical (delta_stream_for_generation h room g'))) \<Longrightarrow>
    grown_by h l room held held' g []"
  by (simp add: grown_by_def)

context idempotent_store
begin

text \<open>The attempts of one append add its frame once or not at all.\<close>

lemma resolve_grows:
  assumes ps: "pending_ok h (ag_frame_limits (ra_config a)) p" and v: "valid s"
    and run: "resolve_append h store (ra_config a) p s = (r, s')"
    and n: "pa_target_stream p = physical (delta_stream_for_generation h room g)"
  shows "grown_by h (ag_frame_limits (ra_config a)) room (content s) (content s') g [] \<or>
    grown_by h (ag_frame_limits (ra_config a)) room (content s) (content s') g [pa_frame p]"
proof -
  have f: "pa_bytes p = frame_bytes h (pa_frame p)" "frame_wf h (pa_frame p)"
    "frame_fits (ag_frame_limits (ra_config a)) (pa_frame p)"
    using ps by (auto simp: pending_ok_def frame_encode_Inr_iff)
  show ?thesis
    using resolve_once [OF ps v run] f unfolding n grown_by_def by auto
qed

lemma update_grows:
  assumes own: "owns h lo retried a (wd_store w)"
    and run: "actor_update h lo store c b us peer (a, w) = (a', w')"
  shows "\<exists>new. grown_by h (ag_frame_limits (ra_config a)) (ra_room_id a) (content (wd_store w)) (content (wd_store w'))
      (ra_active_delta_generation a) new \<and>
    (accepted_by (Update c b us peer) (a, w) (a', w') = [] \<or>
     accepted_by (Update c b us peer) (a, w) (a', w') = [(ra_active_delta_generation a, us)] \<and>
     ra_lifecycle a = Ready \<and> map fr_updates new = [us])"
proof (cases "prepare_update h lo c b us a")
  case (Inl st)
  with run prepare_update_not_ok [OF Inl] show ?thesis
    by (intro exI [of _ "[]"]) (auto simp: actor_update_def accepted_by_def intro: grown_by_none)
next
  case (Inr x)
  obtain d q p where x: "x = (d, q, p)" by (cases x)
  have ok: "room_ok h a" and v: "valid (wd_store w)"
    using own by (simp_all add: owns_log_def)
  note prep = prepare_update_Inr [OF Inr [unfolded x]]
  have gb: "generation_bound h a" and pn: "pending_next h a p"
    using prep ok by (auto simp: room_ok_def)
  then have ps: "pending_ok h (ag_frame_limits (ra_config a)) p"
    and tgt: "pa_target_stream p = physical (delta_stream_for_generation h (ra_room_id a) (ra_active_delta_generation a))"
    and names: "pa_target_stream p = ra_stream a" "pt_id (pa_producer p) = ra_producer_id a"
      "pt_sequence (pa_producer p) = ra_producer_sequence a"
    by (auto simp: pending_next_def generation_bound_def)
  obtain r s1 where res: "resolve_append h store (ra_config a) p (wd_store w) = (r, s1)" by fastforce
  note grows = resolve_grows [OF ps v res tgt]
  show ?thesis
  proof (cases r)
    case (Inl f)
    with run res Inr x have "wd_store w' = s1" "accepted_by (Update c b us peer) (a, w) (a', w') = []"
      by (auto simp: actor_update_def Let_def on_store_def accepted_by_def rejection_status_not_ok [THEN not_sym]
          split: append_failure.splits)
    with grows show ?thesis by auto
  next
    case ok: (Inr y)
    with run res Inr x have "wd_store w' = s1"
      by (auto simp: actor_update_def Let_def on_store_def forward_updates_world)
    moreover have "taken_below (seen (wd_store w) (ra_stream a) (ra_producer_id a)) (ra_producer_sequence a)"
      using own prep by (simp add: owns_log_def)
    then have "content s1 (pa_target_stream p) = content (wd_store w) (pa_target_stream p) @ pa_bytes p"
      using resolve_ends(1) [OF ps v res _ ok] by (simp add: names)
    then have "grown_by h (ag_frame_limits (ra_config a)) (ra_room_id a) (content (wd_store w)) (content s1)
        (ra_active_delta_generation a) [pa_frame p]"
      using grows pending_ok_decodes(2) [OF ps] unfolding tgt by (auto simp: grown_by_def)
    ultimately show ?thesis
      using prep by (intro exI [of _ "[pa_frame p]"]) (auto simp: accepted_by_def)
  qed
qed

lemma retry_grows:
  assumes own: "owns h lo retried a (wd_store w)" and run: "retry_pending h lo store (a, w) = (r, (a', w'))"
  shows "\<exists>new. grown_by h (ag_frame_limits (ra_config a)) (ra_room_id a) (content (wd_store w)) (content (wd_store w'))
    (ra_active_delta_generation a) new"
proof (cases "ra_blocked a")
  case None
  with run show ?thesis
    by (intro exI [of _ "[]"]) (auto simp: retry_pending_def intro: grown_by_none)
next
  case (Some p)
  let ?a = "publish_status (a\<lparr>ra_blocked := None\<rparr>)"
  have ok: "room_ok h a" and v: "valid (wd_store w)"
    using own by (simp_all add: owns_log_def)
  then have ps: "pending_ok h (ag_frame_limits (ra_config a)) p"
    and tgt: "pa_target_stream p = physical (delta_stream_for_generation h (ra_room_id a) (ra_active_delta_generation a))"
    using Some by (auto simp: room_ok_def pending_next_def generation_bound_def)
  obtain x s1 where res: "resolve_append h store (ra_config a) p (wd_store w) = (x, s1)" by fastforce
  have v1: "valid s1"
    using resolve_run [OF ps v res] by (simp add: grows_def)
  obtain l a2 w2 where load: "load_from_store h lo store (?a, w\<lparr>wd_store := s1\<rparr>) = (l, (a2, w2))"
    by (metis prod.collapse)
  have "content (wd_store w2) = content s1"
    using load_own_stream [OF _ load] v1 by simp
  moreover have "wd_store w' = s1 \<or> wd_store w' = wd_store w2"
    using run Some res load by (auto simp: retry_pending_def on_store_def Let_def
        split: sum.splits option.splits prod.splits append_failure.splits)
  ultimately have "content (wd_store w') = content s1" by auto
  with resolve_grows [OF ps v res tgt] show ?thesis by auto
qed

lemma rotate_grows:
  assumes own: "owns h lo retried a (wd_store w)" and run: "rotate_generation h lo store (a, w) = (r, (a', w'))"
  shows "grown_by h l (ra_room_id a) (content (wd_store w)) (content (wd_store w')) g []"
proof -
  have v: "valid (wd_store w)"
    using own by (simp add: owns_log_def)
  obtain x s1 where rot: "rotate_room h lo store (ra_room_id a) (ra_active_delta_generation a)
      (ra_active_delta_end_offset a) (ra_doc a) (ra_history a) (ag_ambiguous_retries (ra_config a))
      (wd_store w) = (x, s1)" by fastforce
  have "wd_store w' \<in> {wd_store w, s1}"
    using run rot by (auto simp: rotate_generation_def on_store_def split: sum.splits if_splits)
  with rotate_touches [OF v rot] show ?thesis
    by (intro grown_by_none) (auto simp: only_touches_def)
qed

lemma handle_grows:
  assumes own: "owns h lo retried a (wd_store w)"
    and run: "actor_handle h lo store cmd (a, w) = (r, (a', w'))"
  shows "\<exists>new. grown_by h (ag_frame_limits (ra_config a)) (ra_room_id a) (content (wd_store w)) (content (wd_store w'))
      (ra_active_delta_generation a) new \<and>
    (accepted_by cmd (a, w) (a', w') = [] \<or>
     (\<exists>us. accepted_by cmd (a, w) (a', w') = [(ra_active_delta_generation a, us)] \<and>
       ra_lifecycle a = Ready \<and> map fr_updates new = [us]))"
proof -
  have same: ?thesis if "wd_store w' = wd_store w" "accepted_by cmd (a, w) (a', w') = []"
    using that by (intro exI [of _ "[]"]) (simp add: grown_by_none)
  show ?thesis
  proof (cases cmd)
    case (Update c b us peer)
    show ?thesis
    proof (cases "ra_lifecycle a \<in> {Recovering, Corrupt, Unavailable}")
      case True
      with run Update show ?thesis
        by (intro same) (auto simp: actor_handle_def reject_unavailable_def accepted_by_def Let_def)
    next
      case False
      with run Update update_grows [OF own, of c b us peer a' w'] show ?thesis
        by (auto simp: actor_handle_def)
    qed
  next
    case RetryAmbiguous
    with run retry_grows [OF own] show ?thesis
      by (auto simp: actor_handle_def accepted_by_def split: prod.splits)
  next
    case Rotate
    with run rotate_grows [OF own] show ?thesis
      by (intro exI [of _ "[]"]) (auto simp: actor_handle_def accepted_by_def split: prod.splits)
  next
    case (Join c v p)
    with run actor_join_world [of lo c v p a w] show ?thesis
      by (intro same) (auto simp: actor_handle_def reject_unavailable_def accepted_by_def Let_def split: if_splits)
  next
    case (Leave c)
    with run show ?thesis
      by (intro same) (auto simp: actor_handle_def reject_unavailable_def accepted_by_def Let_def split: if_splits)
  next
    case WaitForActivation
    with run show ?thesis
      by (intro same) (auto simp: actor_handle_def accepted_by_def)
  qed
qed

end

section \<open>The accepted updates are in the streams\<close>

text \<open>The updates accepted under a generation, in order.\<close>

definition accepted_in :: "(generation_id \<times> bytes list) list \<Rightarrow> generation_id \<Rightarrow> bytes list list" where
  "accepted_in acc g = map snd (filter (\<lambda>x. fst x = g) acc)"

lemma accepted_in_simps [simp]:
  "accepted_in [] g = []" "accepted_in (xs @ ys) g = accepted_in xs g @ accepted_in ys g"
  "accepted_in (x # xs) g = (if fst x = g then snd x # accepted_in xs g else accepted_in xs g)"
  by (simp_all add: accepted_in_def)

text \<open>The stream of every generation holds the updates accepted under it, in the order of acceptance.\<close>

definition framed :: "hashes \<Rightarrow> frame_limits \<Rightarrow> bytes \<Rightarrow> delta_frame list \<Rightarrow> bool" where
  "framed h l bs fs \<longleftrightarrow> bs = concat (map (frame_bytes h) fs) \<and> (\<forall>f \<in> set fs. frame_wf h f \<and> frame_fits l f)"

definition accepted_stored ::
  "hashes \<Rightarrow> frame_limits \<Rightarrow> string \<Rightarrow> (string \<Rightarrow> bytes) \<Rightarrow> (generation_id \<times> bytes list) list \<Rightarrow> bool" where
  "accepted_stored h l room held acc \<longleftrightarrow>
     (\<forall>g. accepted_in acc g \<noteq> [] \<longrightarrow>
       (\<exists>fs. framed h l (held (physical (delta_stream_for_generation h room g))) fs \<and>
         subseq (accepted_in acc g) (map fr_updates fs)))"

lemma framed_unique: "framed h l bs fs \<Longrightarrow> framed h l bs fs' \<Longrightarrow> fs = fs'"
  using frame_codec.streams_unique [of fs h l fs'] by (simp add: framed_def)

lemma accepted_stored_step:
  assumes old: "accepted_stored h l room held acc" and grown: "grown_by h l room held held' g new"
    and add: "add = [] \<or> (\<exists>us fs. add = [(g, us)] \<and> map fr_updates new = [us] \<and>
      framed h l (held (physical (delta_stream_for_generation h room g))) fs)"
  shows "accepted_stored h l room held' (acc @ add)"
  unfolding accepted_stored_def
proof (intro allI impI)
  fix g' assume some: "accepted_in (acc @ add) g' \<noteq> []"
  let ?D = "physical (delta_stream_for_generation h room g')"
  have new: "framed h l (held ?D) fs \<Longrightarrow> framed h l (held' ?D) (fs @ (if g' = g then new else []))" for fs
    using grown by (auto simp: framed_def grown_by_def)
  show "\<exists>fs. framed h l (held' ?D) fs \<and> subseq (accepted_in (acc @ add) g') (map fr_updates fs)"
  proof (cases "accepted_in acc g' = []")
    case True
    with some add obtain us fs where "g' = g" "accepted_in (acc @ add) g' = [us]" "map fr_updates new = [us]"
      "framed h l (held ?D) fs"
      by (auto split: if_splits)
    with new [of fs] show ?thesis
      by (intro exI [of _ "fs @ new"]) (simp add: list_emb_append2)
  next
    case False
    with old obtain fs where fs: "framed h l (held ?D) fs" "subseq (accepted_in acc g') (map fr_updates fs)"
      by (auto simp: accepted_stored_def)
    have "subseq (accepted_in add g') (map fr_updates (if g' = g then new else []))"
      using add by auto
    then have "subseq (accepted_in acc g' @ accepted_in add g') (map fr_updates fs @ map fr_updates (if g' = g then new else []))"
      using fs(2) by (intro list_emb_append_mono)
    with new [OF fs(1)] show ?thesis
      by (intro exI [of _ "fs @ (if g' = g then new else [])"]) simp
  qed
qed

context idempotent_store
begin

lemma start_same:
  assumes v: "valid (wd_store w)" and run: "actor_start h lo store (room_actor_new h lo room boot config, w) = (a, w')"
  shows "content (wd_store w') = content (wd_store w)"
proof -
  obtain r a1 w1 where init: "initialize h lo store (room_actor_new h lo room boot config, w) = (r, (a1, w1))"
    by (metis prod.collapse)
  with run have "w' = w1" by (auto simp: actor_start_def split: sum.splits)
  with initialize_owns [OF v init] show ?thesis
    by (simp add: room_actor_new_def Let_def)
qed

lemma accepted_stored_same:
  assumes "accepted_stored h l room held acc"
    and "\<And>g. held' (physical (delta_stream_for_generation h room g)) = held (physical (delta_stream_for_generation h room g))"
  shows "accepted_stored h l room held' acc"
  using assms by (simp add: accepted_stored_def)

lemma owned_run_accepted:
  "owned_run content valid seen h lo store room config cmds acc aw \<Longrightarrow>
    RetryAmbiguous \<notin> set cmds \<or> content (wd_store (snd aw)) (physical (manifest_stream h room)) = [] \<Longrightarrow>
    accepted_stored h (ag_frame_limits config) room (content (wd_store (snd aw))) acc"
proof (induction rule: owned_run.induct)
  case (start w boot)
  then show ?case by (simp add: accepted_stored_def)
next
  case (handle cmds acc aw aw' cmd)
  obtain a w r a' w' where aw: "aw = (a, w)" "aw' = (a', w')" and run: "actor_handle h lo store cmd (a, w) = (r, (a', w'))"
    using handle.hyps(2) by (metis prod.collapse)
  let ?m = "physical (manifest_stream h room)"
  have own: "owns h lo (RetryAmbiguous \<in> set cmds) a (wd_store w)"
    using owned_run_owns [OF handle.hyps(1)] by (simp add: aw)
  have a: "ra_room_id a = room" "ra_config a = config" and ok: "room_ok h a"
    using room_run_ok [OF owned_run_room_run [OF handle.hyps(1)]] by (simp_all add: aw)
  have "prefix (content (wd_store w) ?m) (content (wd_store w') ?m)"
    using actor_handle_durable [OF ok _ run] own by (auto simp: owns_log_def grows_def)
  then have unretried: "RetryAmbiguous \<notin> set cmds \<or> content (wd_store w) ?m = []"
    using handle.prems by (auto simp: aw)
  then have old: "accepted_stored h (ag_frame_limits config) room (content (wd_store w)) acc"
    using handle.IH by (simp add: aw)
  from handle_grows [OF own run] obtain new where
    grown: "grown_by h (ag_frame_limits config) room (content (wd_store w)) (content (wd_store w')) (ra_active_delta_generation a) new"
    and add: "accepted_by cmd (a, w) (a', w') = [] \<or>
      (\<exists>us. accepted_by cmd (a, w) (a', w') = [(ra_active_delta_generation a, us)] \<and>
        ra_lifecycle a = Ready \<and> map fr_updates new = [us])"
    by (auto simp: a)
  have "\<exists>fs. framed h (ag_frame_limits config) (content (wd_store w)
      (physical (delta_stream_for_generation h room (ra_active_delta_generation a)))) fs" if "ra_lifecycle a = Ready"
    using own unretried that by (auto simp: owns_log_def room_logged_def framed_def room_ok_def generation_bound_def a)
  with add show ?case
    unfolding aw snd_conv by (intro accepted_stored_step [OF old grown]) metis
next
  case (environment cmds acc a w s n)
  then show ?case
    by (intro accepted_stored_same [OF environment.IH]) (simp_all add: own_streams_kept_def)
next
  case (restart cmds acc a w boot)
  let ?aw = "actor_start h lo store (room_actor_new h lo room boot config, w)"
  have "valid (wd_store w)"
    using owned_run_owns [OF restart.hyps(1)] by (simp add: owns_log_def)
  then have "content (wd_store (snd ?aw)) = content (wd_store w)"
    using start_same [of w h lo room boot config] by (metis prod.collapse)
  with restart show ?case by simp
qed

end

section \<open>Property\<close>

text \<open>
  C3. A room that owns its streams is the log of the updates it has accepted. The room runs on
  a store for a single writer that deduplicates producer tuples and whose reads return the whole
  stream (\<open>idempotent_store\<close>; a follower of Ursula may answer with less, and then
  \<open>start_reads_prefixes\<close> is what remains); its run has commands of any peers, lost answers,
  rotations and restarts, and either no retry of an ambiguous append or no rotation, because the
  reload after a retry drops the checkpoint of a rotated room. Then, when the room is ready,
  its active delta stream is the concatenation of the encodings of admissible frames; the
  updates accepted under the active generation, that is, acknowledged with \<open>Ok\<close>, are among the
  updates of these frames, batch by batch and in the order of acceptance; the history is the base
  retained by the last checkpoint followed by the updates of all the frames, in order; and the
  document is observably one into which the whole history has been imported.
\<close>

theorem ready_room_is_its_log:
  assumes "idempotent_store store content valid seen"
    and "owned_run content valid seen h lo store room config cmds acc (a, w)"
    and "ra_lifecycle a = Ready"
    and "RetryAmbiguous \<notin> set cmds \<or> content (wd_store w) (physical (manifest_stream h room)) = []"
  shows "\<exists>base fs. base_history h lo room (content (wd_store w)) (ra_active_delta_generation a) base \<and>
    content (wd_store w) (physical (delta_stream_for_generation h room (ra_active_delta_generation a))) =
      concat (map (frame_bytes h) fs) \<and>
    (\<forall>f \<in> set fs. frame_encode_with_limits h (ag_frame_limits config) f = Inr (frame_bytes h f)) \<and>
    subseq [us. (g, us) \<leftarrow> acc, g = ra_active_delta_generation a] (map fr_updates fs) \<and>
    ra_history a = base @ concat (map fr_updates fs) \<and>
    (\<exists>start doc. import_base lo start \<and> imported lo start (ra_history a) doc \<and> same_document lo doc (ra_doc a))"
proof -
  let ?g = "ra_active_delta_generation a"
  have own: "owns_log content valid seen h lo (RetryAmbiguous \<in> set cmds) a (wd_store w)"
    using idempotent_store.owned_run_owns [OF assms(1,2)] by simp
  have a: "ra_room_id a = room" "ra_config a = config"
    using room_run_ok [OF owned_run_room_run [OF assms(2)]] by simp_all
  have stream: "ra_stream a = physical (delta_stream_for_generation h room ?g)"
    using own by (simp add: owns_log_def room_ok_def generation_bound_def a)
  moreover have "room_logged h lo (content (wd_store w)) a"
    using own assms(3,4) by (auto simp: owns_log_def a)
  ultimately obtain base fs where
    base: "base_history h lo room (content (wd_store w)) ?g base" "ra_history a = base @ concat (map fr_updates fs)"
    and fs: "framed h (ag_frame_limits config) (content (wd_store w) (physical (delta_stream_for_generation h room ?g))) fs"
    by (auto simp: room_logged_def framed_def a)
  have "accepted_stored h (ag_frame_limits config) room (content (wd_store w)) acc"
    using idempotent_store.owned_run_accepted [OF assms(1,2)] assms(4) by simp
  then have "subseq (accepted_in acc ?g) (map fr_updates fs)"
    using framed_unique [OF fs] by (cases "accepted_in acc ?g = []") (auto simp: accepted_stored_def)
  moreover have "accepted_in acc ?g = [us. (g, us) \<leftarrow> acc, g = ?g]"
    by (induction acc) auto
  moreover have "document_holds lo a"
    using room_run_holds [OF owned_run_room_run [OF assms(2)]] by simp
  ultimately show ?thesis
    using base fs by (intro exI [of _ base] exI [of _ fs]) (auto simp: framed_def frame_encode_Inr_iff holds_history_def)
qed

text \<open>The sample room with one accepted update, as a room that owns its streams.\<close>

lemma sample_updated_ready:
  "\<exists>a w. sample_updated [] = (a, w) \<and> ra_lifecycle a = Ready \<and> ra_history a = [[2, 9]] \<and>
    ra_active_delta_generation a = gen_zero \<and> ra_stream a = sample_delta \<and>
    stream_bytes (wd_store w) = (\<lambda>_. [])(sample_delta := pa_bytes sample_room_pending) \<and> \<not> ms_unavailable (wd_store w)"
proof -
  obtain a s w where j: "snd (actor_handle sample_hashes toy_loro memory_store (Join 1 [] 7) (sample_started [])) = (a, w)"
    "prepare_update sample_hashes toy_loro 1 5 [[2, 9]] a = Inr ([9], 1, sample_room_pending)"
    "ra_lifecycle a = Ready" "ra_config a = default_actor_config" "ra_history a = []" "wd_store w = s"
    and s: "stream_bytes s = (\<lambda>_. [])" "ms_behaviors s = []" "ms_producers s = Map.empty" "\<not> ms_unavailable s"
    using sample_joined [of 1 7 "[]"] by blast
  have run: "sample_updated [] = snd (actor_handle sample_hashes toy_loro memory_store (Update 1 5 [[2, 9]] 7) (a, w))"
    by (simp only: sample_updated_by_def j(1))
  have stream: "ra_stream a = sample_delta"
    using prepare_update_target [OF j(2)] by simp
  have len: "length (pa_bytes sample_room_pending) < 18446744073709551616"
    using sample_room_pending_sel(4) by linarith
  obtain k t where r: "resolve_append sample_hashes memory_store default_actor_config sample_room_pending s =
      (Inr (Committed k), t)" and t: "stream_bytes t = (\<lambda>_. [])(sample_delta := pa_bytes sample_room_pending)"
      "\<not> ms_unavailable t"
    using s by (auto simp: resolve_append_def resolve_append_loop.simps memory_append_def memory_admit_def pop_behavior_def
        memory_commit_def u64_of_usize_def Let_def len set_stream_bytes_def stream_bytes_def fun_eq_iff)
  obtain a' w' where u: "sample_updated [] = (a', w')" by fastforce
  have own: "generation_bound sample_hashes a'" "ra_room_id a' = ''room-a''"
    using room_run_ok [OF sample_run_any [of "[]"]] by (auto simp: u room_ok_def)
  have f: "ra_lifecycle a' = Ready" "ra_history a' = [[2, 9]]" "ra_stream a' = sample_delta" "wd_store w' = t"
    using u by (auto simp: run actor_handle_def actor_update_def j s on_store_def Let_def r stream forward_updates_world)
  then have "ra_active_delta_generation a' = gen_zero"
    using own by (auto simp: generation_bound_def)
  with f t u show ?thesis by auto
qed

text \<open>The update is acknowledged, and so accepted under the first generation.\<close>

abbreviation sample_member :: "bytes room_actor \<times> memory_state world" where
  "sample_member \<equiv> snd (actor_handle sample_hashes toy_loro memory_store (Join 1 [] 7) (sample_started []))"

lemma sample_updated_accepted:
  "accepted_by (Update 1 5 [[2, 9]] 7) sample_member (sample_updated []) = [(gen_zero, [[2, 9]])]"
proof -
  obtain a s w where j: "sample_member = (a, w)"
    "prepare_update sample_hashes toy_loro 1 5 [[2, 9]] a = Inr ([9], 1, sample_room_pending)"
    "ra_lifecycle a = Ready" "ra_config a = default_actor_config" "ra_peers a = [(1, 7)]" "wd_store w = s"
    and s: "stream_bytes s = (\<lambda>_. [])" "ms_behaviors s = []" "ms_producers s = Map.empty" "\<not> ms_unavailable s"
    using sample_joined [of 1 7 "[]"] by blast
  have len: "length (pa_bytes sample_room_pending) < 18446744073709551616"
    using sample_room_pending_sel(4) by linarith
  obtain k t where r: "resolve_append sample_hashes memory_store default_actor_config sample_room_pending s =
      (Inr (Committed k), t)"
    using s by (auto simp: resolve_append_def resolve_append_loop.simps memory_append_def memory_admit_def pop_behavior_def
        memory_commit_def u64_of_usize_def Let_def len)
  have "room_run sample_hashes toy_loro memory_store ''room-a'' default_actor_config (\<lambda>_. True) (\<lambda>_ _. True) []
      (sample_started [])"
    unfolding sample_started_def sample_new_def by (intro room_run.start) (simp_all add: sample_world_def)
  from room_run_ok [OF room_run.handle [OF this, of "Join 1 [] 7"]]
  have "generation_bound sample_hashes a" "ra_stream a = sample_delta" "ra_room_id a = ''room-a''"
    using prepare_update_target [OF j(2)] by (auto simp: j(1) room_ok_def)
  then have "ra_active_delta_generation a = gen_zero"
    by (auto simp: generation_bound_def)
  moreover obtain a' w' where u: "sample_updated [] = (a', w')" by fastforce
  moreover have run: "sample_updated [] = snd (actor_handle sample_hashes toy_loro memory_store (Update 1 5 [[2, 9]] 7) (a, w))"
    by (simp only: sample_updated_by_def j(1))
  have "wd_sent w' = wd_sent w @ [(7, Protocol (Ack CrdtLoro (ra_room_id a) 5 Ok))]"
    using u by (auto simp: run j actor_handle_def actor_update_def on_store_def Let_def r forward_updates_def)
  ultimately show ?thesis
    by (simp add: accepted_by_def j(1) u)
qed

lemma sample_owned:
  "owned_run stream_bytes memory_faithful memory_seen sample_hashes toy_loro memory_store ''room-a''
     default_actor_config [Join 1 [] 7, Update 1 5 [[2, 9]] 7] [(gen_zero, [[2, 9]])] (sample_updated [])"
proof -
  have "memory_faithful (wd_store (sample_world []))" "boot_fresh memory_seen sample_hashes ''room-a'' (wd_store (sample_world [])) 0"
    by (simp_all add: memory_faithful_def memory_honest_def memory_seen_def sample_world_def memory_new_def boot_fresh_def)
  then have "owned_run stream_bytes memory_faithful memory_seen sample_hashes toy_loro memory_store ''room-a''
     default_actor_config [] [] (sample_started [])"
    unfolding sample_started_def sample_new_def by (intro owned_run.start) (simp_all add: sample_world_def)
  from owned_run.handle [OF owned_run.handle [OF this refl, of "Join 1 [] 7"] refl, of "Update 1 5 [[2, 9]] 7"]
  show ?thesis
    using sample_updated_accepted by (simp add: sample_updated_by_def) (simp add: accepted_by_def)
qed

theorem ready_room_is_its_log_witness:
  "\<exists>fs. stream_bytes (wd_store (snd (sample_updated []))) sample_delta = concat (map (frame_bytes sample_hashes) fs) \<and>
    subseq [[[2, 9]]] (map fr_updates fs) \<and> concat (map fr_updates fs) = [[2, 9]]"
proof -
  obtain a w where u: "sample_updated [] = (a, w)" and f: "ra_lifecycle a = Ready" "ra_history a = [[2, 9]]"
    "ra_active_delta_generation a = gen_zero"
    "stream_bytes (wd_store w) = (\<lambda>_. [])(sample_delta := pa_bytes sample_room_pending)"
    using sample_updated_ready by blast
  from ready_room_is_its_log [OF memory_idempotent.idempotent_store_axioms sample_owned [unfolded u] f(1)]
  show ?thesis by (auto simp: u f base_history_def)
qed

end
