(* ===== verification/Room_Restart.thy ===== *)
theory Room_Restart
  imports Room_Accepted
begin

text \<open>
  A restart of a room that owns its streams: on fresh reads, within the limits of the decoders,
  the new actor has what the old one had.
\<close>

section \<open>Starting from a log\<close>

text \<open>
  What a start can trip over although the room was ready: the limits of its decoders, which the
  append path does not check.
\<close>

definition within_start_limits :: "hashes \<Rightarrow> frame_limits \<Rightarrow> string \<Rightarrow> (string \<Rightarrow> bytes) \<Rightarrow> string \<Rightarrow> bool" where
  "within_start_limits h l room held stream \<longleftrightarrow>
     length (held stream) \<le> fl_max_stream_bytes l \<and> length (held stream) < 2 ^ 64 \<and>
     length (held (physical (manifest_stream h room))) \<le> 65536 * 188"

text \<open>Frames whose updates the document library refuses are the only obstacle left.\<close>

lemma recover_delta_refused:
  assumes "frame_decode_all_with_limits h l bs = Inr fs" and "replay_updates lo d (concat (map fr_updates fs)) = Inl e"
  shows "recover_delta h lo l cp d bs = Inl (recovery_error.Loro e)"
proof -
  have "concat (map fr_updates fs) \<noteq> []"
    using assms(2) unfolding replay_updates_def by (auto simp del: concat_eq_Nil_conv)
  with assms show ?thesis
    by (simp add: recover_delta_def replay_updates_def Let_def del: concat_eq_Nil_conv)
qed

text \<open>Recovering a logged room that was rotated.\<close>

lemma logged_recovered:
  assumes logged: "room_logged h lo held a"
    and bound: "ra_stream a = physical (delta_stream_for_generation h (ra_room_id a) (ra_active_delta_generation a))"
    and ne: "held (physical (manifest_stream h (ra_room_id a))) \<noteq> []"
  shows "\<And>rv. recovery_of h lo (ra_room_id a) (ag_frame_limits (ra_config a)) held = Inr (Some rv) \<Longrightarrow>
      rv_history rv = ra_history a \<and> rv_active_delta_generation rv = ra_active_delta_generation a \<and>
      within_start_limits h (ag_frame_limits (ra_config a)) (ra_room_id a) held (ra_stream a)"
    and "within_start_limits h (ag_frame_limits (ra_config a)) (ra_room_id a) held (ra_stream a) \<Longrightarrow>
      (\<exists>rv. recovery_of h lo (ra_room_id a) (ag_frame_limits (ra_config a)) held = Inr (Some rv)) \<or>
      (\<exists>e. recovery_of h lo (ra_room_id a) (ag_frame_limits (ra_config a)) held = Inl (recovery_error.Loro e))"
proof -
  let ?l = "ag_frame_limits (ra_config a)" and ?room = "ra_room_id a"
  let ?ms = "held (physical (manifest_stream h ?room))"
  from logged ne obtain m cp d fs where head: "chain_with_head h ?room ?ms m"
    and gen: "GenerationId (mf_active_delta_generation m) = ra_active_delta_generation a"
    and ck: "recover_checkpoint h lo ?room m
      (held (physical (checkpoint_stream h ?room (GenerationId (mf_checkpoint_generation m))))) = Inr (cp, d)"
    and fs: "held (ra_stream a) = concat (map (frame_bytes h) fs)" "\<forall>f \<in> set fs. frame_wf h f \<and> frame_fits ?l f"
    and hist: "ra_history a = cp_pending_updates cp @ concat (map fr_updates fs)"
    by (auto simp: room_logged_def base_history_def)
  show "rv_history rv = ra_history a \<and> rv_active_delta_generation rv = ra_active_delta_generation a \<and>
      within_start_limits h ?l ?room held (ra_stream a)"
    if "recovery_of h lo ?room ?l held = Inr (Some rv)" for rv
    using that
  proof (rule recovery_of_Some)
    fix m' cp' d' fs'
    assume head': "manifest_head_of h ?room ?ms = Inr m'"
      and ck': "recover_checkpoint h lo ?room m'
        (held (physical (checkpoint_stream h ?room (GenerationId (mf_checkpoint_generation m'))))) = Inr (cp', d')"
      and gen': "rv_active_delta_generation rv = GenerationId (mf_active_delta_generation m')"
      and stream: "rv_active_delta_stream rv = physical (delta_stream_for_generation h ?room (rv_active_delta_generation rv))"
      and dec: "frame_decode_all_with_limits h ?l (held (rv_active_delta_stream rv)) = Inr fs'"
      and hist': "rv_history rv = cp_pending_updates cp' @ concat (map fr_updates fs')"
      and len: "length (held (rv_active_delta_stream rv)) < usize_limit"
    note short = manifest_head_length [OF head']
    have "m' = m"
      using manifest_head_of_run [OF head short] head' by simp
    with ck ck' gen gen' have "cp' = cp" and g: "rv_active_delta_generation rv = ra_active_delta_generation a" by simp_all
    then have st: "rv_active_delta_stream rv = ra_stream a"
      using stream bound by simp
    have "length (held (ra_stream a)) \<le> fl_max_stream_bytes ?l"
      using conjunct1 [OF frame_decode_all_Inr [OF dec]] by (simp only: st)
    moreover have "length (held (ra_stream a)) < 2 ^ 64"
      using len by (simp add: st usize_limit_def)
    moreover have "fs' = fs"
      using frames_decode [OF fs(2,1)] calculation dec by (simp add: st)
    ultimately show ?thesis
      using short hist hist' \<open>cp' = cp\<close> g by (simp add: within_start_limits_def)
  qed
  show "(\<exists>rv. recovery_of h lo ?room ?l held = Inr (Some rv)) \<or> (\<exists>e. recovery_of h lo ?room ?l held = Inl (recovery_error.Loro e))"
    if lim: "within_start_limits h ?l ?room held (ra_stream a)"
  proof -
    let ?d = "held (physical (delta_stream_for_generation h ?room (GenerationId (mf_active_delta_generation m))))"
    have short: "length ?ms \<le> 65536 * 188"
      using lim by (simp add: within_start_limits_def)
    have dec: "frame_decode_all_with_limits h ?l (held (ra_stream a)) = Inr fs"
      using frames_decode [OF fs(2,1)] lim by (simp add: within_start_limits_def)
    show ?thesis
    proof (cases "replay_updates lo d (concat (map fr_updates fs))")
      case (Inl e)
      then have "recover_delta h lo ?l cp d ?d = Inl (recovery_error.Loro e)"
        using dec by (intro recover_delta_refused) (simp_all add: gen bound)
      then have "recovery_of h lo ?room ?l held = Inl (recovery_error.Loro e)"
        using ne ck by (simp add: recovery_of_def Let_def manifest_head_of_run [OF head short])
      then show ?thesis by blast
    next
      case (Inr d')
      then have "recover_delta h lo ?l cp d ?d = Inr (d', ra_history a, of_nat (length (held (ra_stream a))))"
        using dec lim by (auto simp: recover_delta_Inr_iff gen bound hist within_start_limits_def usize_limit_def)
      from recovery_of_run [where held = held, OF head short ck this] show ?thesis by blast
    qed
  qed
qed

context idempotent_store
begin

text \<open>A stream that decodes to admitted frames is loaded, unless it cannot be read.\<close>

lemma load_accepted:
  assumes v: "valid (wd_store w)" and run: "load_from_store h lo store (a, w) = (r, (a', w'))"
    and dec: "frame_decode_all_with_limits h (ag_frame_limits (ra_config a)) (content (wd_store w) (ra_stream a)) = Inr fs"
    and len: "length (content (wd_store w) (ra_stream a)) < 2 ^ 64"
    and hist: "load_history lo [] fs = Inr history"
  shows "(\<exists>doc. r = Inr (history, doc)) \<or> (\<exists>e. r = Inl (initialization_store_failure e)) \<or>
    (\<exists>e. replay lo history = Inl e \<and> r = Inl (corrupt_failure e))"
proof -
  obtain ob s1 where ob: "us_read_all_observed store (ra_stream a) (wd_store w) = (ob, s1)" by fastforce
  have "ro_bytes y = content (wd_store w) (ra_stream a)" if "ob = Inr y" for y
    using read_all_observed_fresh [OF v ob] that by simp
  with run ob dec len hist show ?thesis
    by (cases ob; cases "replay lo history") (auto simp: load_from_store_def on_store_def Let_def u64_of_usize_def)
qed

text \<open>A restart of a ready room, from what it holds as its log.\<close>

lemma restart_from_log:
  assumes v: "valid (wd_store w)" and logged: "room_logged h lo (content (wd_store w)) a"
    and a: "ra_stream a = physical (delta_stream_for_generation h (ra_room_id a) (ra_active_delta_generation a))"
      "ra_room_id a = room" "ra_config a = config"
    and run: "actor_start h lo store (room_actor_new h lo room boot config, w) = (a', w')"
  defines "lim \<equiv> within_start_limits h (ag_frame_limits config) room (content (wd_store w)) (ra_stream a)"
  shows "ra_lifecycle a' = Ready \<Longrightarrow> ra_history a' = ra_history a \<and>
      ra_active_delta_generation a' = ra_active_delta_generation a \<and> lim"
    and "lim \<Longrightarrow> ra_lifecycle a' = Ready \<or>
      (\<exists>e. ra_last_error a' = Some (store_error_text e) \<or> ra_last_error a' = Some (recovery_error_text (recovery_error.Store e))) \<or>
      (\<exists>e. replay lo (ra_history a) = Inl e \<and> ra_last_error a' = Some e \<or>
        ra_last_error a' = Some (recovery_error_text (recovery_error.Loro e)))"
proof -
  let ?n = "room_actor_new h lo room boot config" and ?held = "content (wd_store w)" and ?l = "ag_frame_limits config"
  let ?ms = "?held (physical (manifest_stream h room))"
  have new: "ra_room_id ?n = room" "ra_config ?n = config" "ra_active_delta_generation ?n = gen_zero"
    "ra_stream ?n = physical (delta_stream_for_generation h room gen_zero)"
    by (simp_all add: room_actor_new_def Let_def delta_stream_def)
  obtain rr s1 where rec: "recover_from_manifest h lo store room ?l (wd_store w) = (rr, s1)" by fastforce
  note r1 = recover_refines [OF v rec]
  have ready: "ra_lifecycle a' = Ready \<longleftrightarrow> fst (initialize h lo store (?n, w)) = Inr ()"
    and err: "\<And>f. fst (initialize h lo store (?n, w)) = Inl f \<Longrightarrow> ra_last_error a' = Some (if_message f)"
    using run initialize_failure [of h lo store ?n w]
    by (cases "initialize h lo store (?n, w)"; cases "fst (initialize h lo store (?n, w))";
        force simp: actor_start_def)+
  have "(ra_lifecycle a' = Ready \<longrightarrow> ra_history a' = ra_history a \<and>
      ra_active_delta_generation a' = ra_active_delta_generation a \<and> lim) \<and>
    (lim \<longrightarrow> ra_lifecycle a' = Ready \<or>
      (\<exists>e. ra_last_error a' = Some (store_error_text e) \<or> ra_last_error a' = Some (recovery_error_text (recovery_error.Store e))) \<or>
      (\<exists>e. replay lo (ra_history a) = Inl e \<and> ra_last_error a' = Some e \<or>
        ra_last_error a' = Some (recovery_error_text (recovery_error.Loro e))))"
  proof (cases "?ms = []")
    case False
    note log = logged_recovered [OF logged a(1), unfolded a(2,3), OF False]
    show ?thesis
    proof (cases rr)
      case (Inl e)
      with rec have "fst (initialize h lo store (?n, w)) = Inl (manifest_recovery_failure e)"
        by (simp add: initialize_def on_store_def new)
      with err ready have "ra_lifecycle a' \<noteq> Ready" "ra_last_error a' = Some (recovery_error_text e)"
        by (simp_all add: manifest_recovery_failure_def)
      moreover have "lim \<longrightarrow> (\<exists>e'. e = recovery_error.Store e') \<or> (\<exists>e'. e = recovery_error.Loro e')"
        using log(2) r1 Inl unfolding lim_def by auto
      ultimately show ?thesis by blast
    next
      case (Inr ro)
      then obtain rv where rv: "ro = Some rv" "recovery_of h lo room ?l ?held = Inr (Some rv)"
        using r1 recovery_of_None [of h lo room ?l ?held] False by (cases ro) auto
      with rec Inr have "initialize h lo store (?n, w) = (Inr (), snd (initialize h lo store (?n, w)))"
        by (simp add: initialize_def on_store_def new)
      with log(1) [OF rv(2)] run rec Inr rv(1) show ?thesis
        unfolding lim_def by (auto simp: actor_start_def initialize_def on_store_def new)
    qed
  next
    case True
    note manifest = True
    from logged True obtain fs where gen: "ra_active_delta_generation a = gen_zero"
      and fs: "?held (ra_stream a) = concat (map (frame_bytes h) fs)" "\<forall>f \<in> set fs. frame_wf h f \<and> frame_fits ?l f"
        "load_history lo [] fs = Inr (ra_history a)"
      by (auto simp: room_logged_def base_history_def a(2,3))
    have stream: "ra_stream ?n = ra_stream a"
      by (simp add: new(4) a(1,2) gen)
    have frames: "frame_decode_all_with_limits h ?l (?held (ra_stream a)) = Inr fs" if lim
      using frames_decode [OF fs(2,1)] that by (simp add: lim_def within_start_limits_def)
    show ?thesis
    proof (cases rr)
      case (Inl e)
      then obtain e' where "e = recovery_error.Store e'"
        using r1 recovery_of_None [of h lo room ?l ?held] True by auto
      with Inl rec err ready show ?thesis
        by (auto simp: initialize_def on_store_def new manifest_recovery_failure_def)
    next
      case (Inr ro)
      then have ro: "ro = None"
        using r1 recovery_of_None [of h lo room ?l ?held] True by auto
      obtain re s2 where ens: "us_ensure_stream store (ra_stream a) s1 = (re, s2)" by fastforce
      have s2: "valid s2" "content s2 = ?held"
        using ensure_law [OF _ ens] ensure_same [OF _ ens] r1 by auto
      obtain rl a3 w3 where load: "load_from_store h lo store (?n, w\<lparr>wd_store := s2\<rparr>) = (rl, (a3, w3))"
        by (metis prod.collapse)
      note frame = load_from_store_frame [OF load]
      have init: "initialize h lo store (?n, w) = (case re of Inl e \<Rightarrow> (Inl (initialization_store_failure e), (?n, w\<lparr>wd_store := s2\<rparr>))
          | Inr _ \<Rightarrow> (case rl of Inl f \<Rightarrow> (Inl f, (a3, w3))
          | Inr (history, doc) \<Rightarrow> (Inr (), (a3\<lparr>ra_history := history, ra_doc := doc\<rparr>, w3))))"
        using rec Inr ro ens load
        by (auto simp: initialize_def on_store_def new(1,2) stream split: sum.splits prod.splits)
      show ?thesis
      proof (cases "\<exists>e. fst (initialize h lo store (?n, w)) = Inl (initialization_store_failure e)")
        case True
        then show ?thesis
          using err ready by (auto simp: initialization_store_failure_def)
      next
        case False
        then obtain u where re: "re = Inr u"
          by (cases re) (auto simp: init)
        show ?thesis
        proof (cases rl)
          case (Inl f)
          have "lim \<longrightarrow> (\<exists>e. replay lo (ra_history a) = Inl e \<and> f = corrupt_failure e)"
          proof
            assume l: lim
            have "(\<exists>doc. rl = Inr (ra_history a, doc)) \<or> (\<exists>e. rl = Inl (initialization_store_failure e)) \<or>
                (\<exists>e. replay lo (ra_history a) = Inl e \<and> rl = Inl (corrupt_failure e))"
              using load_accepted [OF _ load _ _ fs(3)] frames l s2 stream
              by (auto simp: new(2) lim_def within_start_limits_def)
            with False Inl re show "\<exists>e. replay lo (ra_history a) = Inl e \<and> f = corrupt_failure e"
              by (auto simp: init)
          qed
          moreover have "ra_last_error a' = Some (if_message f)"
            using err [of f] Inl re by (simp add: init)
          moreover have "ra_lifecycle a' \<noteq> Ready"
            using ready Inl re by (simp add: init)
          ultimately show ?thesis by (auto simp: corrupt_failure_def)
        next
          case (Inr y)
          obtain history doc where y: "y = (history, doc)" by (cases y)
          from load_own_stream [OF _ load] s2 Inr y stream obtain fs' where
            dec: "frame_decode_all_with_limits h ?l (?held (ra_stream a)) = Inr fs'"
            and hist: "load_history lo [] fs' = Inr history" and len: "length (?held (ra_stream a)) < 2 ^ 64"
            by (auto simp: new(2))
          have le: "length (?held (ra_stream a)) \<le> fl_max_stream_bytes ?l"
            using conjunct1 [OF frame_decode_all_Inr [OF dec]] .
          have "fs' = fs"
            using frames_decode [OF fs(2,1) le len] dec by simp
          with hist fs(3) have "history = ra_history a" by simp
          moreover have lim
            using le len manifest by (simp add: lim_def within_start_limits_def)
          moreover have "ra_lifecycle a' = Ready" "ra_history a' = history" "ra_active_delta_generation a' = gen_zero"
            using run frame by (auto simp: actor_start_def init re Inr y new)
          ultimately show ?thesis
            unfolding gen by blast
        qed
      qed
    qed
  qed
  then show "ra_lifecycle a' = Ready \<Longrightarrow> ra_history a' = ra_history a \<and>
      ra_active_delta_generation a' = ra_active_delta_generation a \<and> lim"
    and "lim \<Longrightarrow> ra_lifecycle a' = Ready \<or>
      (\<exists>e. ra_last_error a' = Some (store_error_text e) \<or> ra_last_error a' = Some (recovery_error_text (recovery_error.Store e))) \<or>
      (\<exists>e. replay lo (ra_history a) = Inl e \<and> ra_last_error a' = Some e \<or>
        ra_last_error a' = Some (recovery_error_text (recovery_error.Loro e)))"
    by blast+
qed

end

section \<open>Property\<close>

text \<open>
  C4. A restart gives the same room, on fresh reads. Under the conditions of the log (a store for
  a single writer whose reads return the whole stream, a room that owns its streams and has
  either not retried an ambiguous append or never been rotated), a new actor started on the
  streams of a ready room, under any boot identity, has once it is ready the same history,
  generation and delta stream, and its document again is one into which that history has been
  imported. If the streams are within the limits of the decoders it does become ready, unless
  a store call fails or the document library refuses to import the history, and then it says
  so. That the streams are within the limits is not for the room to promise: an update is
  accepted whatever the length of the stream, and a stream over its limit makes every later start
  fail.
\<close>

theorem restart_restores_room:
  assumes "idempotent_store store content valid seen"
    and "owned_run content valid seen h lo store room config cmds acc (a, w)"
    and "ra_lifecycle a = Ready"
    and "RetryAmbiguous \<notin> set cmds \<or> content (wd_store w) (physical (manifest_stream h room)) = []"
    and "actor_start h lo store (room_actor_new h lo room boot config, w) = (a', w')"
  shows "(ra_lifecycle a' = Ready \<longrightarrow> ra_history a' = ra_history a \<and>
      ra_active_delta_generation a' = ra_active_delta_generation a \<and> ra_stream a' = ra_stream a \<and>
      (\<exists>start doc. import_base lo start \<and> imported lo start (ra_history a) doc \<and> same_document lo doc (ra_doc a')) \<and>
      length (content (wd_store w) (ra_stream a)) \<le> fl_max_stream_bytes (ag_frame_limits config)) \<and>
    (within_start_limits h (ag_frame_limits config) room (content (wd_store w)) (ra_stream a) \<longrightarrow>
      ra_lifecycle a' = Ready \<or>
      (\<exists>e. ra_last_error a' = Some (store_error_text e) \<or>
        ra_last_error a' = Some (recovery_error_text (recovery_error.Store e))) \<or>
      (\<exists>e. replay lo (ra_history a) = Inl e \<and> ra_last_error a' = Some e \<or>
        ra_last_error a' = Some (recovery_error_text (recovery_error.Loro e))))"
proof -
  have own: "owns_log content valid seen h lo (RetryAmbiguous \<in> set cmds) a (wd_store w)"
    using idempotent_store.owned_run_owns [OF assms(1,2)] by simp
  have a: "ra_room_id a = room" "ra_config a = config"
    using room_run_ok [OF owned_run_room_run [OF assms(2)]] by simp_all
  have stream: "ra_stream a = physical (delta_stream_for_generation h (ra_room_id a) (ra_active_delta_generation a))"
    and valid: "valid (wd_store w)"
    using own by (simp_all add: owns_log_def room_ok_def generation_bound_def)
  have logged: "room_logged h lo (content (wd_store w)) a"
    using own assms(3,4) by (auto simp: owns_log_def a)
  note log = idempotent_store.restart_from_log [OF assms(1) valid logged stream a assms(5)]
  have "\<exists>start doc. import_base lo start \<and> imported lo start (ra_history a) doc \<and> same_document lo doc (ra_doc a')"
    if "ra_lifecycle a' = Ready"
    using start_holds [OF assms(5)] log(1) [OF that] by (simp add: holds_history_def)
  moreover have "ra_stream a' = physical (delta_stream_for_generation h room (ra_active_delta_generation a'))"
    using started_ok [OF assms(5)] by (simp add: room_ok_def generation_bound_def)
  ultimately show ?thesis
    using log by (simp add: stream a within_start_limits_def del: recovery_error_text.simps)
qed

text \<open>The sample room again, within all limits, and ready after a restart under another boot identity.\<close>

theorem restart_restores_room_witness:
  "\<exists>a w. actor_start sample_hashes toy_loro memory_store
      (room_actor_new sample_hashes toy_loro ''room-a'' 1 default_actor_config, snd (sample_updated [])) = (a, w) \<and>
    ra_lifecycle a = Ready \<and> ra_history a = [[2, 9]] \<and>
    within_start_limits sample_hashes default_frame_limits ''room-a''
      (stream_bytes (wd_store (snd (sample_updated [])))) sample_delta"
proof -
  obtain a w where u: "sample_updated [] = (a, w)" and f: "ra_lifecycle a = Ready" "ra_history a = [[2, 9]]"
    "ra_active_delta_generation a = gen_zero" "ra_stream a = sample_delta"
    "stream_bytes (wd_store w) = (\<lambda>_. [])(sample_delta := pa_bytes sample_room_pending)" "\<not> ms_unavailable (wd_store w)"
    using sample_updated_ready by blast
  let ?n = "room_actor_new sample_hashes toy_loro ''room-a'' 1 default_actor_config"
  have len: "length (pa_bytes sample_room_pending) < 1000"
    by simp
  have frame: "fr_updates (pa_frame sample_room_pending) = [[2, 9]]"
    by (simp add: sample_room_pending_def Let_def delta_frame_new_def)
  have "ag_frame_limits default_actor_config = default_frame_limits"
    by (simp add: default_actor_config_def)
  moreover have unavailable: "ms_unavailable (set_stream_bytes n b t) = ms_unavailable t" for n b t
    by (simp add: set_stream_bytes_def)
  ultimately obtain a' w' where run: "actor_start sample_hashes toy_loro memory_store (?n, w) = (a', w')"
    and ready: "ra_lifecycle a' = Ready"
    using f len
    by (simp add: actor_start_def initialize_def room_actor_new_def Let_def delta_stream_def on_store_def memory_recover
        recovery_of_def memory_ensure_stream_def load_from_store_def default_read_all_observed_def memory_read_all_def
        u64_of_usize_def sample_pending_decodes frame validate_update_blobs_def replay_def import_outcome_def toy_add_def
        unavailable)
  from restart_restores_room [OF memory_idempotent.idempotent_store_axioms sample_owned [unfolded u] f(1) _ run]
  have "ra_history a' = [[2, 9]]"
    using ready run f by (auto simp: u)
  moreover have "within_start_limits sample_hashes default_frame_limits ''room-a'' (stream_bytes (wd_store w)) sample_delta"
    using len by (simp add: within_start_limits_def f(5) default_frame_limits_def del: sample_room_pending_sel(4))
  ultimately show ?thesis using ready run by (auto simp: u)
qed

end
