(* ===== verification/Actor_Broadcast.thy ===== *)
theory Actor_Broadcast
  imports Actor_Properties
begin

text \<open>
  Who is sent an accepted update: every other member of the room, once and in order, in the
  messages of \<open>send_update\<close>; the peer that submitted it is sent its acknowledgement and nothing
  else; nobody else is sent anything.
\<close>

section \<open>What is sent to whom\<close>

text \<open>The messages of a list of updates, under consecutive batch identifiers from \<open>n\<close> on.\<close>

primrec update_stream :: "string \<Rightarrow> bytes list \<Rightarrow> u64 \<Rightarrow> protocol_message list" where
  "update_stream room [] n = []"
| "update_stream room (u # us) n = update_messages room u n @ update_stream room us (n + 1)"

definition sent_to :: "peer \<Rightarrow> (peer \<times> outbound) list \<Rightarrow> outbound list" where
  "sent_to p sent = map snd (filter (\<lambda>x. fst x = p) sent)"

lemma sent_to_simps [simp]:
  "sent_to p [] = []"
  "sent_to p (xs @ ys) = sent_to p xs @ sent_to p ys"
  "sent_to p (x # xs) = (if fst x = p then snd x # sent_to p xs else sent_to p xs)"
  "sent_to p (map (\<lambda>m. (q, f m)) ms) = (if q = p then map f ms else [])"
  by (simp_all add: sent_to_def filter_map comp_def)

lemma send_updates_sent:
  "wd_sent (fold (\<lambda>u. send_update p r u) us w) =
    wd_sent w @ map (\<lambda>m. (p, Protocol m)) (update_stream r us (wd_next_batch w))"
  by (induction us arbitrary: w) simp_all

lemma forward_updates_sent:
  assumes "distinct (map snd peers)"
  shows "\<exists>new. wd_sent (forward_updates c r us peers w) = wd_sent w @ new \<and>
    (\<forall>(i, p) \<in> set peers. i \<noteq> c \<longrightarrow> (\<exists>n. sent_to p new = map Protocol (update_stream r us n))) \<and>
    (\<forall>p. (\<forall>i. (i, p) \<in> set peers \<longrightarrow> i = c) \<longrightarrow> sent_to p new = [])"
  using assms
proof (induction peers arbitrary: w)
  case Nil
  then show ?case by (simp add: forward_updates_def)
next
  case (Cons x peers)
  obtain i q where x: "x = (i, q)" by (cases x)
  let ?w = "if i = c then w else fold (\<lambda>u. send_update q r u) us w"
  let ?first = "if i = c then [] else map (\<lambda>m. (q, Protocol m)) (update_stream r us (wd_next_batch w))"
  have step: "forward_updates c r us (x # peers) w = forward_updates c r us peers ?w"
    by (simp add: forward_updates_def x)
  have fresh: "q \<notin> snd ` set peers" and "distinct (map snd peers)"
    using Cons.prems by (auto simp: x)
  from Cons.IH [OF this(2), of ?w] obtain new where
    new: "wd_sent (forward_updates c r us peers ?w) = wd_sent ?w @ new"
    and each: "\<forall>(i, p) \<in> set peers. i \<noteq> c \<longrightarrow> (\<exists>n. sent_to p new = map Protocol (update_stream r us n))"
    and other: "\<And>p. (\<forall>i. (i, p) \<in> set peers \<longrightarrow> i = c) \<Longrightarrow> sent_to p new = []"
    by blast
  have sent: "wd_sent (forward_updates c r us (x # peers) w) = wd_sent w @ ?first @ new"
    by (simp add: step new send_updates_sent)
  have none: "sent_to q new = []"
    using other [of q] fresh by force
  have "\<exists>n. sent_to p (?first @ new) = map Protocol (update_stream r us n)"
    if "(j, p) \<in> set (x # peers)" and "j \<noteq> c" for j p
  proof (cases "(j, p) = x")
    case True
    with that none show ?thesis by (auto simp: x)
  next
    case False
    with that fresh have "(j, p) \<in> set peers" "p \<noteq> q" by (auto simp: x image_iff)
    with each that(2) show ?thesis by fastforce
  qed
  moreover have "sent_to p (?first @ new) = []" if "\<forall>i. (i, p) \<in> set (x # peers) \<longrightarrow> i = c" for p
    using that other [of p] by (auto simp: x)
  ultimately show ?case
    using sent by (intro exI [of _ "?first @ new"]) blast
qed

section \<open>Property\<close>

text \<open>
  C7. An accepted update reaches the whole room. When an update command advances the room's
  sequence, every other member of the room is sent exactly the messages of its updates, in
  their order; the submitting peer is sent its acknowledgement alone, and a peer that is not a
  member nothing. When the sequence does not advance, nobody but the submitting peer is sent
  anything. The members' channels are assumed to be distinct, and the submitting peer to be
  the member of its connection.
\<close>

theorem accepted_update_broadcast:
  assumes "actor_update h lo store c b us peer (a, w) = (a', w')"
    and "distinct (map snd (ra_peers a))" and "(c, peer) \<in> set (ra_peers a)"
  shows "\<exists>new. wd_sent w' = wd_sent w @ new \<and>
    (if ra_producer_sequence a' = ra_producer_sequence a then \<forall>p. p \<noteq> peer \<longrightarrow> sent_to p new = []
     else sent_to peer new = [Protocol (Ack CrdtLoro (ra_room_id a) b Ok)] \<and>
       (\<forall>(i, p) \<in> set (ra_peers a). i \<noteq> c \<longrightarrow>
          (\<exists>n. sent_to p new = map Protocol (update_stream (ra_room_id a) us n))) \<and>
       (\<forall>p. p \<notin> snd ` set (ra_peers a) \<longrightarrow> sent_to p new = []))"
proof (cases "prepare_update h lo c b us a")
  case (Inl st)
  with assms(1) show ?thesis by (auto simp: actor_update_def)
next
  case (Inr x)
  obtain d q p where x: "x = (d, q, p)" by (cases x)
  note prep = prepare_update_Inr [OF Inr [unfolded x]]
  have q: "q \<noteq> ra_producer_sequence a"
    using prep u64_checked_add_unat by fastforce
  obtain r s1 where res: "resolve_append h store (ra_config a) p (wd_store w) = (r, s1)" by fastforce
  show ?thesis
  proof (cases r)
    case (Inl f)
    with assms(1) res \<open>prepare_update h lo c b us a = Inr x\<close> x show ?thesis
      by (cases f) (auto simp: actor_update_def Let_def on_store_def)
  next
    case (Inr y)
    let ?w = "forward_updates c (ra_room_id a) us (ra_peers a) (w\<lparr>wd_store := s1\<rparr>)"
    have sent: "wd_sent w' = wd_sent ?w @ [(peer, Protocol (Ack CrdtLoro (ra_room_id a) b Ok))]"
      and seq: "ra_producer_sequence a' = q"
      using assms(1) res \<open>prepare_update h lo c b us a = Inr x\<close> x Inr
      by (auto simp: actor_update_def Let_def on_store_def)
    from forward_updates_sent [OF assms(2), of c "ra_room_id a" us "w\<lparr>wd_store := s1\<rparr>"] obtain new where
      new: "wd_sent ?w = wd_sent w @ new"
      and each: "\<forall>(i, p) \<in> set (ra_peers a). i \<noteq> c \<longrightarrow> (\<exists>n. sent_to p new = map Protocol (update_stream (ra_room_id a) us n))"
      and other: "\<And>p. (\<forall>i. (i, p) \<in> set (ra_peers a) \<longrightarrow> i = c) \<Longrightarrow> sent_to p new = []"
      by auto
    have own: "i = c" if "(i, peer) \<in> set (ra_peers a)" for i
      using assms(2,3) that by (metis distinct_map inj_onD prod.inject snd_conv)
    have "sent_to peer new = []"
      using other own by blast
    moreover have "p \<noteq> peer" if "(i, p) \<in> set (ra_peers a)" "i \<noteq> c" for i p
      using own that by blast
    moreover have "sent_to p new = []" "p \<noteq> peer" if "p \<notin> snd ` set (ra_peers a)" for p
      using other [of p] that assms(3) by force+
    ultimately show ?thesis
      unfolding sent new seq using q each by (intro exI [of _ "new @ [(peer, Protocol (Ack CrdtLoro (ra_room_id a) b Ok))]"]) fastforce
  qed
qed

text \<open>A second peer joins the sample room before the first one sends its update.\<close>

lemma prepare_update_peers:
  "map_of (ra_peers a) c \<noteq> None \<Longrightarrow> map_of ps c \<noteq> None \<Longrightarrow>
    prepare_update h lo c b us (publish_status (a\<lparr>ra_peers := ps\<rparr>)) = prepare_update h lo c b us a"
  by (cases "map_of (ra_peers a) c"; cases "map_of ps c") (simp_all add: prepare_update_def)

theorem accepted_update_broadcast_witness:
  "\<exists>a w a' w' new n. actor_update sample_hashes toy_loro memory_store 1 5 [[2, 9]] 7 (a, w) = (a', w') \<and>
    ra_peers a = [(1, 7), (2, 8)] \<and> wd_sent w' = wd_sent w @ new \<and>
    sent_to 7 new = [Protocol (Ack CrdtLoro ''room-a'' 5 Ok)] \<and>
    sent_to 8 new = [Protocol (DocUpdate CrdtLoro ''room-a'' [[2, 9]] n)]"
proof -
  obtain a1 s w where
    start: "snd (actor_handle sample_hashes toy_loro memory_store (Join 1 [] 7) (sample_started [])) = (a1, w)"
    and j: "prepare_update sample_hashes toy_loro 1 5 [[2, 9]] a1 = Inr ([9], 1, sample_room_pending)"
    "ra_config a1 = default_actor_config" "ra_room_id a1 = ''room-a''" "ra_peers a1 = [(1, 7)]" "wd_store w = s"
    "ra_producer_sequence a1 = 0"
    and s: "stream_bytes s = (\<lambda>_. [])" "ms_behaviors s = []" "ms_producers s = Map.empty"
    using sample_joined [of 1 7 "[]"] by blast
  let ?a = "publish_status (a1\<lparr>ra_peers := [(1, 7), (2, 8)]\<rparr>)"
  have prep: "prepare_update sample_hashes toy_loro 1 5 [[2, 9]] ?a = Inr ([9], 1, sample_room_pending)"
    using j(1) by (simp add: prepare_update_peers j(4))
  have len: "length (pa_bytes sample_room_pending) < 18446744073709551616"
    using sample_room_pending_sel(4) by linarith
  obtain k t where res: "resolve_append sample_hashes memory_store default_actor_config sample_room_pending s =
      (Inr (Committed k), t)"
    by (auto simp: resolve_append_def resolve_append_loop.simps memory_append_def memory_admit_def s pop_behavior_def
        memory_commit_def u64_of_usize_def Let_def len)
  obtain a' w' where run: "actor_update sample_hashes toy_loro memory_store 1 5 [[2, 9]] 7 (?a, w) = (a', w')"
    by fastforce
  then have seq: "ra_producer_sequence a' = 1"
    using prep res by (auto simp: actor_update_def on_store_def Let_def j)
  have "distinct (map snd (ra_peers ?a))" "(1, 7) \<in> set (ra_peers ?a)" by simp_all
  from accepted_update_broadcast [OF run this] obtain new n where
    "wd_sent w' = wd_sent w @ new" "sent_to 7 new = [Protocol (Ack CrdtLoro ''room-a'' 5 Ok)]"
    "sent_to 8 new = map Protocol (update_stream ''room-a'' [[2, 9]] n)"
    by (auto simp: seq j)
  with run show ?thesis
    by (intro exI [of _ ?a] exI [of _ w] exI [of _ a'] exI [of _ w'] exI [of _ new] exI [of _ n])
      (simp add: update_messages_def fragment_size_def)
qed

end
