(* ===== verification/Http.thy ===== *)
theory Http
  imports Store
begin

text \<open>
  The store client \<open>HttpUrsula\<close> of \<open>src/ursula.rs\<close>: a store operation as HTTP requests, with
  leader redirects, bounded retries, and the checks on what comes back. The network with the
  Ursula nodes behind it is the parameter \<open>transport\<close>, a function of a request and the state
  of the outside world. URLs are an abstract type whose operations, those of the \<open>url\<close> crate
  the client calls, are the record \<open>url_library\<close>. Sleeping between retries changes nothing
  that is represented; how long it lasts is \<open>retry_delay\<close>. A duration is its number of
  nanoseconds.
\<close>

section \<open>Configuration\<close>

record http_config =
  hc_base_url :: string
  hc_redirect_base_urls :: "string list"
  hc_max_redirects :: nat
  hc_bucket :: string
  hc_response_timeout :: nat
  hc_read_chunk_bytes :: nat
  hc_max_stream_bytes :: nat
  hc_safe_retries :: nat
  hc_retry_base_delay :: nat
  hc_retry_max_delay :: nat

definition default_http_config :: http_config where
  "default_http_config = \<lparr>hc_base_url = ''http://127.0.0.1:4437'', hc_redirect_base_urls = [],
     hc_max_redirects = 4, hc_bucket = ''qloro'', hc_response_timeout = 30 * 10 ^ 9,
     hc_read_chunk_bytes = 64 * 1024, hc_max_stream_bytes = 512 * 1024 * 1024,
     hc_safe_retries = 3, hc_retry_base_delay = 25 * 10 ^ 6, hc_retry_max_delay = 10 ^ 9\<rparr>"

definition content_type :: string where
  "content_type = ''application/vnd.quorum-loro.delta-frame.v1''"

definition header_next_offset :: string where
  "header_next_offset = ''stream-next-offset''"

definition header_up_to_date :: string where
  "header_up_to_date = ''stream-up-to-date''"

definition header_raft_leader_id :: string where
  "header_raft_leader_id = ''x-ursula-raft-leader-id''"

section \<open>The parameters\<close>

text \<open>
  \<open>ul_set_segments\<close> is \<open>path_segments_mut\<close> with \<open>clear\<close> and the pushes, \<open>None\<close> for a URL that
  cannot be a base; \<open>ul_origin\<close> is the origin in its ASCII serialization.
\<close>

record 'u url_library =
  ul_parse :: "string \<Rightarrow> string + 'u"
  ul_text :: "'u \<Rightarrow> string"
  ul_origin :: "'u \<Rightarrow> string"
  ul_scheme :: "'u \<Rightarrow> string"
  ul_host :: "'u \<Rightarrow> string option"
  ul_username :: "'u \<Rightarrow> string"
  ul_password :: "'u \<Rightarrow> string option"
  ul_path :: "'u \<Rightarrow> string"
  ul_query :: "'u \<Rightarrow> string option"
  ul_fragment :: "'u \<Rightarrow> string option"
  ul_set_segments :: "string list \<Rightarrow> 'u \<Rightarrow> 'u option"
  ul_append_pair :: "string \<Rightarrow> string \<Rightarrow> 'u \<Rightarrow> 'u"

datatype http_method = Get | Put | Post

record 'u http_request =
  rq_method :: http_method
  rq_url :: 'u
  rq_headers :: "(string \<times> string) list"
  rq_body :: bytes

text \<open>
  A response with its status, its headers, each with its value as text if it is text, and
  what reading the body gives, chunk by chunk to its end; \<open>Stalled\<close> is a body that runs into
  the timeout.
\<close>

datatype body_event = Chunk bytes | ChunkError string | Stalled

record http_response =
  rs_status :: nat
  rs_headers :: "(string \<times> string option) list"
  rs_body :: "body_event list"

datatype answer = Answered http_response | Failed string | TimedOut

type_synonym ('u, 's) transport = "'u http_request \<Rightarrow> 's \<Rightarrow> answer \<times> 's"

text \<open>
  The state of a run: the outside world and the count of the requests of the current
  operation. \<open>status_text\<close> renders a status code.
\<close>

record 's http_world =
  hw_peer :: 's
  hw_count :: u64

record ('u, 's) http_env =
  he_urls :: "'u url_library"
  he_transport :: "('u, 's) transport"
  he_status_text :: "nat \<Rightarrow> string"
  he_client_error :: "string option"

record 'u http_ursula =
  hu_config :: http_config
  hu_base_url :: 'u
  hu_allowed_origins :: "string list"

section \<open>Construction\<close>

definition parse_node_base :: "'u url_library \<Rightarrow> string \<Rightarrow> store_error + 'u" where
  "parse_node_base urls v =
     r_bind (map_err (\<lambda>e. Rejected Invalid (''invalid Ursula node URL: '' @ e)) (ul_parse urls v)) (\<lambda>url.
     if ul_scheme urls url \<notin> {''http'', ''https''} \<or> ul_host urls url = None \<or>
        ul_username urls url \<noteq> '''' \<or> ul_password urls url \<noteq> None \<or> ul_query urls url \<noteq> None \<or>
        ul_fragment urls url \<noteq> None \<or> ul_path urls url \<noteq> ''/''
     then Inl (Rejected Invalid (''Ursula node URL must be an HTTP(S) origin without credentials, '' @
            ''path, query, or fragment''))
     else Inr url)"

fun redirect_origins :: "'u url_library \<Rightarrow> string list \<Rightarrow> string list \<Rightarrow> store_error + string list" where
  "redirect_origins urls [] origins = Inr origins"
| "redirect_origins urls (v # vs) origins =
     r_bind (parse_node_base urls v) (\<lambda>url.
     redirect_origins urls vs (List.insert (ul_origin urls url) origins))"

definition http_ursula_new :: "('u, 's) http_env \<Rightarrow> http_config \<Rightarrow> store_error + 'u http_ursula" where
  "http_ursula_new env config =
     (if length (hc_bucket config) < 4
      then Inl (Rejected Invalid ''Ursula bucket names must contain at least four bytes'') else
      if hc_read_chunk_bytes config = 0 \<or> hc_max_stream_bytes config = 0
      then Inl (Rejected Invalid ''Ursula read limits must be non-zero'') else
      r_bind (parse_node_base (he_urls env) (hc_base_url config)) (\<lambda>base_url.
      r_bind (redirect_origins (he_urls env) (hc_redirect_base_urls config)
                [ul_origin (he_urls env) base_url]) (\<lambda>allowed_origins.
      case he_client_error env of
        Some e \<Rightarrow> Inl (Ambiguous e)
      | None \<Rightarrow> Inr \<lparr>hu_config = config, hu_base_url = base_url,
                  hu_allowed_origins = allowed_origins\<rparr>)))"

definition object_url :: "'u url_library \<Rightarrow> 'u http_ursula \<Rightarrow> string option \<Rightarrow> store_error + 'u" where
  "object_url urls self stream =
     ok_or (Rejected Invalid ''Ursula base URL cannot contain path segments'')
       (ul_set_segments urls (hc_bucket (hu_config self) #
          (case stream of None \<Rightarrow> [] | Some stream \<Rightarrow> [stream])) (hu_base_url self))"

definition bucket_url :: "'u url_library \<Rightarrow> 'u http_ursula \<Rightarrow> store_error + 'u" where
  "bucket_url urls self = object_url urls self None"

definition stream_url :: "'u url_library \<Rightarrow> 'u http_ursula \<Rightarrow> string \<Rightarrow> store_error + 'u" where
  "stream_url urls self stream = object_url urls self (Some stream)"

section \<open>Statuses and headers\<close>

definition is_success :: "nat \<Rightarrow> bool" where
  "is_success status \<longleftrightarrow> 200 \<le> status \<and> status < 300"

definition is_redirection :: "nat \<Rightarrow> bool" where
  "is_redirection status \<longleftrightarrow> 300 \<le> status \<and> status < 400"

definition is_server_error :: "nat \<Rightarrow> bool" where
  "is_server_error status \<longleftrightarrow> 500 \<le> status \<and> status < 600"

definition is_unknown_status :: "nat \<Rightarrow> bool" where
  "is_unknown_status status \<longleftrightarrow> is_server_error status \<or> status = 408"

definition is_retryable_status :: "nat \<Rightarrow> bool" where
  "is_retryable_status status \<longleftrightarrow> is_unknown_status status \<or> status = 429"

definition http_text :: "('u, 's) http_env \<Rightarrow> string \<Rightarrow> nat \<Rightarrow> string" where
  "http_text env operation status = operation @ '' returned HTTP '' @ he_status_text env status"

definition classify_rejection :: "('u, 's) http_env \<Rightarrow> nat \<Rightarrow> string \<Rightarrow> store_error" where
  "classify_rejection env status operation =
     Rejected
       (if is_redirection status then Unsupported
        else if status = 400 then Invalid
        else if status = 401 \<or> status = 403 then PermissionDenied
        else if status = 404 \<or> status = 410 then NotFound
        else if status = 409 \<or> status = 412 then Conflict
        else if status = 413 then PayloadTooLarge
        else if status = 429 then RateLimited
        else Other)
       (http_text env operation status)"

text \<open>\<open>str::parse::<u64>\<close>: digits with an optional plus sign, within 64 bits.\<close>

definition parse_u64 :: "string \<Rightarrow> u64 option" where
  "parse_u64 s =
     (let ds = (case s of c # cs \<Rightarrow> if c = CHR ''+'' then cs else s | [] \<Rightarrow> s)
      in if ds \<noteq> [] \<and> list_all (\<lambda>c. 48 \<le> (of_char c :: nat) \<and> of_char c \<le> (57 :: nat)) ds \<and>
           read_dec ds < 2 ^ 64
         then Some (of_nat (read_dec ds)) else None)"

definition header_text :: "http_response \<Rightarrow> string \<Rightarrow> string option" where
  "header_text response name = Option.bind (map_of (rs_headers response) name) id"

definition parse_offset :: "http_response \<Rightarrow> string \<Rightarrow> store_error + u64" where
  "parse_offset response name =
     ok_or (Integrity (''missing or invalid '' @ name @ '' header''))
       (Option.bind (header_text response name) parse_u64)"

definition ascii_lower :: "char \<Rightarrow> char" where
  "ascii_lower c =
     (if 65 \<le> (of_char c :: nat) \<and> of_char c \<le> (90 :: nat) then char_of ((of_char c :: nat) + 32) else c)"

definition up_to_date_flag :: "http_response \<Rightarrow> bool" where
  "up_to_date_flag response \<longleftrightarrow>
     (case header_text response header_up_to_date of
        None \<Rightarrow> False
      | Some v \<Rightarrow> map ascii_lower v = ''true'')"

section \<open>Requests\<close>

type_synonym ('u, 's) request_fn = "'u \<Rightarrow> 's http_world \<Rightarrow> 'u http_request \<times> 's http_world"

definition http_send ::
  "('u, 's) http_env \<Rightarrow> 'u http_request \<Rightarrow> 's http_world \<Rightarrow>
   (store_error + http_response) \<times> 's http_world" where
  "http_send env request w =
     (let (a, s) = he_transport env request (hw_peer w); w = w\<lparr>hw_peer := s\<rparr>
      in case a of
           TimedOut \<Rightarrow> (Inl (Ambiguous ''response header timeout''), w)
         | Failed e \<Rightarrow> (Inl (Ambiguous e), w)
         | Answered response \<Rightarrow> (Inr response, w))"

text \<open>
  The check of a leader redirect: the leader's identifier, the budget, the target's origin,
  credentials, path and query, and that it was not visited before.
\<close>

definition redirect_target ::
  "('u, 's) http_env \<Rightarrow> 'u http_ursula \<Rightarrow> string \<Rightarrow> string \<Rightarrow> string option \<Rightarrow> string list \<Rightarrow> nat \<Rightarrow>
   http_response \<Rightarrow> store_error + 'u" where
  "redirect_target env self operation expected_path expected_query visited redirects response =
     r_bind (ok_or (Ambiguous (operation @ '' received malformed Ursula leader ID''))
               (Option.bind (header_text response header_raft_leader_id) parse_u64)) (\<lambda>leader_id.
     if redirects \<ge> hc_max_redirects (hu_config self)
     then Inl (Ambiguous (operation @ '' exceeded '' @ show_nat (hc_max_redirects (hu_config self)) @
            '' Ursula leader redirects'')) else
     r_bind (ok_or (Ambiguous (operation @ '' received Ursula leader redirect without valid Location''))
               (header_text response ''location'')) (\<lambda>location.
     r_bind (map_err (\<lambda>e. Ambiguous (operation @ '' received malformed Ursula redirect target: '' @ e))
               (ul_parse (he_urls env) location)) (\<lambda>target.
     if ul_origin (he_urls env) target \<notin> set (hu_allowed_origins self)
     then Inl (Ambiguous (operation @ '' received Ursula redirect to an unconfigured origin'')) else
     if ul_username (he_urls env) target \<noteq> '''' \<or> ul_password (he_urls env) target \<noteq> None
     then Inl (Ambiguous (operation @ '' received Ursula redirect containing credentials'')) else
     if ul_path (he_urls env) target \<noteq> expected_path \<or> ul_query (he_urls env) target \<noteq> expected_query
     then Inl (Ambiguous (operation @ '' received Ursula redirect that changed the request target'')) else
     if ul_text (he_urls env) target \<in> set visited
     then Inl (Ambiguous (operation @ '' detected an Ursula redirect loop''))
     else Inr target)))"

text \<open>The loop over the redirects, from the number of redirects followed so far.\<close>

function redirect_loop ::
  "('u, 's) http_env \<Rightarrow> 'u http_ursula \<Rightarrow> string \<Rightarrow> ('u, 's) request_fn \<Rightarrow> string \<Rightarrow> string option \<Rightarrow>
   'u \<Rightarrow> string list \<Rightarrow> nat \<Rightarrow> 's http_world \<Rightarrow> (store_error + http_response) \<times> 's http_world" where
  "redirect_loop env self operation request expected_path expected_query current_url visited redirects w =
     (if redirects > hc_max_redirects (hu_config self)
      then (Inl (Ambiguous (operation @ '' exhausted Ursula redirect handling'')), w)
      else
        let (rq, w) = request current_url w in
        s_bind (http_send env rq w) (\<lambda>response w.
        if rs_status response \<noteq> 307 then (Inr response, w)
        else if map_of (rs_headers response) header_raft_leader_id = None then (Inr response, w)
        else
          case redirect_target env self operation expected_path expected_query visited redirects response of
            Inl e \<Rightarrow> (Inl e, w)
          | Inr target \<Rightarrow>
              redirect_loop env self operation request expected_path expected_query target
                (ul_text (he_urls env) target # visited) (redirects + 1) w))"
  by pat_completeness auto

termination
  by (relation "measure (\<lambda>(env, self, operation, request, p, q, u, v, redirects, w).
    Suc (hc_max_redirects (hu_config self)) - redirects)") auto

declare redirect_loop.simps [simp del]

definition send_following_redirects ::
  "('u, 's) http_env \<Rightarrow> 'u http_ursula \<Rightarrow> string \<Rightarrow> 'u \<Rightarrow> ('u, 's) request_fn \<Rightarrow> 's http_world \<Rightarrow>
   (store_error + http_response) \<times> 's http_world" where
  "send_following_redirects env self operation initial_url request w =
     redirect_loop env self operation request (ul_path (he_urls env) initial_url)
       (ul_query (he_urls env) initial_url) initial_url [ul_text (he_urls env) initial_url] 0 w"

text \<open>The retries of an operation that is safe to repeat.\<close>

function safe_loop ::
  "('u, 's) http_env \<Rightarrow> 'u http_ursula \<Rightarrow> string \<Rightarrow> 'u \<Rightarrow> ('u, 's) request_fn \<Rightarrow> nat \<Rightarrow>
   's http_world \<Rightarrow> (store_error + http_response) \<times> 's http_world" where
  "safe_loop env self operation initial_url request attempt w =
     (if attempt > hc_safe_retries (hu_config self)
      then (Inl (Ambiguous (operation @ '' exhausted safe retries'')), w)
      else
        case send_following_redirects env self operation initial_url request w of
          (Inr response, w) \<Rightarrow>
            if is_retryable_status (rs_status response) \<and> attempt < hc_safe_retries (hu_config self)
            then safe_loop env self operation initial_url request (attempt + 1) w
            else (Inr response, w)
        | (Inl (Ambiguous e), w) \<Rightarrow>
            if attempt < hc_safe_retries (hu_config self)
            then safe_loop env self operation initial_url request (attempt + 1) w
            else (Inl (Ambiguous e), w)
        | (Inl e, w) \<Rightarrow> (Inl e, w))"
  by pat_completeness auto

termination
  by (relation "measure (\<lambda>(env, self, operation, u, request, attempt, w).
    Suc (hc_safe_retries (hu_config self)) - attempt)") auto

declare safe_loop.simps [simp del]

definition send_safe ::
  "('u, 's) http_env \<Rightarrow> 'u http_ursula \<Rightarrow> string \<Rightarrow> 'u \<Rightarrow> ('u, 's) request_fn \<Rightarrow> 's http_world \<Rightarrow>
   (store_error + http_response) \<times> 's http_world" where
  "send_safe env self operation initial_url request w =
     safe_loop env self operation initial_url request 0 w"

text \<open>The delay before the next attempt, from a random number.\<close>

definition duration_limit :: nat where
  "duration_limit = 2 ^ 64 * 10 ^ 9"

definition retry_delay :: "nat \<Rightarrow> nat \<Rightarrow> nat \<Rightarrow> u64 \<Rightarrow> nat" where
  "retry_delay base maximum attempt random =
     (if base = 0 \<or> maximum = 0 then 0 else
      let multiplier = 2 ^ min attempt 31;
          cap = min (if base * multiplier < duration_limit then base * multiplier else maximum) maximum;
          cap_nanos = min cap (2 ^ 64 - 1);
          half = cap_nanos div 2;
          width = cap_nanos - half
      in min (half + unat random mod min (width + 1) (2 ^ 64 - 1)) (2 ^ 64 - 1))"

text \<open>The delay is between half of the exponential back-off and the whole of it, and within the maximum.\<close>

lemma retry_delay_bounds:
  fixes base maximum attempt :: nat
  assumes "0 < base" and "0 < maximum" and "maximum < 2 ^ 64"
  defines "backoff \<equiv> min (base * 2 ^ min attempt 31) maximum"
  shows "backoff div 2 \<le> retry_delay base maximum attempt random \<and> retry_delay base maximum attempt random \<le> backoff"
proof -
  have "2 ^ 64 \<le> duration_limit" by (simp add: duration_limit_def)
  then have cap: "min (if base * 2 ^ min attempt 31 < duration_limit then base * 2 ^ min attempt 31 else maximum) maximum = backoff"
    using assms(3) by (auto simp: backoff_def)
  have le: "backoff \<le> 2 ^ 64 - 1" using assms(3) by (simp add: backoff_def)
  then have nanos: "min backoff (2 ^ 64 - 1) = backoff" by simp
  have width: "min (backoff - backoff div 2 + 1) (2 ^ 64 - 1) = backoff - backoff div 2 + 1"
    using le by simp
  have "unat random mod (backoff - backoff div 2 + 1) \<le> backoff - backoff div 2"
    using mod_less_divisor [of "backoff - backoff div 2 + 1" "unat random"] by linarith
  then have sum: "backoff div 2 + unat random mod (backoff - backoff div 2 + 1) \<le> backoff"
    using div_le_dividend [of backoff 2] by linarith
  have whole: "min (backoff div 2 + unat random mod (backoff - backoff div 2 + 1)) (2 ^ 64 - 1) =
      backoff div 2 + unat random mod (backoff - backoff div 2 + 1)"
    by (rule min_absorb1) (rule order_trans [OF sum le])
  have "retry_delay base maximum attempt random = backoff div 2 + unat random mod (backoff - backoff div 2 + 1)"
    using assms(1,2) unfolding retry_delay_def Let_def cap nanos width whole by simp
  with sum show ?thesis by simp
qed

section \<open>Reading\<close>

text \<open>The body up to its end, within \<open>max_bytes\<close>.\<close>

fun read_chunks :: "nat \<Rightarrow> bytes \<Rightarrow> body_event list \<Rightarrow> store_error + bytes" where
  "read_chunks max_bytes output [] = Inr output"
| "read_chunks max_bytes output (Stalled # es) = Inl (Ambiguous ''response body timeout'')"
| "read_chunks max_bytes output (ChunkError e # es) = Inl (Ambiguous e)"
| "read_chunks max_bytes output (Chunk chunk # es) =
     r_bind (ok_or (Integrity ''response body length overflow'')
               (checked_add (length output) (length chunk))) (\<lambda>next_len.
     if next_len > max_bytes
     then Inl (Integrity (''response body exceeds requested maximum of '' @ show_nat max_bytes @ '' bytes''))
     else read_chunks max_bytes (output @ chunk) es)"

definition read_body_bounded :: "http_response \<Rightarrow> nat \<Rightarrow> store_error + bytes" where
  "read_body_bounded response max_bytes = read_chunks max_bytes [] (rs_body response)"

definition window_url :: "'u url_library \<Rightarrow> 'u http_ursula \<Rightarrow> string \<Rightarrow> u64 \<Rightarrow> nat \<Rightarrow> store_error + 'u" where
  "window_url urls self stream offset max_bytes =
     r_bind (stream_url urls self stream) (\<lambda>url.
     Inr (ul_append_pair urls ''max_bytes'' (show_nat max_bytes)
            (ul_append_pair urls ''offset'' (show_u64 offset) url)))"

definition get_request :: "('u, 's) request_fn" where
  "get_request target w =
     (\<lparr>rq_method = Get, rq_url = target, rq_headers = [], rq_body = []\<rparr>, w\<lparr>hw_count := hw_count w + 1\<rparr>)"

text \<open>The checks of a response to the read of a window.\<close>

definition window_of ::
  "('u, 's) http_env \<Rightarrow> u64 \<Rightarrow> nat \<Rightarrow> http_response \<Rightarrow> store_error + (bytes \<times> u64 \<times> bool)" where
  "window_of env offset max_bytes response =
     (if rs_status response \<noteq> 200
      then if is_unknown_status (rs_status response)
           then Inl (Ambiguous (http_text env ''read stream'' (rs_status response)))
           else Inl (classify_rejection env (rs_status response) ''read stream'')
      else
        r_bind (parse_offset response header_next_offset) (\<lambda>next_offset.
        r_bind (read_body_bounded response max_bytes) (\<lambda>body.
        r_bind (ok_or (Integrity ''response body length does not fit u64'')
                  (u64_of_usize (length body))) (\<lambda>body_len.
        r_bind (ok_or (Integrity ''read offset overflow'') (u64_checked_add offset body_len)) (\<lambda>expected_next.
        if next_offset \<noteq> expected_next
        then Inl (Integrity (''read offset mismatch: requested '' @ show_u64 offset @ '', received '' @
               show_nat (length body) @ '' bytes, next offset '' @ show_u64 next_offset))
        else Inr (body, next_offset, up_to_date_flag response))))))"

definition read_exact_window_once ::
  "('u, 's) http_env \<Rightarrow> 'u http_ursula \<Rightarrow> string \<Rightarrow> u64 \<Rightarrow> nat \<Rightarrow> 's http_world \<Rightarrow>
   (store_error + (bytes \<times> u64 \<times> bool)) \<times> 's http_world" where
  "read_exact_window_once env self stream offset max_bytes w =
     (case window_url (he_urls env) self stream offset max_bytes of
        Inl e \<Rightarrow> (Inl e, w)
      | Inr url \<Rightarrow>
          s_bind (send_following_redirects env self ''read stream'' url get_request w) (\<lambda>response w.
          (window_of env offset max_bytes response, w)))"

fun retryable_read_error :: "store_error \<Rightarrow> bool" where
  "retryable_read_error (Ambiguous e) = True"
| "retryable_read_error (Rejected kind e) = (kind = RateLimited)"
| "retryable_read_error (Integrity e) = False"

function window_loop ::
  "('u, 's) http_env \<Rightarrow> 'u http_ursula \<Rightarrow> string \<Rightarrow> u64 \<Rightarrow> nat \<Rightarrow> nat \<Rightarrow> 's http_world \<Rightarrow>
   (store_error + (bytes \<times> u64 \<times> bool)) \<times> 's http_world" where
  "window_loop env self stream offset max_bytes attempt w =
     (if attempt > hc_safe_retries (hu_config self)
      then (Inl (Ambiguous ''read stream exhausted safe retries''), w)
      else
        case read_exact_window_once env self stream offset max_bytes w of
          (Inl e, w) \<Rightarrow>
            if retryable_read_error e \<and> attempt < hc_safe_retries (hu_config self)
            then window_loop env self stream offset max_bytes (attempt + 1) w
            else (Inl e, w)
        | (Inr window, w) \<Rightarrow> (Inr window, w))"
  by pat_completeness auto

termination
  by (relation "measure (\<lambda>(env, self, stream, offset, max_bytes, attempt, w).
    Suc (hc_safe_retries (hu_config self)) - attempt)") auto

declare window_loop.simps [simp del]

definition read_exact_window ::
  "('u, 's) http_env \<Rightarrow> 'u http_ursula \<Rightarrow> string \<Rightarrow> u64 \<Rightarrow> nat \<Rightarrow> 's http_world \<Rightarrow>
   (store_error + (bytes \<times> u64 \<times> bool)) \<times> 's http_world" where
  "read_exact_window env self stream offset max_bytes w =
     window_loop env self stream offset max_bytes 0 w"

text \<open>A window is what its offsets say, and no longer than asked for.\<close>

lemma read_chunks_length: "read_chunks n acc es = Inr bs \<Longrightarrow> length acc \<le> n \<Longrightarrow> length bs \<le> n"
  by (induction n acc es rule: read_chunks.induct) (auto simp: r_bind_Inr_iff split: if_splits)

lemma window_of_Inr:
  assumes "window_of env offset max_bytes response = Inr (body, next_offset, up_to_date)"
  shows "rs_status response = 200" and "read_body_bounded response max_bytes = Inr body"
    and "unat next_offset = unat offset + length body" and "length body \<le> max_bytes"
  using assms read_chunks_length [of max_bytes "[]" "rs_body response" body]
  by (auto simp: window_of_def r_bind_Inr_iff read_body_bounded_def u64_of_usize_Some_iff unat_of_nat
      dest!: u64_checked_add_unat split: if_splits)

lemma window_loop_Inr:
  assumes "window_loop env self stream offset max_bytes attempt w = (Inr window, w')"
  shows "\<exists>w0. read_exact_window_once env self stream offset max_bytes w0 = (Inr window, w')"
  using assms
proof (induction env self stream offset max_bytes attempt w rule: window_loop.induct)
  case (1 env self stream offset max_bytes attempt w)
  from "1.prems" show ?case
    by (subst (asm) window_loop.simps)
      (auto split: if_splits prod.splits sum.splits intro: "1.IH")
qed

lemma read_exact_window_Inr:
  assumes "read_exact_window env self stream offset max_bytes w = (Inr (body, next_offset, up_to_date), w')"
  shows "unat next_offset = unat offset + length body" and "length body \<le> max_bytes"
proof -
  obtain w0 where "read_exact_window_once env self stream offset max_bytes w0 =
      (Inr (body, next_offset, up_to_date), w')"
    using assms window_loop_Inr unfolding read_exact_window_def by blast
  then obtain response where "window_of env offset max_bytes response = Inr (body, next_offset, up_to_date)"
    by (auto simp: read_exact_window_once_def elim!: s_bind_InrE split: sum.splits)
  then show "unat next_offset = unat offset + length body" and "length body \<le> max_bytes"
    by (rule window_of_Inr)+
qed

end
