(* ===== verification/Http_Store.thy ===== *)
theory Http_Store
  imports Http
begin

text \<open>
  The operations of \<open>impl UrsulaStore for HttpUrsula\<close> in \<open>src/ursula.rs\<close>, and the store they
  make. Both reading loops end: a window that makes no progress is an error, and what has been
  read is bounded. Over a network whose answers tell the truth about streams that only grow,
  the client meets the contract \<open>append_only_store\<close> of the rest of the gateway.
\<close>

section \<open>Operations\<close>

definition put_request :: "(string \<times> string) list \<Rightarrow> ('u, 's) request_fn" where
  "put_request headers target w =
     (\<lparr>rq_method = Put, rq_url = target, rq_headers = headers, rq_body = []\<rparr>, w)"

definition append_request :: "producer_tuple \<Rightarrow> bytes \<Rightarrow> ('u, 's) request_fn" where
  "append_request producer body target w =
     (\<lparr>rq_method = Post, rq_url = target, rq_headers =
         [(''content-type'', content_type), (''producer-id'', pt_id producer),
          (''producer-epoch'', show_u64 (pt_epoch producer)),
          (''producer-seq'', show_u64 (pt_sequence producer))], rq_body = body\<rparr>, w)"

definition http_ensure_stream ::
  "('u, 's) http_env \<Rightarrow> 'u http_ursula \<Rightarrow> string \<Rightarrow> 's http_world \<Rightarrow>
   (store_error + unit) \<times> 's http_world" where
  "http_ensure_stream env self stream w =
     (case bucket_url (he_urls env) self of
        Inl e \<Rightarrow> (Inl e, w)
      | Inr bucket \<Rightarrow>
          s_bind (send_safe env self ''create bucket'' bucket (put_request []) w) (\<lambda>response w.
          if \<not> is_success (rs_status response)
          then if is_unknown_status (rs_status response)
               then (Inl (Ambiguous (http_text env ''create bucket'' (rs_status response))), w)
               else (Inl (classify_rejection env (rs_status response) ''create bucket''), w)
          else
            case stream_url (he_urls env) self stream of
              Inl e \<Rightarrow> (Inl e, w)
            | Inr url \<Rightarrow>
                s_bind (send_safe env self ''create stream'' url
                          (put_request [(''content-type'', content_type)]) w) (\<lambda>response w.
                if rs_status response = 201 \<or> rs_status response = 200 then (Inr (), w)
                else if is_unknown_status (rs_status response)
                then (Inl (Ambiguous (http_text env ''create stream'' (rs_status response))), w)
                else (Inl (classify_rejection env (rs_status response) ''create stream''), w))))"

lemma window_progress:
  assumes "read_exact_window env self stream offset n w = (Inr (body, next_offset, up_to_date), w')"
    and "next_offset \<noteq> offset"
  shows "\<exists>b bs. body = b # bs"
  using read_exact_window_Inr(1) [OF assms(1)] assms(2) by (cases body) (auto simp: word_unat_eq_iff)

function read_all_loop ::
  "('u, 's) http_env \<Rightarrow> 'u http_ursula \<Rightarrow> string \<Rightarrow> u64 \<Rightarrow> bytes \<Rightarrow> 's http_world \<Rightarrow>
   (store_error + bytes) \<times> 's http_world" where
  "read_all_loop env self stream offset output w =
     s_bind (read_exact_window env self stream offset (hc_read_chunk_bytes (hu_config self)) w)
       (\<lambda>(body, next_offset, up_to_date) w.
     if next_offset < offset \<or> next_offset = offset \<and> \<not> up_to_date
     then (Inl (Integrity ''read made no offset progress''), w) else
     case checked_add (length output) (length body) of
       None \<Rightarrow> (Inl (Integrity ''stream length overflow''), w)
     | Some next_len \<Rightarrow>
         if next_len > hc_max_stream_bytes (hu_config self)
         then (Inl (Integrity (''stream exceeds configured limit of '' @
                show_nat (hc_max_stream_bytes (hu_config self)) @ '' bytes'')), w)
         else if up_to_date then (Inr (output @ body), w)
         else read_all_loop env self stream next_offset (output @ body) w)"
  by pat_completeness auto

termination
  by (relation "measure (\<lambda>(env, self, stream, offset, output, w).
    hc_max_stream_bytes (hu_config self) - length output)") (auto dest!: window_progress)

declare read_all_loop.simps [simp del]

definition http_read_all_observed ::
  "('u, 's) http_env \<Rightarrow> 'u http_ursula \<Rightarrow> string \<Rightarrow> 's http_world \<Rightarrow>
   (store_error + read_all_observation) \<times> 's http_world" where
  "http_read_all_observed env self stream w =
     s_bind (read_all_loop env self stream 0 [] (w\<lparr>hw_count := 0\<rparr>)) (\<lambda>output w.
     (Inr \<lparr>ro_bytes = output, ro_request_count = hw_count w\<rparr>, w))"

definition http_read_all ::
  "('u, 's) http_env \<Rightarrow> 'u http_ursula \<Rightarrow> string \<Rightarrow> 's http_world \<Rightarrow>
   (store_error + bytes) \<times> 's http_world" where
  "http_read_all env self stream w =
     s_bind (http_read_all_observed env self stream w) (\<lambda>observation w. (Inr (ro_bytes observation), w))"

function read_range_loop ::
  "('u, 's) http_env \<Rightarrow> 'u http_ursula \<Rightarrow> string \<Rightarrow> nat \<Rightarrow> u64 \<Rightarrow> bytes \<Rightarrow> 's http_world \<Rightarrow>
   (store_error + bytes) \<times> 's http_world" where
  "read_range_loop env self stream len next_offset output w =
     (if length output < len
      then
        s_bind (read_exact_window env self stream next_offset (len - length output) w)
          (\<lambda>(body, returned_next, _) w.
        if returned_next \<le> next_offset \<or> body = []
        then (Inl (Integrity ''committed range ended before expected frame length''), w)
        else read_range_loop env self stream len returned_next (output @ body) w)
      else (Inr output, w))"
  by pat_completeness auto

termination
  by (relation "measure (\<lambda>(env, self, stream, len, next_offset, output, w). len - length output)") (auto simp: neq_Nil_conv)

declare read_range_loop.simps [simp del]

definition http_read_range ::
  "('u, 's) http_env \<Rightarrow> 'u http_ursula \<Rightarrow> string \<Rightarrow> u64 \<Rightarrow> nat \<Rightarrow> 's http_world \<Rightarrow>
   (store_error + bytes) \<times> 's http_world" where
  "http_read_range env self stream offset len w =
     (if len = 0 then (Inr [], w) else
      s_bind (read_range_loop env self stream len offset [] (w\<lparr>hw_count := 0\<rparr>)) (\<lambda>output w.
      if length output \<noteq> len
      then (Inl (Integrity ''committed range exceeded expected frame length''), w)
      else (Inr output, w)))"

definition append_result ::
  "('u, 's) http_env \<Rightarrow> http_response \<Rightarrow> store_error + append_outcome" where
  "append_result env response =
     (let status = rs_status response in
      if status = 200 \<or> status = 204
      then r_bind (parse_offset response header_next_offset) (\<lambda>next_offset.
           Inr (if status = 200 then Committed next_offset else Duplicate next_offset))
      else if is_server_error status \<or> status = 408
      then Inl (Ambiguous (http_text env ''append'' status))
      else Inl (classify_rejection env status ''append''))"

definition http_append ::
  "('u, 's) http_env \<Rightarrow> 'u http_ursula \<Rightarrow> string \<Rightarrow> producer_tuple \<Rightarrow> bytes \<Rightarrow> 's http_world \<Rightarrow>
   (store_error + append_outcome) \<times> 's http_world" where
  "http_append env self stream producer body w =
     (case stream_url (he_urls env) self stream of
        Inl e \<Rightarrow> (Inl e, w)
      | Inr url \<Rightarrow>
          s_bind (send_following_redirects env self ''append'' url (append_request producer body) w)
            (\<lambda>response w. (append_result env response, w)))"

text \<open>The client as a store on the state of the outside world.\<close>

definition on_peer :: "('s http_world \<Rightarrow> 'a \<times> 's http_world) \<Rightarrow> 's \<Rightarrow> 'a \<times> 's" where
  "on_peer f s = (let (x, w) = f \<lparr>hw_peer = s, hw_count = 0\<rparr> in (x, hw_peer w))"

definition http_store :: "('u, 's) http_env \<Rightarrow> 'u http_ursula \<Rightarrow> 's ursula_store" where
  "http_store env self = \<lparr>
     us_ensure_stream = (\<lambda>stream. on_peer (http_ensure_stream env self stream)),
     us_read_all = (\<lambda>stream. on_peer (http_read_all env self stream)),
     us_read_all_observed = (\<lambda>stream. on_peer (http_read_all_observed env self stream)),
     us_read_range = (\<lambda>stream offset len. on_peer (http_read_range env self stream offset len)),
     us_append = (\<lambda>stream producer body. on_peer (http_append env self stream producer body))\<rparr>"

section \<open>What the requests of an operation reach\<close>

text \<open>
  A request function that always makes the request \<open>rq u\<close> for the URL \<open>u\<close> and leaves the
  outside world alone.
\<close>

definition requests :: "('u, 's) request_fn \<Rightarrow> ('u \<Rightarrow> 'u http_request) \<Rightarrow> bool" where
  "requests request rq \<longleftrightarrow>
     (\<forall>u w. fst (request u w) = rq u \<and> hw_peer (snd (request u w)) = hw_peer w)"

lemma requestsD: "requests request rq \<Longrightarrow> request u w = (r, w') \<Longrightarrow> r = rq u \<and> hw_peer w' = hw_peer w"
  unfolding requests_def by (metis fst_conv snd_conv)

lemma requests_get: "requests get_request (\<lambda>u. \<lparr>rq_method = Get, rq_url = u, rq_headers = [], rq_body = []\<rparr>)"
  by (simp add: requests_def get_request_def)

lemma requests_put:
  "requests (put_request hs) (\<lambda>u. \<lparr>rq_method = Put, rq_url = u, rq_headers = hs, rq_body = []\<rparr>)"
  by (simp add: requests_def put_request_def)

lemma requests_append:
  "requests (append_request p body) (\<lambda>u. \<lparr>rq_method = Post, rq_url = u, rq_headers =
     [(''content-type'', content_type), (''producer-id'', pt_id p),
      (''producer-epoch'', show_u64 (pt_epoch p)), (''producer-seq'', show_u64 (pt_sequence p))], rq_body = body\<rparr>)"
  by (simp add: requests_def append_request_def)

text \<open>
  An invariant \<open>I\<close> of the outside world that every answer keeps is kept by the redirect loop,
  and the response it returns answered a request for the same path and query.
\<close>

definition keeps :: "('u, 's) http_env \<Rightarrow> ('s \<Rightarrow> bool) \<Rightarrow> bool" where
  "keeps env I \<longleftrightarrow> (\<forall>rq s. I s \<longrightarrow> I (snd (he_transport env rq s)))"

definition answered ::
  "('u, 's) http_env \<Rightarrow> ('s \<Rightarrow> bool) \<Rightarrow> ('u \<Rightarrow> 'u http_request) \<Rightarrow> 'u \<Rightarrow> http_response \<Rightarrow> 's \<Rightarrow> bool" where
  "answered env I rq u response s' \<longleftrightarrow>
     (\<exists>t s. ul_path (he_urls env) t = ul_path (he_urls env) u \<and>
       ul_query (he_urls env) t = ul_query (he_urls env) u \<and> I s \<and>
       he_transport env (rq t) s = (Answered response, s'))"

lemma http_send_eq:
  assumes "http_send env rq w = (r, w')"
  shows "\<exists>a. he_transport env rq (hw_peer w) = (a, hw_peer w') \<and> (\<forall>x. r = Inr x \<longrightarrow> a = Answered x)"
  using assms by (auto simp: http_send_def Let_def split: prod.splits answer.splits)

lemma redirect_target_Inr:
  assumes "redirect_target env self operation p q visited n response = Inr t"
  shows "ul_path (he_urls env) t = p" and "ul_query (he_urls env) t = q"
    and "ul_origin (he_urls env) t \<in> set (hu_allowed_origins self)"
    and "ul_username (he_urls env) t = []" and "ul_password (he_urls env) t = None"
    and "ul_text (he_urls env) t \<notin> set visited" and "n < hc_max_redirects (hu_config self)"
  using assms by (auto simp: redirect_target_def r_bind_Inr_iff split: if_splits)

lemma redirect_loop_keeps:
  assumes "requests request rq" and "keeps env I"
  shows "redirect_loop env self operation request (ul_path (he_urls env) u) (ul_query (he_urls env) u)
      current visited n w = (r, w') \<Longrightarrow> I (hw_peer w) \<Longrightarrow>
    ul_path (he_urls env) current = ul_path (he_urls env) u \<Longrightarrow>
    ul_query (he_urls env) current = ul_query (he_urls env) u \<Longrightarrow>
    I (hw_peer w') \<and> (\<forall>response. r = Inr response \<longrightarrow> answered env I rq u response (hw_peer w'))"
proof (induction "Suc (hc_max_redirects (hu_config self)) - n" arbitrary: current visited n w rule: less_induct)
  case less
  obtain q w1 where rq: "request current w = (q, w1)" by fastforce
  then have q: "q = rq current" "hw_peer w1 = hw_peer w"
    using requestsD [OF assms(1)] by auto
  obtain x w2 where sent: "http_send env q w1 = (x, w2)" by fastforce
  from http_send_eq [OF this] obtain a where a: "he_transport env (rq current) (hw_peer w) = (a, hw_peer w2)"
    "\<And>response. x = Inr response \<Longrightarrow> a = Answered response" by (auto simp: q)
  then have I: "I (hw_peer w2)"
    using assms(2) less.prems(2) by (metis keeps_def snd_conv)
  have ans: "answered env I rq u response (hw_peer w2)" if "x = Inr response" for response
    using a that less.prems(2-4) by (auto simp: answered_def)
  note step = less.prems(1) [unfolded redirect_loop.simps [of _ _ _ _ _ _ current] Let_def rq prod.case sent]
  show ?case
  proof (cases "n > hc_max_redirects (hu_config self)")
    case True
    with step less.prems(2) show ?thesis by auto
  next
    case False
    show ?thesis
    proof (cases x)
      case (Inl e)
      with step False I show ?thesis by auto
    next
      case (Inr response)
      show ?thesis
      proof (cases "rs_status response = 307 \<and> map_of (rs_headers response) header_raft_leader_id \<noteq> None")
        case no: False
        with step False Inr I ans [OF Inr] show ?thesis by (auto split: if_splits)
      next
        case redirected: True
        show ?thesis
        proof (cases "redirect_target env self operation (ul_path (he_urls env) u) (ul_query (he_urls env) u) visited n response")
          case (Inl e)
          with step False Inr redirected I show ?thesis by auto
        next
          case t: (Inr t)
          with step False Inr redirected have "redirect_loop env self operation request (ul_path (he_urls env) u)
              (ul_query (he_urls env) u) t (ul_text (he_urls env) t # visited) (n + 1) w2 = (r, w')" by auto
          from less.hyps [OF _ this I redirect_target_Inr(1,2) [OF t]] False show ?thesis by auto
        qed
      qed
    qed
  qed
qed

lemma send_following_redirects_keeps:
  assumes "requests request rq" and "keeps env I" and "I (hw_peer w)"
    and "send_following_redirects env self operation u request w = (r, w')"
  shows "I (hw_peer w')" and "r = Inr response \<Longrightarrow> answered env I rq u response (hw_peer w')"
  using redirect_loop_keeps [OF assms(1,2) assms(4) [unfolded send_following_redirects_def] assms(3)] by auto

lemma safe_loop_keeps:
  assumes rq: "requests request rq" and keeps: "keeps env I"
  shows "safe_loop env self operation u request n w = (r, w') \<Longrightarrow> I (hw_peer w) \<Longrightarrow> I (hw_peer w')"
proof (induction "Suc (hc_safe_retries (hu_config self)) - n" arbitrary: n w rule: less_induct)
  case less
  obtain x w1 where sent: "send_following_redirects env self operation u request w = (x, w1)" by fastforce
  have I: "I (hw_peer w1)"
    by (rule send_following_redirects_keeps(1) [OF rq keeps less.prems(2) sent])
  show ?case
  proof (cases "n < hc_safe_retries (hu_config self) \<and>
      safe_loop env self operation u request (n + 1) w1 = (r, w')")
    case True
    then show ?thesis using less.hyps [OF _ _ I, of "n + 1"] by auto
  next
    case False
    then show ?thesis
      using less.prems I
      by (subst (asm) safe_loop.simps) (auto simp: sent split: if_splits sum.splits store_error.splits)
  qed
qed

lemma send_safe_keeps:
  assumes "requests request rq" and "keeps env I" and "I (hw_peer w)"
    and "send_safe env self operation u request w = (r, w')"
  shows "I (hw_peer w')"
  using safe_loop_keeps [OF assms(1,2) assms(4) [unfolded send_safe_def] assms(3)] .

lemma http_ensure_stream_keeps:
  assumes "keeps env I" and "I (hw_peer w)"
  shows "I (hw_peer (snd (http_ensure_stream env self stream w)))"
proof -
  have safe: "I (hw_peer (snd (send_safe env self operation u (put_request hs) w)))" if "I (hw_peer w)"
    for operation u hs w
    using send_safe_keeps [OF requests_put assms(1) that] by (metis prod.collapse)
  have second: "I (hw_peer (snd (s_bind (send_safe env self operation u (put_request hs) w) (\<lambda>response w. (g response, w)))))"
    if "I (hw_peer w)" for operation u hs w and g :: "http_response \<Rightarrow> store_error + unit"
    by (rule s_bind_keeps [where P = "\<lambda>w. I (hw_peer w)"]) (use safe [OF that] in simp_all)
  have tuple: "(if P then (x, w) else (y, w)) = (if P then x else y, w)" for P x y and w :: "'a http_world"
    by simp
  show ?thesis
    unfolding http_ensure_stream_def tuple
    by (auto split: sum.splits simp: assms(2) intro!: s_bind_keeps [where P = "\<lambda>w. I (hw_peer w)"] second safe)
qed

section \<open>The contract\<close>

text \<open>
  What the client relies on the Ursula nodes for, whichever of them answers: streams only
  grow; the body of a window of a stream is found in the stream at the offset of the window;
  and an append answered by a 200 with an offset has stored its body up to that offset.
\<close>

definition same_target :: "'u url_library \<Rightarrow> 'u \<Rightarrow> 'u \<Rightarrow> bool" where
  "same_target urls t u \<longleftrightarrow> ul_path urls t = ul_path urls u \<and> ul_query urls t = ul_query urls u"

definition honest_nodes ::
  "('u, 's) http_env \<Rightarrow> 'u http_ursula \<Rightarrow> ('s \<Rightarrow> string \<Rightarrow> bytes) \<Rightarrow> ('s \<Rightarrow> bool) \<Rightarrow> bool" where
  "honest_nodes env self content valid \<longleftrightarrow>
     (\<forall>rq s a s'. valid s \<longrightarrow> he_transport env rq s = (a, s') \<longrightarrow>
        valid s' \<and> (\<forall>m. prefix (content s m) (content s' m)) \<and>
        (\<forall>response. a = Answered response \<longrightarrow> rs_status response = 200 \<longrightarrow>
          (\<forall>stream offset len u body. rq_method rq = Get \<longrightarrow>
             window_url (he_urls env) self stream offset len = Inr u \<longrightarrow>
             same_target (he_urls env) (rq_url rq) u \<longrightarrow> read_body_bounded response len = Inr body \<longrightarrow>
             prefix body (drop (unat offset) (content s' stream))) \<and>
          (\<forall>stream u k. rq_method rq = Post \<longrightarrow> rq_body rq \<noteq> [] \<longrightarrow>
             stream_url (he_urls env) self stream = Inr u \<longrightarrow>
             same_target (he_urls env) (rq_url rq) u \<longrightarrow>
             parse_offset response header_next_offset = Inr k \<longrightarrow>
             stored_at (content s' stream) k (rq_body rq))))"

lemma honest_keeps: "honest_nodes env self content valid \<Longrightarrow> keeps env (grows content valid first)"
  unfolding honest_nodes_def keeps_def grows_def by (metis prefix_order.trans prod.collapse)

lemma window_keeps:
  assumes honest: "honest_nodes env self content valid" and grows: "grows content valid first (hw_peer w)"
    and run: "read_exact_window_once env self stream offset len w = (r, w')"
  shows "grows content valid first (hw_peer w')"
    and "r = Inr (body, next_offset, up) \<Longrightarrow> prefix body (drop (unat offset) (content (hw_peer w') stream))"
proof -
  let ?I = "grows content valid first"
  note keeps = honest_keeps [OF honest, of first]
  show "?I (hw_peer w')"
    using run grows send_following_redirects_keeps(1) [OF requests_get keeps grows]
    by (fastforce simp: read_exact_window_once_def elim!: s_bindE split: sum.splits)
  show "prefix body (drop (unat offset) (content (hw_peer w') stream))" if "r = Inr (body, next_offset, up)"
  proof -
    from run that obtain u response where u: "window_url (he_urls env) self stream offset len = Inr u"
      and sent: "send_following_redirects env self ''read stream'' u get_request w = (Inr response, w')"
      and win: "window_of env offset len response = Inr (body, next_offset, up)"
      by (auto simp: read_exact_window_once_def elim!: s_bind_InrE split: sum.splits)
    from send_following_redirects_keeps(2) [OF requests_get keeps grows sent refl]
    obtain t s where "same_target (he_urls env) t u" and "valid s"
      and "he_transport env \<lparr>rq_method = Get, rq_url = t, rq_headers = [], rq_body = []\<rparr> s = (Answered response, hw_peer w')"
      by (auto simp: answered_def same_target_def grows_def)
    with honest u window_of_Inr(1,2) [OF win] show ?thesis
      unfolding honest_nodes_def by fastforce
  qed
qed

lemma window_loop_keeps:
  assumes honest: "honest_nodes env self content valid"
  shows "window_loop env self stream offset len n w = (r, w') \<Longrightarrow> grows content valid first (hw_peer w) \<Longrightarrow>
    grows content valid first (hw_peer w') \<and> (\<forall>body next_offset up. r = Inr (body, next_offset, up) \<longrightarrow>
      prefix body (drop (unat offset) (content (hw_peer w') stream)))"
proof (induction "Suc (hc_safe_retries (hu_config self)) - n" arbitrary: n w rule: less_induct)
  case less
  obtain x w1 where once: "read_exact_window_once env self stream offset len w = (x, w1)" by fastforce
  note win = window_keeps [OF honest less.prems(2) once]
  show ?case
  proof (cases "n < hc_safe_retries (hu_config self) \<and> window_loop env self stream offset len (n + 1) w1 = (r, w')")
    case True
    then show ?thesis using less.hyps [OF _ _ win(1), of "n + 1"] by auto
  next
    case False
    then have "r = x \<and> w' = w1 \<or> (\<exists>e. r = Inl e) \<and> w' = w"
      using less.prems(1)
      by (subst (asm) window_loop.simps) (auto simp: once split: if_splits sum.splits)
    with win less.prems(2) show ?thesis by auto
  qed
qed

lemma read_exact_window_keeps:
  assumes "honest_nodes env self content valid" and "grows content valid first (hw_peer w)"
    and "read_exact_window env self stream offset len w = (r, w')"
  shows "grows content valid first (hw_peer w')"
    and "r = Inr (body, next_offset, up) \<Longrightarrow> prefix body (drop (unat offset) (content (hw_peer w') stream))"
  using window_loop_keeps [OF assms(1) assms(3) [unfolded read_exact_window_def] assms(2)] by auto

text \<open>A body found behind a prefix that was read before extends that prefix.\<close>

lemma prefix_extend:
  assumes "prefix acc (drop start c)" and "prefix c c'" and "prefix body (drop (start + length acc) c')"
  shows "prefix (acc @ body) (drop start c')"
proof -
  have "prefix acc (drop start c')"
  proof (cases "acc = []")
    case False
    with assms(1) have "start \<le> length c" by (cases "start \<le> length c") auto
    with assms(1,2) show ?thesis by (auto simp: prefix_def)
  qed simp
  then obtain r where r: "drop start c' = acc @ r" by (auto simp: prefix_def)
  have "drop (start + length acc) c' = r"
    using arg_cong [OF r, of "drop (length acc)"] by (simp add: add.commute)
  with assms(3) r show ?thesis by auto
qed

text \<open>The reading loops return a part of the stream from the offset they start at.\<close>

lemma read_all_loop_keeps:
  assumes honest: "honest_nodes env self content valid"
  shows "read_all_loop env self stream offset acc w = (r, w') \<Longrightarrow> grows content valid first (hw_peer w) \<Longrightarrow>
    unat offset = length acc \<Longrightarrow> prefix acc (content (hw_peer w) stream) \<Longrightarrow>
    grows content valid first (hw_peer w') \<and> (\<forall>bs. r = Inr bs \<longrightarrow> prefix bs (content (hw_peer w') stream))"
proof (induction "hc_max_stream_bytes (hu_config self) - length acc" arbitrary: offset acc w rule: less_induct)
  case less
  obtain x w1 where win: "read_exact_window env self stream offset (hc_read_chunk_bytes (hu_config self)) w = (x, w1)"
    by fastforce
  note run = less.prems(1) [unfolded read_all_loop.simps [of env self stream offset acc w] win]
  have g: "grows content valid first (hw_peer w1)"
    by (rule read_exact_window_keeps(1) [OF honest less.prems(2) win])
  have "grows content valid (hw_peer w) (hw_peer w)"
    using less.prems(2) by (auto intro: grows_refl grows_inv)
  note step = read_exact_window_keeps [OF honest this win]
  show ?case
  proof (cases x)
    case (Inl e)
    with run g show ?thesis by auto
  next
    case (Inr y)
    then obtain body next_offset up where x: "x = Inr (body, next_offset, up)" by (cases y) auto
    have off: "unat next_offset = unat offset + length body"
      using win unfolding x by (rule read_exact_window_Inr(1))
    have ext: "prefix (acc @ body) (content (hw_peer w1) stream)"
      using prefix_extend [of acc 0 "content (hw_peer w) stream" "content (hw_peer w1) stream" body]
        step(2) [OF x] grows_prefix [OF step(1)] less.prems(3,4) by simp
    show ?thesis
    proof (cases "read_all_loop env self stream next_offset (acc @ body) w1 = (r, w') \<and> next_offset \<noteq> offset \<and>
        length acc + length body \<le> hc_max_stream_bytes (hu_config self)")
      case True
      then have again: "read_all_loop env self stream next_offset (acc @ body) w1 = (r, w')" by simp
      from window_progress [OF win [unfolded x]] True
      have shorter: "hc_max_stream_bytes (hu_config self) - length (acc @ body) <
          hc_max_stream_bytes (hu_config self) - length acc" by auto
      have at: "unat next_offset = length (acc @ body)" using off less.prems(3) by simp
      show ?thesis
        by (rule less.hyps [OF shorter again g at ext])
    next
      case False
      then have "w' = w1 \<and> ((\<exists>e. r = Inl e) \<or> r = Inr (acc @ body))"
        using run by (auto simp: x split: if_splits option.splits)
      with g ext show ?thesis by auto
    qed
  qed
qed

lemma read_range_loop_keeps:
  assumes honest: "honest_nodes env self content valid"
  shows "read_range_loop env self stream len next_offset acc w = (r, w') \<Longrightarrow> grows content valid first (hw_peer w) \<Longrightarrow>
    unat next_offset = start + length acc \<Longrightarrow> prefix acc (drop start (content (hw_peer w) stream)) \<Longrightarrow>
    length acc \<le> len \<Longrightarrow>
    grows content valid first (hw_peer w') \<and>
    (\<forall>bs. r = Inr bs \<longrightarrow> length bs = len \<and> prefix bs (drop start (content (hw_peer w') stream)))"
proof (induction "len - length acc" arbitrary: next_offset acc w rule: less_induct)
  case less
  show ?case
  proof (cases "length acc < len")
    case False
    with less.prems show ?thesis
      by (subst (asm) read_range_loop.simps) auto
  next
    case True
    obtain x w1 where win: "read_exact_window env self stream next_offset (len - length acc) w = (x, w1)"
      by fastforce
    note run = less.prems(1) [unfolded read_range_loop.simps [of env self stream len next_offset acc w] win]
    have g: "grows content valid first (hw_peer w1)"
      by (rule read_exact_window_keeps(1) [OF honest less.prems(2) win])
    have "grows content valid (hw_peer w) (hw_peer w)"
      using less.prems(2) by (auto intro: grows_refl grows_inv)
    note step = read_exact_window_keeps [OF honest this win]
    show ?thesis
    proof (cases x)
      case (Inl e)
      with run g True show ?thesis by auto
    next
      case (Inr y)
      then obtain body following up where x: "x = Inr (body, following, up)" by (cases y) auto
      have off: "unat following = unat next_offset + length body" "length body \<le> len - length acc"
        using win read_exact_window_Inr unfolding x by blast+
      have ext: "prefix (acc @ body) (drop start (content (hw_peer w1) stream))"
        using prefix_extend [of acc start "content (hw_peer w) stream" "content (hw_peer w1) stream" body]
          step(2) [OF x] grows_prefix [OF step(1)] less.prems(3,4) by simp
      show ?thesis
      proof (cases "following \<le> next_offset \<or> body = []")
        case True
        with run \<open>length acc < len\<close> g show ?thesis by (auto simp: x)
      next
        case go: False
        with run True have again: "read_range_loop env self stream len following (acc @ body) w1 = (r, w')"
          by (simp add: x)
        have shorter: "len - length (acc @ body) < len - length acc"
          using go True by (cases body) auto
        have at: "unat following = start + length (acc @ body)" and le: "length (acc @ body) \<le> len"
          using off less.prems(3) True by simp_all
        show ?thesis
          by (rule less.hyps [OF shorter again g at ext le])
      qed
    qed
  qed
qed

text \<open>The client meets the contract of the store on every network of honest nodes.\<close>

lemma on_peer_eq: "on_peer f s = (x, s') \<longleftrightarrow> (\<exists>w. f \<lparr>hw_peer = s, hw_count = 0\<rparr> = (x, w) \<and> s' = hw_peer w)"
  by (auto simp: on_peer_def split: prod.splits)

lemma prefix_of_drop:
  "prefix bs (drop n c) \<Longrightarrow> bs \<noteq> [] \<Longrightarrow> n + length bs \<le> length c \<and> bs = take (length bs) (drop n c)"
  by (cases "n \<le> length c") (auto simp: prefix_def dest: arg_cong [where f = length])

lemma http_append_keeps:
  assumes honest: "honest_nodes env self content valid" and valid: "valid (hw_peer w)" and body: "body \<noteq> []"
    and run: "http_append env self stream p body w = (r, w')"
  shows "grows content valid (hw_peer w) (hw_peer w') \<and>
    (\<forall>k. r = Inr (Committed k) \<longrightarrow> stored_at (content (hw_peer w') stream) k body)"
proof (cases "stream_url (he_urls env) self stream")
  case (Inl e)
  with run grows_refl [of valid, OF valid] show ?thesis by (auto simp: http_append_def)
next
  case (Inr u)
  let ?I = "grows content valid (hw_peer w)"
  obtain x w1 where sent: "send_following_redirects env self ''append'' u (append_request p body) w = (x, w1)"
    by fastforce
  note keeps = send_following_redirects_keeps [OF requests_append honest_keeps [OF honest]
      grows_refl [of valid, OF valid] sent]
  show ?thesis
  proof (cases x)
    case (Inl e)
    with run \<open>stream_url _ _ _ = Inr u\<close> keeps(1) sent show ?thesis by (auto simp: http_append_def)
  next
    case x: (Inr response)
    with run Inr sent have r: "r = append_result env response" and w': "w' = w1"
      by (auto simp: http_append_def)
    have "stored_at (content (hw_peer w1) stream) k body" if k: "r = Inr (Committed k)" for k
    proof -
      have resp: "rs_status response = 200" "parse_offset response header_next_offset = Inr k"
        using k unfolding r append_result_def
        by (auto simp: Let_def classify_rejection_def r_bind_Inr_iff split: if_splits)
      from keeps(2) [OF x] obtain t s hs where "same_target (he_urls env) t u" and "valid s"
        and "he_transport env \<lparr>rq_method = Post, rq_url = t, rq_headers = hs, rq_body = body\<rparr> s = (Answered response, hw_peer w1)"
        unfolding answered_def same_target_def by (meson grows_inv)
      with honest resp Inr body show ?thesis
        unfolding honest_nodes_def by fastforce
    qed
    with keeps(1) w' show ?thesis by auto
  qed
qed

text \<open>C5. Over any network of honest nodes, the HTTP client is an append-only store: what it
  reads is in the streams, what it reports as committed is stored at the offset it reports, and
  no operation loses a byte. So everything the gateway proves from that contract holds for it.\<close>

theorem http_store_append_only:
  assumes "honest_nodes env self content valid"
  shows "append_only_store (http_store env self) content valid"
proof
  fix s n re s' m
  assume v: "valid s" and run: "us_ensure_stream (http_store env self) n s = (re, s')"
  then show "valid s' \<and> prefix (content s m) (content s' m)"
    using http_ensure_stream_keeps [OF honest_keeps [OF assms, where first = s],
        of "\<lparr>hw_peer = s, hw_count = 0\<rparr>" self n]
    by (auto simp: http_store_def on_peer_eq grows_def)
next
  fix s n and ro :: "store_error + read_all_observation" and s' m
  assume v: "valid s" and run: "us_read_all_observed (http_store env self) n s = (ro, s')"
  then show "valid s' \<and> prefix (content s m) (content s' m) \<and>
      (\<forall>ob. ro = Inr ob \<longrightarrow> prefix (ro_bytes ob) (content s' n))"
    using read_all_loop_keeps [OF assms, where offset = 0 and acc = "[]" and first = s]
    by (fastforce simp: http_store_def on_peer_eq http_read_all_observed_def grows_def elim!: s_bindE)
next
  fix s n and ra :: "store_error + bytes" and s' m
  assume v: "valid s" and run: "us_read_all (http_store env self) n s = (ra, s')"
  then show "valid s' \<and> prefix (content s m) (content s' m) \<and> (\<forall>bs. ra = Inr bs \<longrightarrow> prefix bs (content s' n))"
    using read_all_loop_keeps [OF assms, where offset = 0 and acc = "[]" and first = s]
    by (fastforce simp: http_store_def on_peer_eq http_read_all_def http_read_all_observed_def grows_def elim!: s_bindE)
next
  fix s n offset len and rr :: "store_error + bytes" and s' m
  assume v: "valid s" and run: "us_read_range (http_store env self) n offset len s = (rr, s')"
  have "grows content valid s s' \<and>
      (\<forall>bs. rr = Inr bs \<and> 0 < len \<longrightarrow> length bs = len \<and> prefix bs (drop (unat offset) (content s' n)))"
  proof (cases "len = 0")
    case True
    with run v show ?thesis
      by (auto simp: http_store_def on_peer_eq http_read_range_def intro: grows_refl)
  next
    case False
    obtain x w1 where loop: "read_range_loop env self n len offset [] \<lparr>hw_peer = s, hw_count = 0\<rparr> = (x, w1)"
      by fastforce
    have g: "grows content valid s s" using v by (rule grows_refl)
    from read_range_loop_keeps [OF assms loop, of s "unat offset"] g False run loop show ?thesis
      by (auto simp: http_store_def on_peer_eq http_read_range_def elim!: s_bindE split: if_splits)
  qed
  then show "valid s' \<and> prefix (content s m) (content s' m) \<and>
      (\<forall>bs. rr = Inr bs \<and> 0 < len \<longrightarrow> unat offset + len \<le> length (content s' n) \<and>
        bs = take len (drop (unat offset) (content s' n)))"
    using prefix_of_drop [of _ "unat offset" "content s' n"] by (auto simp: grows_def)
next
  fix s body n p and rp :: "store_error + append_outcome" and s' m
  assume v: "valid s" and body: "body \<noteq> []" and run: "us_append (http_store env self) n p body s = (rp, s')"
  then show "valid s' \<and> prefix (content s m) (content s' m) \<and>
      (\<forall>k. rp = Inr (Committed k) \<longrightarrow> stored_at (content s' n) k body)"
    using http_append_keeps [OF assms, of "\<lparr>hw_peer = s, hw_count = 0\<rparr>" body n p]
    by (fastforce simp: http_store_def on_peer_eq grows_def)
qed

section \<open>Redirects\<close>

text \<open>The same network with a record of the requests it got.\<close>

definition recording :: "('u, 's) http_env \<Rightarrow> ('u, 's \<times> 'u http_request list) http_env" where
  "recording env = \<lparr>he_urls = he_urls env,
     he_transport = (\<lambda>rq (s, log). let (a, s') = he_transport env rq s in (a, (s', log @ [rq]))),
     he_status_text = he_status_text env, he_client_error = he_client_error env\<rparr>"

lemma recording_urls [simp]: "he_urls (recording env) = he_urls env"
  by (simp add: recording_def)

lemma http_send_recorded:
  assumes "http_send (recording env) q w = (x, w')"
  shows "snd (hw_peer w') = snd (hw_peer w) @ [q]"
  using assms
  by (cases "hw_peer w") (auto simp: http_send_def recording_def Let_def split: prod.splits answer.splits)

text \<open>A target the client may be redirected to in place of \<open>u\<close>.\<close>

definition allowed_target :: "('u, 's) http_env \<Rightarrow> 'u http_ursula \<Rightarrow> 'u \<Rightarrow> 'u \<Rightarrow> bool" where
  "allowed_target env self u t \<longleftrightarrow>
     ul_origin (he_urls env) t \<in> set (hu_allowed_origins self) \<and>
     ul_username (he_urls env) t = [] \<and> ul_password (he_urls env) t = None \<and>
     ul_path (he_urls env) t = ul_path (he_urls env) u \<and> ul_query (he_urls env) t = ul_query (he_urls env) u"

lemma redirect_loop_requests:
  assumes rqs: "requests request rq"
  shows "redirect_loop (recording env) self operation request (ul_path (he_urls env) u) (ul_query (he_urls env) u)
      current visited n w = (r, w') \<Longrightarrow> n \<le> hc_max_redirects (hu_config self) \<Longrightarrow>
    snd (hw_peer w) = map rq us \<Longrightarrow> set visited = ul_text (he_urls env) ` set (us @ [current]) \<Longrightarrow>
    distinct (map (ul_text (he_urls env)) (us @ [current])) \<Longrightarrow>
    \<exists>ts. snd (hw_peer w') = map rq (us @ current # ts) \<and> n + length ts \<le> hc_max_redirects (hu_config self) \<and>
      distinct (map (ul_text (he_urls env)) (us @ current # ts)) \<and> list_all (allowed_target env self u) ts"
proof (induction "Suc (hc_max_redirects (hu_config self)) - n" arbitrary: us current visited n w rule: less_induct)
  case less
  let ?env = "recording env"
  obtain q w1 where rq: "request current w = (q, w1)" by fastforce
  then have q: "q = rq current" "hw_peer w1 = hw_peer w"
    using requestsD [OF rqs] by auto
  obtain x w2 where sent: "http_send ?env q w1 = (x, w2)" by fastforce
  have log: "snd (hw_peer w2) = map rq (us @ [current])"
    using http_send_recorded [OF sent] less.prems(3) by (simp add: q)
  note step = less.prems(1) [unfolded redirect_loop.simps [of _ _ _ _ _ _ current] Let_def rq prod.case sent]
  show ?case
  proof (cases "\<exists>response t. x = Inr response \<and>
      redirect_target ?env self operation (ul_path (he_urls env) u) (ul_query (he_urls env) u) visited n response = Inr t \<and>
      redirect_loop ?env self operation request (ul_path (he_urls env) u) (ul_query (he_urls env) u) t
        (ul_text (he_urls env) t # visited) (n + 1) w2 = (r, w')")
    case True
    then obtain response t
      where t: "redirect_target ?env self operation (ul_path (he_urls env) u) (ul_query (he_urls env) u) visited n response = Inr t"
        and again: "redirect_loop ?env self operation request (ul_path (he_urls env) u) (ul_query (he_urls env) u) t
          (ul_text (he_urls env) t # visited) (n + 1) w2 = (r, w')"
      by auto
    note ok = redirect_target_Inr [OF t, unfolded recording_urls]
    have shorter: "Suc (hc_max_redirects (hu_config self)) - (n + 1) < Suc (hc_max_redirects (hu_config self)) - n"
      and le: "n + 1 \<le> hc_max_redirects (hu_config self)" using ok(7) by auto
    have vis: "set (ul_text (he_urls env) t # visited) = ul_text (he_urls env) ` set ((us @ [current]) @ [t])"
      using less.prems(4) by auto
    have dist: "distinct (map (ul_text (he_urls env)) ((us @ [current]) @ [t]))"
      using less.prems(4,5) ok(6) by (auto simp: image_iff)
    from less.hyps [OF shorter again le log vis dist] obtain ts
      where ts: "snd (hw_peer w') = map rq ((us @ [current]) @ t # ts)"
        "n + 1 + length ts \<le> hc_max_redirects (hu_config self)"
        "distinct (map (ul_text (he_urls env)) ((us @ [current]) @ t # ts))" "list_all (allowed_target env self u) ts"
      by blast
    have "allowed_target env self u t" using ok(1-5) by (simp add: allowed_target_def)
    with ts show ?thesis by (intro exI [of _ "t # ts"]) simp
  next
    case False
    then have "w' = w2"
      using step less.prems(2) by (auto split: if_splits sum.splits elim!: s_bindE)
    with log less.prems(2,5) show ?thesis by (intro exI [of _ "[]"]) simp
  qed
qed

text \<open>C33. An append makes at most one request more than the redirects it may follow: the first to
  the configured node, every other to a different URL of an allowed origin without
  credentials, with the path and query of the first, and each with the same producer tuple
  and the same body.\<close>

theorem append_requests_confined:
  assumes "stream_url (he_urls env) self stream = Inr u"
    and "http_append (recording env) self stream p body w = (r, w')" and "snd (hw_peer w) = []"
  shows "\<exists>ts. snd (hw_peer w') = map (\<lambda>t. fst (append_request p body t w)) (u # ts) \<and>
    length ts \<le> hc_max_redirects (hu_config self) \<and> distinct (map (ul_text (he_urls env)) (u # ts)) \<and>
    (\<forall>t \<in> set ts. ul_origin (he_urls env) t \<in> set (hu_allowed_origins self) \<and>
      ul_username (he_urls env) t = [] \<and> ul_password (he_urls env) t = None \<and>
      ul_path (he_urls env) t = ul_path (he_urls env) u \<and> ul_query (he_urls env) t = ul_query (he_urls env) u)"
proof -
  obtain x where "send_following_redirects (recording env) self ''append'' u (append_request p body) w = (x, w')"
    using assms(1,2) by (auto simp: http_append_def elim!: s_bindE)
  from redirect_loop_requests [OF requests_append this [unfolded send_following_redirects_def recording_urls], of "[]"]
  show ?thesis
    using assms(3) by (auto simp: allowed_target_def list_all_iff append_request_def)
qed

section \<open>A sample network\<close>

text \<open>URLs of the form scheme, host, path and query, as text.\<close>

record sample_url =
  su_origin :: string
  su_path :: string
  su_query :: "string option"

definition sample_parse :: "string \<Rightarrow> string + sample_url" where
  "sample_parse v =
     (if take 7 v \<noteq> ''http://'' then Inl ''relative URL without a base'' else
      let (host, rest) = (takeWhile (\<lambda>c. c \<noteq> CHR ''/'') (drop 7 v), dropWhile (\<lambda>c. c \<noteq> CHR ''/'') (drop 7 v));
          (path, q) = (takeWhile (\<lambda>c. c \<noteq> CHR ''?'') rest, dropWhile (\<lambda>c. c \<noteq> CHR ''?'') rest)
      in Inr \<lparr>su_origin = ''http://'' @ host, su_path = (if path = [] then ''/'' else path),
           su_query = (if q = [] then None else Some (tl q))\<rparr>)"

definition sample_urls :: "sample_url url_library" where
  "sample_urls = \<lparr>ul_parse = sample_parse,
     ul_text = (\<lambda>u. su_origin u @ su_path u @ (case su_query u of None \<Rightarrow> [] | Some q \<Rightarrow> ''?'' @ q)),
     ul_origin = su_origin, ul_scheme = (\<lambda>u. ''http''), ul_host = (\<lambda>u. Some (drop 7 (su_origin u))),
     ul_username = (\<lambda>u. []), ul_password = (\<lambda>u. None), ul_path = su_path, ul_query = su_query,
     ul_fragment = (\<lambda>u. None),
     ul_set_segments = (\<lambda>segments u. Some (u\<lparr>su_path := concat (map ((#) (CHR ''/'')) segments)\<rparr>)),
     ul_append_pair = (\<lambda>k v u. u\<lparr>su_query := Some (case su_query u of None \<Rightarrow> k @ ''='' @ v
        | Some q \<Rightarrow> q @ ''&'' @ k @ ''='' @ v)\<rparr>)\<rparr>"

text \<open>A follower at \<open>http://b\<close> redirects to the leader at \<open>http://a\<close>, which keeps the streams.\<close>

definition sample_leader :: "sample_url http_request \<Rightarrow> (string \<Rightarrow> bytes) \<Rightarrow> answer \<times> (string \<Rightarrow> bytes)" where
  "sample_leader rq s =
     (let stream = drop 6 (su_path (rq_url rq)); c = s stream in
      case rq_method rq of
        Put \<Rightarrow> (Answered \<lparr>rs_status = 201, rs_headers = [], rs_body = []\<rparr>, s)
      | Post \<Rightarrow>
          (Answered \<lparr>rs_status = 200,
             rs_headers = [(header_next_offset, Some (show_nat (length c + length (rq_body rq))))],
             rs_body = []\<rparr>, s(stream := c @ rq_body rq))
      | Get \<Rightarrow>
          (let q = (case su_query (rq_url rq) of None \<Rightarrow> [] | Some q \<Rightarrow> q);
               offset = read_dec (takeWhile (\<lambda>x. x \<noteq> CHR ''&'') (drop 7 q));
               len = read_dec (drop 11 (dropWhile (\<lambda>x. x \<noteq> CHR ''&'') q));
               bs = take len (drop offset c)
           in (Answered \<lparr>rs_status = 200,
                 rs_headers = [(header_next_offset, Some (show_nat (offset + length bs))),
                   (header_up_to_date, Some (if offset + length bs < length c then ''false'' else ''true''))],
                 rs_body = [Chunk bs]\<rparr>, s)))"

definition sample_network :: "(sample_url, string \<Rightarrow> bytes) transport" where
  "sample_network rq s =
     (if su_origin (rq_url rq) = ''http://a'' then sample_leader rq s
      else (Answered \<lparr>rs_status = 307, rs_headers = [(header_raft_leader_id, Some ''1''),
              (''location'', Some (ul_text sample_urls ((rq_url rq)\<lparr>su_origin := ''http://a''\<rparr>)))],
              rs_body = []\<rparr>, s))"

definition sample_env :: "(sample_url, string \<Rightarrow> bytes) http_env" where
  "sample_env = \<lparr>he_urls = sample_urls, he_transport = sample_network,
     he_status_text = show_nat, he_client_error = None\<rparr>"

definition sample_client :: "sample_url http_ursula" where
  "sample_client = \<lparr>hu_config = default_http_config\<lparr>hc_base_url := ''http://b'',
       hc_redirect_base_urls := [''http://a''], hc_bucket := ''test''\<rparr>,
     hu_base_url = \<lparr>su_origin = ''http://b'', su_path = ''/'', su_query = None\<rparr>,
     hu_allowed_origins = [''http://a'', ''http://b'']\<rparr>"

lemma sample_client_new:
  "http_ursula_new sample_env (default_http_config\<lparr>hc_base_url := ''http://b'',
     hc_redirect_base_urls := [''http://a''], hc_bucket := ''test''\<rparr>) = Inr sample_client"
  by (simp add: http_ursula_new_def sample_env_def sample_urls_def parse_node_base_def sample_parse_def
      sample_client_def default_http_config_def)

lemma sample_stream_url:
  "stream_url sample_urls sample_client n = Inr \<lparr>su_origin = ''http://b'', su_path = ''/test/'' @ n, su_query = None\<rparr>"
  by (simp add: stream_url_def object_url_def sample_urls_def sample_client_def default_http_config_def)

lemma no_amp: "\<forall>c \<in> set (show_nat n). c \<noteq> CHR ''&''"
  using show_nat_digits [of _ n] by force

lemma sample_query:
  "takeWhile (\<lambda>x. x \<noteq> CHR ''&'') (show_nat n @ CHR ''&'' # r) = show_nat n"
  using no_amp [of n] by (simp add: takeWhile_append2 takeWhile_tail)

lemma sample_window_url:
  "window_url sample_urls sample_client n offset len = Inr \<lparr>su_origin = ''http://b'', su_path = ''/test/'' @ n,
     su_query = Some (''offset='' @ show_u64 offset @ ''&max_bytes='' @ show_nat len)\<rparr>"
  by (simp add: window_url_def sample_stream_url) (simp add: sample_urls_def)

lemma prefix_chunk: "read_body_bounded \<lparr>rs_status = st, rs_headers = hs, rs_body = [Chunk bs]\<rparr> len = Inr body \<Longrightarrow> body = bs"
  by (auto simp: read_body_bounded_def r_bind_Inr_iff split: if_splits)

lemma parse_show_nat [simp]: "n < 2 ^ 64 \<Longrightarrow> parse_u64 (show_nat n) = Some (of_nat n)"
  and parse_show_natD: "parse_u64 (show_nat n) = Some k \<Longrightarrow> unat k = n"
proof -
  have "show_nat n \<noteq> []" by simp
  then obtain c cs where c: "show_nat n = c # cs" by (cases "show_nat n") auto
  then have "c \<noteq> CHR ''+''" using show_nat_digits [of c n] by auto
  moreover have "list_all (\<lambda>c. 48 \<le> (of_char c :: nat) \<and> of_char c \<le> (57 :: nat)) (show_nat n)"
    using show_nat_digits [of _ n] by (fastforce simp: list_all_iff)
  ultimately have "parse_u64 (show_nat n) = (if n < 2 ^ 64 then Some (of_nat n) else None)"
    using c read_dec_show_nat [of n] by (simp add: parse_u64_def)
  then show "n < 2 ^ 64 \<Longrightarrow> parse_u64 (show_nat n) = Some (of_nat n)"
    and "parse_u64 (show_nat n) = Some k \<Longrightarrow> unat k = n"
    by (auto simp: unat_of_nat split: if_splits)
qed

lemma sample_honest: "honest_nodes sample_env sample_client (\<lambda>s. s) (\<lambda>s. True)"
proof -
  have sel: "he_urls sample_env = sample_urls" "he_transport sample_env = sample_network"
    by (simp_all add: sample_env_def)
  have grow: "prefix (s m) (s' m)" if "sample_network rq s = (a, s')" for rq s a s' m
    using that by (auto simp: sample_network_def sample_leader_def Let_def split: if_splits http_method.splits)
  have get: "prefix body (drop (unat offset) (s' n))"
    if run: "sample_network rq s = (Answered response, s')" and ok: "rs_status response = 200"
      and get: "rq_method rq = Get" and u: "window_url sample_urls sample_client n offset len = Inr u"
      and same: "same_target sample_urls (rq_url rq) u" and body: "read_body_bounded response len = Inr body"
    for rq s response s' n offset len u body
  proof -
    have target: "su_path (rq_url rq) = ''/test/'' @ n"
      "su_query (rq_url rq) = Some (''offset='' @ show_u64 offset @ ''&max_bytes='' @ show_nat len)"
      using u same by (auto simp: same_target_def sample_window_url) (simp_all add: sample_urls_def)
    have off: "read_dec (takeWhile (\<lambda>x. x \<noteq> CHR ''&'') (show_u64 offset @ CHR ''&'' # r)) = unat offset" for r
      by (simp add: show_u64_def sample_query)
    from run ok have "su_origin (rq_url rq) = ''http://a''"
      by (auto simp: sample_network_def split: if_splits)
    with run ok get target body off show ?thesis
      by (auto simp: sample_network_def sample_leader_def Let_def take_is_prefix dest!: prefix_chunk)
  qed
  have post: "stored_at (s' n) k (rq_body rq)"
    if run: "sample_network rq s = (Answered response, s')" and ok: "rs_status response = 200"
      and post: "rq_method rq = Post" and u: "stream_url sample_urls sample_client n = Inr u"
      and same: "same_target sample_urls (rq_url rq) u" and k: "parse_offset response header_next_offset = Inr k"
    for rq s response s' n u k
  proof -
    have target: "su_path (rq_url rq) = ''/test/'' @ n"
      using u same by (auto simp: same_target_def sample_stream_url) (simp_all add: sample_urls_def)
    from run ok have "su_origin (rq_url rq) = ''http://a''"
      by (auto simp: sample_network_def split: if_splits)
    with run post target k show ?thesis
      by (auto simp: sample_network_def sample_leader_def Let_def parse_offset_def header_text_def
          bind_eq_Some_conv dest!: parse_show_natD intro!: stored_at_end)
  qed
  show ?thesis
    unfolding honest_nodes_def sel
  proof (intro allI impI conjI TrueI)
    show "prefix (s m) (s' m)" if "sample_network rq s = (a, s')" for rq s a s' m
      using that by (rule grow)
  qed (blast intro: get post)+
qed

theorem http_store_append_only_witness:
  "append_only_store (http_store sample_env sample_client) (\<lambda>s. s) (\<lambda>s. True)"
  by (rule http_store_append_only [OF sample_honest])

theorem append_requests_confined_witness:
  "let p = \<lparr>pt_id = ''p'', pt_epoch = 1, pt_sequence = 0\<rparr>;
       w = \<lparr>hw_peer = (\<lambda>n. [], []), hw_count = 0\<rparr>
   in length (snd (hw_peer (snd (http_append (recording sample_env) sample_client ''s'' p [1, 2] w)))) \<le> 5"
proof -
  let ?p = "\<lparr>pt_id = ''p'', pt_epoch = 1, pt_sequence = 0\<rparr>"
  let ?w = "\<lparr>hw_peer = (\<lambda>n. [], []), hw_count = 0\<rparr>"
  have u: "stream_url (he_urls sample_env) sample_client ''s'' =
      Inr \<lparr>su_origin = ''http://b'', su_path = ''/test/s'', su_query = None\<rparr>"
    using sample_stream_url [of "''s''"] by (simp add: sample_env_def)
  obtain r w' where run: "http_append (recording sample_env) sample_client ''s'' ?p [1, 2] ?w = (r, w')"
    by fastforce
  from append_requests_confined [OF u run] show ?thesis
    unfolding Let_def run by (auto simp: sample_client_def default_http_config_def)
qed

text \<open>The append through the follower: redirected once, committed by the leader.\<close>

lemma sample_append:
  "us_append (http_store sample_env sample_client) ''s'' \<lparr>pt_id = ''p'', pt_epoch = 1, pt_sequence = 0\<rparr> [1, 2] (\<lambda>n. []) =
     (Inr (Committed 2), (\<lambda>n. [])(''s'' := [1, 2]))"
proof -
  have sel: "he_urls sample_env = sample_urls" "he_transport sample_env = sample_network"
    by (simp_all add: sample_env_def)
  have "sample_parse ''http://a/test/s'' = Inr \<lparr>su_origin = ''http://a'', su_path = ''/test/s'', su_query = None\<rparr>"
    by (simp add: sample_parse_def)
  moreover have "parse_u64 ''1'' = Some 1"
    by (simp add: parse_u64_def read_dec_def)
  ultimately show ?thesis
    by (simp add: http_store_def on_peer_def http_append_def sel sample_stream_url send_following_redirects_def)
      (simp add: sel redirect_loop.simps append_request_def http_send_def sample_network_def sample_leader_def
        redirect_target_def header_text_def sample_client_def default_http_config_def sample_urls_def
        header_raft_leader_id_def append_result_def parse_offset_def
        header_next_offset_def Let_def)
qed

end
