(* ===== verification/Main_Config.thy ===== *)
theory Main_Config
  imports Http Server
begin

text \<open>
  The configuration \<open>src/main.rs\<close> builds from the command line: the limits of the store
  client, of the rooms and of the connections, from one set of arguments. The parsing of the
  arguments is the \<open>clap\<close> crate's; durations are in nanoseconds for the client and in
  milliseconds for the connections, as in their theories.
\<close>

record args =
  ar_ursula_url :: string
  ar_ursula_peer_urls :: "string list"
  ar_ursula_max_redirects :: nat
  ar_ursula_bucket :: string
  ar_ursula_timeout_seconds :: nat
  ar_ambiguous_retries :: nat
  ar_safe_read_retries :: nat
  ar_ursula_read_chunk_bytes :: nat
  ar_max_room_history_bytes :: nat
  ar_max_frame_bytes :: nat
  ar_max_update_bytes :: nat
  ar_max_updates_per_batch :: nat
  ar_max_fragment_batches :: nat
  ar_max_fragments_per_batch :: u64
  ar_max_fragment_bytes_per_connection :: u64
  ar_fragment_timeout_seconds :: nat

definition default_args :: args where
  "default_args = \<lparr>ar_ursula_url = ''http://127.0.0.1:4437'', ar_ursula_peer_urls = [],
     ar_ursula_max_redirects = 4, ar_ursula_bucket = ''qloro'', ar_ursula_timeout_seconds = 30,
     ar_ambiguous_retries = 5, ar_safe_read_retries = 3, ar_ursula_read_chunk_bytes = 65536,
     ar_max_room_history_bytes = 536870912, ar_max_frame_bytes = 67108864,
     ar_max_update_bytes = 33554432, ar_max_updates_per_batch = 4096, ar_max_fragment_batches = 8,
     ar_max_fragments_per_batch = 4096, ar_max_fragment_bytes_per_connection = 67108864,
     ar_fragment_timeout_seconds = 10\<rparr>"

definition ensure_positive :: "string \<Rightarrow> nat \<Rightarrow> string + unit" where
  "ensure_positive message n = (if n > 0 then Inr () else Inl message)"

definition store_config_of :: "args \<Rightarrow> http_config" where
  "store_config_of args = default_http_config\<lparr>
     hc_base_url := ar_ursula_url args,
     hc_redirect_base_urls := ar_ursula_peer_urls args,
     hc_max_redirects := ar_ursula_max_redirects args,
     hc_bucket := ar_ursula_bucket args,
     hc_response_timeout := ar_ursula_timeout_seconds args * 10 ^ 9,
     hc_read_chunk_bytes := ar_ursula_read_chunk_bytes args,
     hc_max_stream_bytes := ar_max_room_history_bytes args,
     hc_safe_retries := ar_safe_read_retries args\<rparr>"

definition actor_config_of :: "args \<Rightarrow> actor_config" where
  "actor_config_of args = default_actor_config\<lparr>
     ag_ambiguous_retries := ar_ambiguous_retries args,
     ag_frame_limits := default_frame_limits\<lparr>
       fl_max_frame_bytes := ar_max_frame_bytes args,
       fl_max_updates := ar_max_updates_per_batch args,
       fl_max_update_bytes := ar_max_update_bytes args,
       fl_max_updates_bytes := ar_max_update_bytes args,
       fl_max_stream_bytes := ar_max_room_history_bytes args\<rparr>\<rparr>"

definition server_config_of :: "protocol_codec \<Rightarrow> args \<Rightarrow> u64 \<Rightarrow> server_config" where
  "server_config_of codec args max_update_bytes_u64 = \<lparr>
     sv_protocol_limits = (default_protocol_limits codec)\<lparr>
       pl_max_updates := ar_max_updates_per_batch args,
       pl_max_update_bytes := ar_max_update_bytes args,
       pl_max_updates_bytes := ar_max_update_bytes args\<rparr>,
     sv_max_fragment_batches = ar_max_fragment_batches args,
     sv_max_fragments_per_batch = ar_max_fragments_per_batch args,
     sv_max_reassembled_bytes = max_update_bytes_u64,
     sv_max_fragment_bytes_per_connection = ar_max_fragment_bytes_per_connection args,
     sv_fragment_timeout = ar_fragment_timeout_seconds args * 1000\<rparr>"

text \<open>The checks of \<open>main\<close> in order, the store client, and the two other configurations.\<close>

definition main_config ::
  "('u, 's) http_env \<Rightarrow> protocol_codec \<Rightarrow> args \<Rightarrow>
   string + ('u http_ursula \<times> actor_config \<times> server_config)" where
  "main_config env codec args =
     r_bind (ensure_positive ''room history limit must be non-zero'' (ar_max_room_history_bytes args)) (\<lambda>_.
     r_bind (ensure_positive ''frame limit must be non-zero'' (ar_max_frame_bytes args)) (\<lambda>_.
     r_bind (ensure_positive ''update limit must be non-zero'' (ar_max_update_bytes args)) (\<lambda>_.
     r_bind (ensure_positive ''update count limit must be non-zero'' (ar_max_updates_per_batch args)) (\<lambda>_.
     r_bind (ok_or ''update limit does not fit u64'' (u64_of_usize (ar_max_update_bytes args)))
       (\<lambda>max_update_bytes_u64.
     r_bind (map_err store_error_text (http_ursula_new env (store_config_of args))) (\<lambda>store.
     Inr (store, actor_config_of args, server_config_of codec args max_update_bytes_u64)))))))"

text \<open>
  The limits agree: an update that a connection can put together from fragments, or take from
  one message, is within what a frame of a room can hold, and a stream the client can read is
  one a room can decode.
\<close>

lemma main_config_limits:
  assumes "main_config env codec args = Inr (store, actor, server)"
  shows "unat (sv_max_reassembled_bytes server) = fl_max_update_bytes (ag_frame_limits actor) \<and>
    pl_max_update_bytes (sv_protocol_limits server) = fl_max_update_bytes (ag_frame_limits actor) \<and>
    pl_max_updates (sv_protocol_limits server) = fl_max_updates (ag_frame_limits actor) \<and>
    pl_max_updates_bytes (sv_protocol_limits server) = fl_max_updates_bytes (ag_frame_limits actor) \<and>
    hc_max_stream_bytes (hu_config store) = fl_max_stream_bytes (ag_frame_limits actor) \<and>
    0 < hc_read_chunk_bytes (hu_config store)"
  using assms
  by (auto simp: main_config_def server_config_of_def actor_config_of_def store_config_of_def
      http_ursula_new_def u64_of_usize_unat elim!: r_bind_InrE split: if_splits option.splits)

end
