(* ===== verification/Spec2Isabelle.thy ===== *)
theory Spec2Isabelle
  imports Gateway Room_Restart Actor_Broadcast Http_Store Main_Config
begin

text \<open>
  A model of the Quorum Loro Gateway (\<open>src/*.rs\<close>) and the proofs that go with it. The gateway
  stands between clients of the Loro synchronization protocol and Ursula, a store of
  append-only byte streams. It validates the updates a client sends for a room, stores their
  exact bytes as frames in a stream of the room, and acknowledges an update only once its
  frame is known to be stored. This header says which theory models which part, what is
  proved, which bounds and parameters the model has, and what is left out.

  \<^bold>\<open>How the program hangs together.\<close>
  A connection (\<open>server.rs\<close>) takes messages from a WebSocket, checks them with the bounded
  decoder (\<open>protocol.rs\<close>), puts fragmented updates together and passes joins, updates and
  leaves to rooms. The directory of rooms (\<open>RoomManager\<close> in \<open>actor.rs\<close>) creates one actor per
  room. An actor recovers its room from the store: the head of the manifest chain names a
  checkpoint and an active delta stream (\<open>recovery.rs\<close>, \<open>manifest.rs\<close>, \<open>checkpoint.rs\<close>,
  \<open>frame.rs\<close>), whose names come from the room's hash (\<open>names.rs\<close>). An update is tried on a
  copy of the document, encoded as a frame and appended; an append whose outcome is unknown
  blocks the room until the same frame is resolved. A rotation (\<open>rotation.rs\<close>) writes a
  checkpoint (\<open>checkpoint_store.rs\<close>) and publishes a manifest record (\<open>manifest_store.rs\<close>),
  both by the exact append of \<open>exact_append.rs\<close>. All of them reach the store through the trait
  \<open>UrsulaStore\<close>, which \<open>HttpUrsula\<close> (\<open>ursula.rs\<close>) implements over HTTP.

  \<^bold>\<open>Theories.\<close>
  \<^item> \<open>Prelude\<close>, \<open>Codec\<close>: machine integers, results, slices read through a cursor, big-endian
    integers, strings as bytes with UTF-8 validation; the locale of a codec, from which the
    round trips of the record formats are derived.
  \<^item> \<open>Names\<close> (\<open>names.rs\<close>): stream names, producer identities and generations. Names of different
    kinds, generations and rooms differ and are safe to put in a URL.
  \<^item> \<open>Frame\<close> (\<open>frame.rs\<close>), \<open>Manifest\<close> (\<open>manifest.rs\<close>), \<open>Checkpoint\<close> (\<open>checkpoint.rs\<close>): the three
    record formats, field by field with every limit and error of the code. Encoding and
    decoding are inverse in both directions, so that what a decoder accepts is byte for byte
    what the encoder writes; truncation is refused; streams decode to exactly the records they
    are made of; a manifest chain is validated exactly when it is well formed, and two chains
    with the same head are equal or exhibit a collision of the hash.
  \<^item> \<open>Loro\<close>, \<open>Checkpoint_Build\<close>: what the gateway uses of the \<open>loro\<close> crate, as a record of
    functions, and \<open>build_checkpoint_record\<close>: a checkpoint restores the live document.
  \<^item> \<open>Store\<close> (the trait in \<open>ursula.rs\<close>), \<open>Memory_Store\<close> (the store of \<open>tests/gateway.rs\<close>): the
    operations and two contracts as locales. \<open>append_only_store\<close> says that streams only grow,
    that reads return a prefix of them and that a committed body is stored at its offset; it holds
    with other writers and stale reads. \<open>exclusive_store\<close> is for a single writer: it adds that
    tuples are deduplicated and that a successful read returns the whole stream, which
    \<open>docs/DESIGN.md\<close> does not promise of a follower while a quorum is unavailable.
    \<open>Idempotent_Store\<close> adds that a tuple is answered with a duplicate exactly when the store has
    taken it. The in-memory store interprets all three, the HTTP client the first.
  \<^item> \<open>Exact_Append\<close>, \<open>Checkpoint_Store\<close>, \<open>Manifest_Store\<close>, \<open>Rotation\<close>, \<open>Recovery\<close>, \<open>Error_Text\<close>:
    the operations of the files of those names, with every error as a value and its text. An
    exact append that succeeds is durable, appends at most once and makes, on any store, no more
    calls than its retries allow, all of them alike; a checkpoint is immutable; a published
    record is at the head of a valid chain; a rotation is durable, and recovering after it gives
    the rotated room; recovery fails closed, and recovers sound streams. \<open>recovery_of\<close>, recovery
    as a function of what the streams hold, only serves the proofs.
  \<^item> \<open>Messages\<close>, \<open>Actor_State\<close>, \<open>Resolve_Append\<close>, \<open>Room_Actor\<close> (\<open>actor.rs\<close>): the actor of a
    room, each command a function from the actor and the world to the actor and the world.
    \<open>Actor_Invariants\<close>, \<open>Actor_Durability\<close>, \<open>Actor_Properties\<close> and \<open>Actor_Limits\<close> prove over the
    relation \<open>room_run\<close>, the runs of a room with restarts and a store that changes underneath,
    that acknowledged updates are durable, that no room has two appends in flight, that stream
    and producer belong to the generation, that the status is current, that an update happens
    as a whole or not at all, and what a retry reloads; \<open>Actor_Broadcast\<close>, that an accepted
    update reaches every other member of the room and nobody else.
  \<^item> \<open>Room_Start\<close>: in every run on every store the document holds the history; and on any
    append-only store a start that is ready was made from whole verified records at the
    beginning of its streams, which is what remains when reads are stale.
  \<^item> \<open>Room_Log\<close>, \<open>Room_Accepted\<close>, \<open>Room_Restart\<close>: the abstraction of a room to the log of its
    active stream and to the updates it has acknowledged. On an idempotent store, which has
    fresh reads, with streams of its own, and in runs without a retry of an ambiguous append or
    without a rotation, a ready room is the log of what it accepted, and a restart gives the
    same room.
  \<^item> \<open>Protocol\<close> (\<open>protocol.rs\<close>), \<open>Server\<close>, \<open>Server_Fragments\<close> (\<open>server.rs\<close>): the bounded decoder
    and the connection. What a connection keeps stays within its limits, a fragmented update is
    put together whatever the order of its fragments, updates go only to joined rooms, and every
    join is followed by a leave.
  \<^item> \<open>Http\<close>, \<open>Http_Store\<close> (\<open>HttpUrsula\<close> in \<open>ursula.rs\<close>): redirects, retries, windows and the five
    operations. Over honest nodes, whose reads may be stale, the client is an
    \<open>append_only_store\<close>, so that what is proved on that contract holds for it: acknowledged
    updates are durable, so are successful exact appends, checkpoints, manifest records and
    rotations, and a start is made from verified prefixes. What is proved on the contracts for a
    single writer (at most one append, immutability, recovery, rotation round trip, the log of a
    room) is not claimed of it. Its appends stay within the allowed origins and redirects.
  \<^item> \<open>Room_Manager\<close> (\<open>RoomManager\<close>, \<open>RoomHandle\<close> in \<open>actor.rs\<close>) and \<open>Gateway\<close>: connections,
    directory and rooms interleaved in the relation \<open>gateway_run\<close>; the durability of
    acknowledged updates and the invariants of rooms and connections hold for the whole.
  \<^item> \<open>Main_Config\<close> (\<open>main.rs\<close>): the configurations made from the command line; their limits
    agree with each other.

  \<^bold>\<open>Parameters.\<close>
  Code outside the repository is an argument of the definitions: SHA-256 and CRC-32
  (\<open>hashes\<close>; no property but those that say so depends on them being collision free), the
  \<open>loro\<close> crate (\<open>loro\<close>, with its documented laws as hypotheses where they are used), the codec
  and message limit of the \<open>loro_protocol\<close> crate (\<open>protocol_codec\<close>), the \<open>url\<close> crate and the
  network (\<open>url_library\<close>, \<open>transport\<close>), and any store behind the trait (\<open>ursula_store\<close>).
  Properties over a parameter have a witness with a concrete one.

  \<^bold>\<open>Representation.\<close>
  A \<open>u64\<close> is a word of 64 bits and a \<open>usize\<close> a natural number below \<open>2 ^ 64\<close>, checked and
  saturating operations as in the code; an array of bytes of fixed size is the word of its
  bits; a string is the list of its bytes; hash maps of peers, batches and rooms are
  association lists, so that iterations have an order here that the code leaves open. An
  asynchronous function is a function on an explicit state; it is atomic in the model, except
  that the runs let the store change between commands. Time appears only as the deadlines of
  fragmented updates and the delays of retries.

  \<^bold>\<open>Bounds and termination.\<close>
  There is no fuel: every loop is a total function. The retry and redirect loops count up to
  their limits, the decoders consume input, the reading loops of the client end because a
  window without progress is an error and the total is bounded. Limits are parameters, and the
  defaults of the code are definitions.

  \<^bold>\<open>Not modelled.\<close>
  Log events, elapsed times in the status and the crash points of the tests; the HTTP routes
  and the writer task of a connection, whose encoder belongs to another crate; what \<open>clap\<close>,
  \<open>axum\<close> and \<open>tokio\<close> do: parsing arguments, accepting sockets, scheduling tasks; the closing of
  a room's channel, since a room's task never ends while the directory lives; the gate of
  \<open>WaitFor\<close> in the in-memory store. The module list \<open>lib.rs\<close> has no behaviour.

  \<^bold>\<open>What modelling showed.\<close>
  A retry of an ambiguous append reloads the active delta stream alone and so drops the
  checkpoint of a rotated room (\<open>retry_reloads_active_stream\<close>); a rejection after an ambiguous
  attempt is reported as definite (\<open>rejection_after_ambiguity\<close>); a checkpoint stored by a
  failed rotation blocks later ones once the room has moved on (\<open>persist_checkpoint_immutable\<close>
  says why); a start takes a stale read for the whole stream (\<open>start_reads_prefixes\<close>); a manifest can grow by one record beyond what its decoder accepts, and a delta
  stream beyond the limit a start reads it with (\<open>restart_restores_room\<close>); a leave is lost while
  a room is corrupt or unavailable.
\<close>

end
